(* ===== verification/Wire.thy ===== *)
theory Wire
  imports Prelude
begin

text \<open>
  The fragment writer and reader of internal/protocol/frame.go. A \<open>wire\<close> is the byte buffer
  a message is appended to; a \<open>reader\<close> is a message with the offset of the next unread byte.
  Two interfaces are stated as locales: \<open>codec\<close>, the contract between one fragment writer and
  its reader, and \<open>message_codec\<close> with its extension \<open>prefix_codec\<close>, the contract between the
  \<open>Encode\<close> method and the \<open>Parse\<close> function of a whole message. Every fragment is an
  interpretation of \<open>codec\<close> here; the message theories interpret the other two.
\<close>

section \<open>Errors\<close>

text \<open>
  The errors of the package: \<open>ErrTruncated\<close>, the \<open>expected data type ..., got %d\<close> errors and
  the \<open>unknown web response type %d\<close> error.
\<close>

datatype perror = ErrTruncated | ErrDataType u16 | ErrWebResponseType u8

section \<open>The writer\<close>

type_synonym wire = bytes

definition w_u8 :: "u8 \<Rightarrow> wire \<Rightarrow> wire" where
  "w_u8 v w = w @ [v]"

definition w_u16 :: "u16 \<Rightarrow> wire \<Rightarrow> wire" where
  "w_u16 v w = w @ le_bytes 2 (unat v)"

definition w_u32 :: "u32 \<Rightarrow> wire \<Rightarrow> wire" where
  "w_u32 v w = w @ le_bytes 4 (unat v)"

definition w_u64 :: "u64 \<Rightarrow> wire \<Rightarrow> wire" where
  "w_u64 v w = w @ le_bytes 8 (unat v)"

text \<open>
  Signed integers are words of the same width read with \<^const>\<open>sint\<close>; the conversions
  \<open>uint64(v)\<close> and \<open>uint32(v)\<close> of the source keep the bits.
\<close>

definition w_i64 :: "64 word \<Rightarrow> wire \<Rightarrow> wire" where
  "w_i64 v w = w @ le_bytes 8 (unat v)"

definition w_i32 :: "32 word \<Rightarrow> wire \<Rightarrow> wire" where
  "w_i32 v w = w @ le_bytes 4 (unat v)"

definition w_port :: "u16 \<Rightarrow> wire \<Rightarrow> wire" where
  "w_port v w = w @ rev (le_bytes 2 (unat v))"

definition w_str :: "string \<Rightarrow> wire \<Rightarrow> wire" where
  "w_str s w = w_u16 (word_of_nat (length s)) w @ to_bytes s"

definition w_str8 :: "string \<Rightarrow> wire \<Rightarrow> wire" where
  "w_str8 s w = w_u8 (word_of_nat (length s)) w @ to_bytes s"

definition w_bytes :: "bytes \<Rightarrow> wire \<Rightarrow> wire" where
  "w_bytes b w = w @ b"

text \<open>A method body is a sequence of writer calls on an initially empty buffer.\<close>

definition emit :: "(wire \<Rightarrow> wire) list \<Rightarrow> bytes" where
  "emit fs = fold (\<lambda>f w. f w) fs []"

text \<open>Every writer appends: \<open>put_x v\<close> is what the call appends.\<close>

abbreviation "put_u8 v \<equiv> w_u8 v []"
abbreviation "put_u16 v \<equiv> w_u16 v []"
abbreviation "put_u32 v \<equiv> w_u32 v []"
abbreviation "put_u64 v \<equiv> w_u64 v []"
abbreviation "put_i64 v \<equiv> w_i64 v []"
abbreviation "put_i32 v \<equiv> w_i32 v []"
abbreviation "put_port v \<equiv> w_port v []"
abbreviation "put_str s \<equiv> w_str s []"
abbreviation "put_str8 s \<equiv> w_str8 s []"

lemma put_lengths [simp]:
  "length (put_u8 a) = 1" "length (put_u16 b) = 2" "length (put_u32 c) = 4"
  "length (put_u64 d) = 8" "length (put_i64 e) = 8" "length (put_i32 f) = 4"
  "length (put_port g) = 2" "length (put_str s) = 2 + length s"
  "length (put_str8 s) = 1 + length s"
  by (simp_all add: w_u8_def w_u16_def w_u32_def w_u64_def w_i64_def w_i32_def w_port_def
      w_str_def w_str8_def)

lemma put_nonempty [simp]:
  "put_u8 a \<noteq> []" "put_u16 b \<noteq> []" "put_u32 c \<noteq> []" "put_u64 d \<noteq> []" "put_i64 e \<noteq> []"
  "put_i32 f \<noteq> []" "put_port g \<noteq> []" "put_str s \<noteq> []" "put_str8 s \<noteq> []"
  by (simp_all add: w_u8_def w_u16_def w_u32_def w_u64_def w_i64_def w_i32_def w_port_def
      w_str_def w_str8_def)

text \<open>\<open>emit\<close> of a call sequence is the concatenation of what the calls append.\<close>

lemma emit_Nil [simp]: "emit [] = []"
  by (simp add: emit_def)

lemma fold_append_prefix:
  assumes "\<And>f w. f \<in> set fs \<Longrightarrow> f w = w @ f []"
  shows "fold (\<lambda>f w. f w) fs (w @ v) = w @ fold (\<lambda>f w. f w) fs v"
  using assms
proof (induction fs arbitrary: v)
  case Nil
  then show ?case by simp
next
  case (Cons f fs)
  have f: "f u = u @ f []" for u
    by (rule Cons.prems) simp
  have "fold (\<lambda>f w. f w) (f # fs) (w @ v) = fold (\<lambda>f w. f w) fs (w @ (v @ f []))"
    by (simp add: f [of "w @ v"])
  also have "\<dots> = w @ fold (\<lambda>f w. f w) fs (v @ f [])"
    using Cons.prems by (intro Cons.IH) auto
  also have "\<dots> = w @ fold (\<lambda>f w. f w) (f # fs) v"
    by (simp add: f [of v])
  finally show ?case .
qed

definition appends :: "(wire \<Rightarrow> wire) \<Rightarrow> bool" where
  "appends f \<longleftrightarrow> (\<forall>w. f w = w @ f [])"

lemma appends_intros [simp]:
  "appends (w_u8 a)" "appends (w_u16 b)" "appends (w_u32 c)" "appends (w_u64 d)"
  "appends (w_i64 e)" "appends (w_i32 f)" "appends (w_port g)" "appends (w_str s)"
  "appends (w_str8 s)" "appends (w_bytes bs)"
  by (simp_all add: appends_def w_u8_def w_u16_def w_u32_def w_u64_def w_i64_def w_i32_def
      w_port_def w_str_def w_str8_def w_bytes_def)

lemma emit_Cons:
  assumes "list_all appends fs"
  shows "emit (f # fs) = f [] @ emit fs"
proof -
  have "g w = w @ g []" if "g \<in> set fs" for g w
    using assms that by (auto simp: list_all_iff appends_def)
  then show ?thesis
    unfolding emit_def
    using fold_append_prefix [of fs "f []" "[]"] by simp
qed

lemma appends_if [simp]: "appends f \<Longrightarrow> appends g \<Longrightarrow> appends (if c then f else g)"
  by simp

lemma w_bytes_Nil [simp]: "w_bytes b [] = b"
  by (simp add: w_bytes_def)

lemmas emit_simps = emit_Cons

section \<open>The reader\<close>

record reader =
  rd_buf :: bytes
  rd_off :: nat

definition rd_new :: "bytes \<Rightarrow> reader" where
  "rd_new b = \<lparr>rd_buf = b, rd_off = 0\<rparr>"

definition rd_remaining :: "reader \<Rightarrow> int" where
  "rd_remaining r = int (length (rd_buf r)) - int (rd_off r)"

definition rd_take :: "int \<Rightarrow> reader \<Rightarrow> perror + (bytes \<times> reader)" where
  "rd_take n r =
     (if n < 0 \<or> rd_remaining r < n then Inl ErrTruncated
      else Inr (take (nat n) (drop (rd_off r) (rd_buf r)), r\<lparr>rd_off := rd_off r + nat n\<rparr>))"

definition rd_u8 :: "reader \<Rightarrow> perror + (u8 \<times> reader)" where
  "rd_u8 r = bindE (rd_take 1 r) (\<lambda>(b, r). Inr (b ! 0, r))"

definition rd_u16 :: "reader \<Rightarrow> perror + (u16 \<times> reader)" where
  "rd_u16 r = bindE (rd_take 2 r) (\<lambda>(b, r). Inr (word_of_nat (le_nat b), r))"

definition rd_u32 :: "reader \<Rightarrow> perror + (u32 \<times> reader)" where
  "rd_u32 r = bindE (rd_take 4 r) (\<lambda>(b, r). Inr (word_of_nat (le_nat b), r))"

definition rd_u64 :: "reader \<Rightarrow> perror + (u64 \<times> reader)" where
  "rd_u64 r = bindE (rd_take 8 r) (\<lambda>(b, r). Inr (word_of_nat (le_nat b), r))"

definition rd_i64 :: "reader \<Rightarrow> perror + (64 word \<times> reader)" where
  "rd_i64 r = bindE (rd_take 8 r) (\<lambda>(b, r). Inr (word_of_nat (le_nat b), r))"

definition rd_i32 :: "reader \<Rightarrow> perror + (32 word \<times> reader)" where
  "rd_i32 r = bindE (rd_take 4 r) (\<lambda>(b, r). Inr (word_of_nat (le_nat b), r))"

definition rd_port :: "reader \<Rightarrow> perror + (u16 \<times> reader)" where
  "rd_port r = bindE (rd_take 2 r) (\<lambda>(b, r). Inr (word_of_nat (le_nat (rev b)), r))"

definition rd_str :: "reader \<Rightarrow> perror + (string \<times> reader)" where
  "rd_str r =
     bindE (rd_u16 r) (\<lambda>(n, r).
     bindE (rd_take (uint n) r) (\<lambda>(b, r).
     Inr (of_bytes b, r)))"

definition rd_str8 :: "reader \<Rightarrow> perror + (string \<times> reader)" where
  "rd_str8 r =
     bindE (rd_u8 r) (\<lambda>(n, r).
     bindE (rd_take (uint n) r) (\<lambda>(b, r).
     Inr (of_bytes b, r)))"

text \<open>
  \<open>at_reader pre t\<close> is the reader that has consumed \<open>pre\<close> and has \<open>t\<close> left; every reader with
  its offset inside the buffer is one, and the fragment readers are characterised on it.
\<close>

definition at_reader :: "bytes \<Rightarrow> bytes \<Rightarrow> reader" where
  "at_reader pre t = \<lparr>rd_buf = pre @ t, rd_off = length pre\<rparr>"

lemma rd_new_at: "rd_new b = at_reader [] b"
  by (simp add: rd_new_def at_reader_def)

lemma rd_remaining_at [simp]: "rd_remaining (at_reader pre t) = int (length t)"
  by (simp add: rd_remaining_def at_reader_def)

lemma rd_take_at:
  "rd_take (int n) (at_reader pre t) =
     (if length t < n then Inl ErrTruncated
      else Inr (take n t, at_reader (pre @ take n t) (drop n t)))"
  by (auto simp: rd_take_def) (auto simp: at_reader_def)

lemma rd_take_prefix [simp]:
  "n = int (length b) \<Longrightarrow>
     rd_take n (at_reader pre (b @ t)) = Inr (b, at_reader (pre @ b) t)"
  by (simp add: rd_take_at)

lemma rd_take_iff:
  "rd_take (int n) (at_reader pre t) = Inr x \<longleftrightarrow>
     (\<exists>b t'. length b = n \<and> t = b @ t' \<and> x = (b, at_reader (pre @ b) t'))"
proof (cases "length t < n")
  case True
  then show ?thesis by (auto simp: rd_take_at)
next
  case False
  show ?thesis
  proof
    assume "rd_take (int n) (at_reader pre t) = Inr x"
    with False have "x = (take n t, at_reader (pre @ take n t) (drop n t))"
      by (simp add: rd_take_at)
    with False show "\<exists>b t'. length b = n \<and> t = b @ t' \<and> x = (b, at_reader (pre @ b) t')"
      by (intro exI [of _ "take n t"] exI [of _ "drop n t"]) simp
  qed (auto simp: rd_take_at)
qed

lemma rd_take_err: "rd_take n r = Inl e \<Longrightarrow> e = ErrTruncated"
  by (auto simp: rd_take_def split: if_splits)

section \<open>The contract of a fragment\<close>

locale codec =
  fixes put :: "'a \<Rightarrow> bytes"
    and get :: "reader \<Rightarrow> perror + ('a \<times> reader)"
    and ok :: "'a \<Rightarrow> bool"
  assumes get_put: "ok a \<Longrightarrow> get (at_reader pre (put a @ t)) = Inr (a, at_reader (pre @ put a) t)"
    and get_inv: "get (at_reader pre t) = Inr (a, r') \<Longrightarrow>
      ok a \<and> (\<exists>t'. t = put a @ t' \<and> r' = at_reader (pre @ put a) t')"
    and get_err: "get (at_reader pre t) = Inl e \<Longrightarrow> e = ErrTruncated"
begin

lemma get_iff:
  "get (at_reader pre t) = Inr x \<longleftrightarrow>
     (\<exists>a t'. ok a \<and> t = put a @ t' \<and> x = (a, at_reader (pre @ put a) t'))"
  using get_put get_inv by (cases x) blast

lemma prefix_free: "ok a \<Longrightarrow> ok b \<Longrightarrow> put a @ s = put b @ t \<Longrightarrow> a = b \<and> s = t"
  using get_put [of a "[]" s] get_put [of b "[]" t] by auto

lemma get_short:
  assumes "ok a" and "k < length (put a)"
  shows "get (at_reader pre (take k (put a))) = Inl ErrTruncated"
proof (cases "get (at_reader pre (take k (put a)))")
  case (Inl e)
  then show ?thesis using get_err by blast
next
  case (Inr x)
  obtain b r' where x: "x = (b, r')" by (cases x)
  with Inr obtain t' where b: "ok b" "take k (put a) = put b @ t'"
    using get_inv by blast
  have "put a @ [] = put b @ (t' @ drop k (put a))"
    using b(2) append_take_drop_id [of k "put a"] by simp
  from prefix_free [OF assms(1) b(1) this] assms(2) show ?thesis by simp
qed

end

section \<open>The fragments meet the contract\<close>

lemma word_codec:
  fixes get :: "reader \<Rightarrow> perror + ('a::len word \<times> reader)"
  assumes width: "LENGTH('a) = 8 * n"
    and get: "\<And>r. get r = bindE (rd_take (int n) r) (\<lambda>(b, r). Inr (word_of_nat (le_nat b), r))"
  shows "codec (\<lambda>v. le_bytes n (unat v)) get (\<lambda>_. True)"
proof
  fix a :: "'a word" and pre t
  show "get (at_reader pre (le_bytes n (unat a) @ t)) =
      Inr (a, at_reader (pre @ le_bytes n (unat a)) t)"
    by (simp add: get word_of_le_nat [OF width])
next
  fix pre t r' and a :: "'a word"
  assume "get (at_reader pre t) = Inr (a, r')"
  then obtain b t' where "length b = n" "t = b @ t'" "a = word_of_nat (le_nat b)"
      "r' = at_reader (pre @ b) t'"
    by (auto simp: get rd_take_iff)
  moreover from this have "le_bytes n (unat a) = b"
    using le_bytes_of_word [where 'a = 'a, of b] width by simp
  ultimately show "True \<and> (\<exists>t'. t = le_bytes n (unat a) @ t' \<and>
      r' = at_reader (pre @ le_bytes n (unat a)) t')"
    by auto
next
  fix pre t e
  assume "get (at_reader pre t) = Inl e"
  then show "e = ErrTruncated"
    by (auto simp: get bindE_eq_Inl dest: rd_take_err)
qed

interpretation u8: codec "\<lambda>v. put_u8 v" rd_u8 "\<lambda>_. True"
proof -
  have "rd_u8 r = bindE (rd_take (int 1) r) (\<lambda>(b, r). Inr (word_of_nat (le_nat b), r))" for r
    by (auto simp: rd_u8_def bindE_def rd_take_def take_Suc hd_drop_conv_nth
        rd_remaining_def split: sum.splits list.splits)
  then have "codec (\<lambda>v. le_bytes 1 (unat v)) rd_u8 (\<lambda>_. True)"
    by (intro word_codec) simp_all
  then show "codec (\<lambda>v. put_u8 v) rd_u8 (\<lambda>_. True)"
    by (simp add: w_u8_def)
qed

interpretation u16: codec "\<lambda>v. put_u16 v" rd_u16 "\<lambda>_. True"
  unfolding w_u16_def append_Nil by (rule word_codec) (simp_all add: rd_u16_def)

interpretation u32: codec "\<lambda>v. put_u32 v" rd_u32 "\<lambda>_. True"
  unfolding w_u32_def append_Nil by (rule word_codec) (simp_all add: rd_u32_def)

interpretation u64: codec "\<lambda>v. put_u64 v" rd_u64 "\<lambda>_. True"
  unfolding w_u64_def append_Nil by (rule word_codec) (simp_all add: rd_u64_def)

interpretation i64: codec "\<lambda>v. put_i64 v" rd_i64 "\<lambda>_. True"
  unfolding w_i64_def append_Nil by (rule word_codec) (simp_all add: rd_i64_def)

interpretation i32: codec "\<lambda>v. put_i32 v" rd_i32 "\<lambda>_. True"
  unfolding w_i32_def append_Nil by (rule word_codec) (simp_all add: rd_i32_def)

interpretation port: codec "\<lambda>v. put_port v" rd_port "\<lambda>_. True"
proof
  fix a :: u16 and pre t
  have "le_nat (le_bytes 2 (unat a)) = unat a"
    by (rule le_nat_le_bytes_unat) simp
  then show "rd_port (at_reader pre (put_port a @ t)) = Inr (a, at_reader (pre @ put_port a) t)"
    by (simp add: rd_port_def w_port_def)
next
  fix pre t r' and a :: u16
  assume "rd_port (at_reader pre t) = Inr (a, r')"
  then obtain b t' where "length b = 2" "t = b @ t'" "a = word_of_nat (le_nat (rev b))"
      "r' = at_reader (pre @ b) t'"
    unfolding rd_port_def bindE_eq_Inr rd_take_iff [of 2, simplified] by auto
  moreover from this have "le_bytes 2 (unat a) = rev b"
    using le_bytes_of_word [where 'a = 16, of "rev b"] by simp
  ultimately show "True \<and> (\<exists>t'. t = put_port a @ t' \<and> r' = at_reader (pre @ put_port a) t')"
    by (auto simp: w_port_def)
next
  fix pre t e
  assume "rd_port (at_reader pre t) = Inl e"
  then show "e = ErrTruncated"
    by (auto simp: rd_port_def bindE_eq_Inl dest: rd_take_err)
qed

text \<open>
  Strings carry their length in a prefix of fixed width, so a string is transmitted faithfully
  exactly when its length fits the prefix.
\<close>

definition str_ok :: "string \<Rightarrow> bool" where
  "str_ok s \<longleftrightarrow> length s < 65536"

definition str8_ok :: "string \<Rightarrow> bool" where
  "str8_ok s \<longleftrightarrow> length s < 256"

lemma uint_of_len:
  "n < 2 ^ LENGTH('a) \<Longrightarrow> uint (word_of_nat n :: 'a::len word) = int n"
  by (simp add: uint_nat unat_of_nat)

interpretation str: codec "\<lambda>s. put_str s" rd_str str_ok
proof
  fix a pre t
  assume "str_ok a"
  then have "uint (word_of_nat (length a) :: u16) = int (length (to_bytes a))"
    by (simp add: str_ok_def uint_of_len)
  then show "rd_str (at_reader pre (put_str a @ t)) = Inr (a, at_reader (pre @ put_str a) t)"
    by (simp add: rd_str_def w_str_def u16.get_put)
next
  fix pre t a r'
  assume "rd_str (at_reader pre t) = Inr (a, r')"
  then obtain n u b where n: "t = put_u16 n @ u"
      and "rd_take (uint n) (at_reader (pre @ put_u16 n) u) = Inr (b, r')" and a: "a = of_bytes b"
    by (auto simp: rd_str_def u16.get_iff)
  then have "rd_take (int (unat n)) (at_reader (pre @ put_u16 n) u) = Inr (b, r')"
    by simp
  then obtain t' where b: "length b = unat n" "u = b @ t'" "r' = at_reader (pre @ put_u16 n @ b) t'"
    unfolding rd_take_iff by auto
  have "unat n < 65536"
    using unsigned_less [of n, where ?'a = nat] by simp
  then have "str_ok a" "put_str a = put_u16 n @ b"
    by (simp_all add: str_ok_def a b w_str_def)
  then show "str_ok a \<and> (\<exists>t'. t = put_str a @ t' \<and> r' = at_reader (pre @ put_str a) t')"
    by (auto simp: n b)
next
  fix pre t e
  assume "rd_str (at_reader pre t) = Inl e"
  then show "e = ErrTruncated"
    by (auto simp: rd_str_def bindE_eq_Inl dest: rd_take_err u16.get_err)
qed

interpretation str8: codec "\<lambda>s. put_str8 s" rd_str8 str8_ok
proof
  fix a pre t
  assume "str8_ok a"
  then have "uint (word_of_nat (length a) :: u8) = int (length (to_bytes a))"
    by (simp add: str8_ok_def uint_of_len)
  then show "rd_str8 (at_reader pre (put_str8 a @ t)) = Inr (a, at_reader (pre @ put_str8 a) t)"
    by (simp add: rd_str8_def w_str8_def u8.get_put)
next
  fix pre t a r'
  assume "rd_str8 (at_reader pre t) = Inr (a, r')"
  then obtain n u b where n: "t = put_u8 n @ u"
      and "rd_take (uint n) (at_reader (pre @ put_u8 n) u) = Inr (b, r')" and a: "a = of_bytes b"
    by (auto simp: rd_str8_def u8.get_iff)
  then have "rd_take (int (unat n)) (at_reader (pre @ put_u8 n) u) = Inr (b, r')"
    by simp
  then obtain t' where b: "length b = unat n" "u = b @ t'" "r' = at_reader (pre @ put_u8 n @ b) t'"
    unfolding rd_take_iff by auto
  have "unat n < 256" by (rule u8_bound)
  then have "str8_ok a" "put_str8 a = put_u8 n @ b"
    by (simp_all add: str8_ok_def a b w_str8_def)
  then show "str8_ok a \<and> (\<exists>t'. t = put_str8 a @ t' \<and> r' = at_reader (pre @ put_str8 a) t')"
    by (auto simp: n b)
next
  fix pre t e
  assume "rd_str8 (at_reader pre t) = Inl e"
  then show "e = ErrTruncated"
    by (auto simp: rd_str8_def bindE_eq_Inl dest: rd_take_err u8.get_err)
qed

lemmas get_puts = u8.get_put u16.get_put u32.get_put u64.get_put i64.get_put i32.get_put
  port.get_put str.get_put str8.get_put
lemmas get_iffs = u8.get_iff u16.get_iff u32.get_iff u64.get_iff i64.get_iff i32.get_iff
  port.get_iff str.get_iff str8.get_iff

section \<open>The contract of a message\<close>

locale message_codec =
  fixes encode :: "'m \<Rightarrow> bytes"
    and parse :: "bytes \<Rightarrow> perror + 'm"
    and wf :: "'m \<Rightarrow> bool"
  assumes parse_encode: "wf m \<Longrightarrow> parse (encode m) = Inr m"
begin

lemma encode_inj: "wf a \<Longrightarrow> wf b \<Longrightarrow> encode a = encode b \<Longrightarrow> a = b"
  by (metis parse_encode sum.inject(2))

end

text \<open>
  A parser that only accepts well-formed messages: what is parsed can be sent on, and is read
  back unchanged.
\<close>

locale normal_codec = message_codec +
  assumes parse_wf: "parse b = Inr m \<Longrightarrow> wf m"
begin

lemma reencode: "parse b = Inr m \<Longrightarrow> parse (encode m) = Inr m"
  by (rule parse_encode) (rule parse_wf)

end

text \<open>
  A message that carries all its lengths also tolerates trailing bytes, is the only encoding of
  what is parsed from it, and is therefore rejected when cut short.
\<close>

locale prefix_codec = message_codec +
  assumes parse_append: "wf m \<Longrightarrow> parse (encode m @ t) = Inr m"
    and parse_inv: "parse b = Inr m \<Longrightarrow> wf m \<and> (\<exists>t. b = encode m @ t)"
begin

lemma encode_prefix_free: "wf a \<Longrightarrow> wf b \<Longrightarrow> encode a @ s = encode b @ t \<Longrightarrow> a = b \<and> s = t"
  by (metis parse_append sum.inject(2) same_append_eq)

lemma parse_iff: "parse b = Inr m \<longleftrightarrow> wf m \<and> (\<exists>t. b = encode m @ t)"
  using parse_append parse_inv by blast

lemma parse_cut:
  assumes "wf m" and "k < length (encode m)"
  shows "is_err (parse (take k (encode m)))"
proof (cases "parse (take k (encode m))")
  case (Inr m')
  then obtain t where m': "wf m'" "take k (encode m) = encode m' @ t"
    using parse_inv by blast
  then have "encode m @ [] = encode m' @ (t @ drop k (encode m))"
    using append_take_drop_id [of k "encode m"] by simp
  from encode_prefix_free [OF assms(1) m'(1) this] assms(2) show ?thesis by simp
qed simp

end

lemma prefix_codecI:
  fixes encode :: "'m \<Rightarrow> bytes"
  assumes "\<And>m t. ok m \<Longrightarrow> parse (encode m @ t) = Inr m"
    and "\<And>b m. parse b = Inr m \<Longrightarrow> ok m \<and> (\<exists>t. b = encode m @ t)"
  shows "prefix_codec encode parse ok"
proof
  fix m assume "ok m"
  then show "parse (encode m) = Inr m" using assms(1) [of m "[]"] by simp
qed (use assms in blast)+

sublocale prefix_codec \<subseteq> normal_codec
  by unfold_locales (use parse_inv in blast)

end
