(* ===== verification/Consts.thy ===== *)
theory Consts
  imports Prelude
begin

text \<open>
  The named constants of internal/protocol/const.go: data types, verdict kinds, modification
  and web response kinds, and the layout and magic values of the shared-memory ring. Go's
  \<open>iota\<close> blocks over \<open>uint16\<close> and \<open>uint8\<close> do not restrict the values of the type (a parser
  stores whatever it reads), so a \<open>DataType\<close> or a \<open>ServiceVerdict\<close> is the word itself.
\<close>

section \<open>Data types of a frame\<close>

type_synonym DataType = u16

definition DataTypeRequestStart :: DataType where [go_consts]: "DataTypeRequestStart = 0"
definition DataTypeRequestHeader :: DataType where [go_consts]: "DataTypeRequestHeader = 1"
definition DataTypeRequestBody :: DataType where [go_consts]: "DataTypeRequestBody = 2"
definition DataTypeRequestEnd :: DataType where [go_consts]: "DataTypeRequestEnd = 3"
definition DataTypeResponseCode :: DataType where [go_consts]: "DataTypeResponseCode = 4"
definition DataTypeResponseHeader :: DataType where [go_consts]: "DataTypeResponseHeader = 5"
definition DataTypeResponseBody :: DataType where [go_consts]: "DataTypeResponseBody = 6"
definition DataTypeResponseEnd :: DataType where [go_consts]: "DataTypeResponseEnd = 7"
definition DataTypeContentLength :: DataType where [go_consts]: "DataTypeContentLength = 8"
definition DataTypeMetricDataFromPlugin :: DataType where [go_consts]: "DataTypeMetricDataFromPlugin = 9"
definition DataTypeRequestDelayedVerdict :: DataType where
  [go_consts]: "DataTypeRequestDelayedVerdict = 10"
definition DataTypeCount :: DataType where [go_consts]: "DataTypeCount = 11"

section \<open>Verdict kinds\<close>

type_synonym ServiceVerdict = u16

definition VerdictInspect :: ServiceVerdict where [go_consts]: "VerdictInspect = 0"
definition VerdictAccept :: ServiceVerdict where [go_consts]: "VerdictAccept = 1"
definition VerdictDrop :: ServiceVerdict where [go_consts]: "VerdictDrop = 2"
definition VerdictInject :: ServiceVerdict where [go_consts]: "VerdictInject = 3"
definition VerdictIrrelevant :: ServiceVerdict where [go_consts]: "VerdictIrrelevant = 4"
definition VerdictReconf :: ServiceVerdict where [go_consts]: "VerdictReconf = 5"
definition VerdictDelayed :: ServiceVerdict where [go_consts]: "VerdictDelayed = 6"
definition VerdictLimitResponseHeaders :: ServiceVerdict where
  [go_consts]: "VerdictLimitResponseHeaders = 7"
definition VerdictCustomResponse :: ServiceVerdict where
  [go_consts]: "VerdictCustomResponse = 8"

section \<open>Modifications and web responses\<close>

type_synonym ModificationType = u8

definition ModAppend :: ModificationType where [go_consts]: "ModAppend = 0"
definition ModInject :: ModificationType where [go_consts]: "ModInject = 1"
definition ModReplace :: ModificationType where [go_consts]: "ModReplace = 2"

type_synonym WebResponseType = u8

definition WebResponseCustom :: WebResponseType where [go_consts]: "WebResponseCustom = 0"
definition WebResponseBlockPage :: WebResponseType where [go_consts]: "WebResponseBlockPage = 1"
definition WebResponseCodeOnly :: WebResponseType where [go_consts]: "WebResponseCodeOnly = 2"
definition WebResponseRedirect :: WebResponseType where [go_consts]: "WebResponseRedirect = 3"
definition WebResponseWithHeaders :: WebResponseType where
  [go_consts]: "WebResponseWithHeaders = 4"
definition WebResponseNone :: WebResponseType where [go_consts]: "WebResponseNone = 5"

definition CorruptedSessionID :: u32 where [go_consts]: "CorruptedSessionID = 0"

definition InjectPosIrrelevant :: "64 word" where [go_consts]: "InjectPosIrrelevant = - 1"

section \<open>Shared-memory ring layout\<close>

text \<open>Untyped constants, used as byte offsets and sizes.\<close>

definition SharedMemSegmentSize :: nat where [go_consts]: "SharedMemSegmentSize = 4096"
definition SharedMemSegmentSizeBC :: nat where [go_consts]: "SharedMemSegmentSizeBC = 1024"
definition SharedMemQueueNameLen :: nat where [go_consts]: "SharedMemQueueNameLen = 64"
definition SharedQueueNameOffset :: nat where [go_consts]: "SharedQueueNameOffset = 0"
definition SharedQueueOwnerFDOffset :: nat where [go_consts]: "SharedQueueOwnerFDOffset = 64"
definition SharedQueueUserFDOffset :: nat where [go_consts]: "SharedQueueUserFDOffset = 68"
definition SharedQueueSizeOffset :: nat where [go_consts]: "SharedQueueSizeOffset = 72"
definition SharedQueueWritePosOffset :: nat where [go_consts]: "SharedQueueWritePosOffset = 76"
definition SharedQueueReadPosOffset :: nat where [go_consts]: "SharedQueueReadPosOffset = 78"
definition SharedQueueNumSegOffset :: nat where [go_consts]: "SharedQueueNumSegOffset = 80"
definition SharedQueueMgmtOffset :: nat where [go_consts]: "SharedQueueMgmtOffset = 82"

definition SharedQueueDataOffset :: nat where
  [go_consts]: "SharedQueueDataOffset = SharedQueueMgmtOffset + SharedMemSegmentSize"

definition MagicEmptySegment :: u16 where [go_consts]: "MagicEmptySegment = 0xfffe"
definition MagicSkipSegment :: u16 where [go_consts]: "MagicSkipSegment = 0xfffd"
definition MaxWriteSize :: u32 where [go_consts]: "MaxWriteSize = 0xfffc"
definition MaxDataSegments :: u16 where [go_consts]: "MaxDataSegments = 2048"

end
