(* ===== verification/Frames.thy ===== *)
theory Frames
  imports Wire Consts
begin

text \<open>
  The messages of internal/protocol/handshake.go, request.go and simple.go: one record, one
  \<open>Encode\<close> and one \<open>Parse\<close> per message, each an interpretation of the message contracts of
  theory Wire. Field names carry a short prefix per message, because HOL record fields share
  one name space; otherwise they are the source's.
\<close>

section \<open>Handshake frames (handshake.go)\<close>

record Registration =
  reg_AttachmentType :: u8
  reg_WorkerID :: u8
  reg_WorkersAmount :: u8
  reg_FamilyName :: string

definition Registration_Encode :: "Registration \<Rightarrow> bytes" where
  "Registration_Encode m = emit [
     w_u8 (reg_AttachmentType m),
     w_u8 (reg_WorkerID m),
     w_u8 (reg_WorkersAmount m),
     w_str8 (reg_FamilyName m)]"

definition ParseRegistration :: "bytes \<Rightarrow> perror + Registration" where
  "ParseRegistration b =
     bindE (rd_u8 (rd_new b)) (\<lambda>(t, r).
     bindE (rd_u8 r) (\<lambda>(i, r).
     bindE (rd_u8 r) (\<lambda>(n, r).
     bindE (rd_str8 r) (\<lambda>(f, r).
     Inr \<lparr>reg_AttachmentType = t, reg_WorkerID = i, reg_WorkersAmount = n,
          reg_FamilyName = f\<rparr>))))"

record RegistrationReply =
  rr_Path :: string

definition RegistrationReply_Encode :: "RegistrationReply \<Rightarrow> bytes" where
  "RegistrationReply_Encode m = emit [w_str8 (rr_Path m)]"

definition ParseRegistrationReply :: "bytes \<Rightarrow> perror + RegistrationReply" where
  "ParseRegistrationReply b =
     bindE (rd_str8 (rd_new b)) (\<lambda>(path, r). Inr \<lparr>rr_Path = path\<rparr>)"

record CommData =
  cd_UID :: string
  cd_UserID :: u32
  cd_GroupID :: u32
  cd_TargetCore :: "32 word"

definition CommData_Encode :: "CommData \<Rightarrow> bytes" where
  "CommData_Encode m = emit [
     w_str8 (cd_UID m),
     w_u32 (cd_UserID m),
     w_u32 (cd_GroupID m),
     w_i32 (cd_TargetCore m)]"

definition ParseCommData :: "bytes \<Rightarrow> perror + CommData" where
  "ParseCommData b =
     bindE (rd_str8 (rd_new b)) (\<lambda>(u, r).
     bindE (rd_u32 r) (\<lambda>(i, r).
     bindE (rd_u32 r) (\<lambda>(g, r).
     bindE (rd_i32 r) (\<lambda>(c, r).
     Inr \<lparr>cd_UID = u, cd_UserID = i, cd_GroupID = g, cd_TargetCore = c\<rparr>))))"

record Ack =
  ack_Value :: u8

definition Ack_Encode :: "Ack \<Rightarrow> bytes" where
  "Ack_Encode m = [ack_Value m]"

definition ParseAck :: "bytes \<Rightarrow> perror + Ack" where
  "ParseAck b = bindE (rd_u8 (rd_new b)) (\<lambda>(v, r). Inr \<lparr>ack_Value = v\<rparr>)"

section \<open>REQUEST_START (request.go)\<close>

record RequestStart =
  rs_SessionID :: u32
  rs_HTTPProtocol :: string
  rs_Method :: string
  rs_Host :: string
  rs_ListeningIP :: string
  rs_ListeningPort :: u16
  rs_UnparsedURI :: string
  rs_ClientIP :: string
  rs_ClientPort :: u16
  rs_ParsedHost :: string
  rs_ParsedURI :: string
  rs_WAFTag :: string

definition RequestStart_Encode :: "RequestStart \<Rightarrow> bytes" where
  "RequestStart_Encode m = emit [
     w_u16 DataTypeRequestStart,
     w_u32 (rs_SessionID m),
     w_str (rs_HTTPProtocol m),
     w_str (rs_Method m),
     w_str (rs_Host m),
     w_str (rs_ListeningIP m),
     w_port (rs_ListeningPort m),
     w_str (rs_UnparsedURI m),
     w_str (rs_ClientIP m),
     w_port (rs_ClientPort m),
     w_str (rs_ParsedHost m),
     w_str (rs_ParsedURI m),
     w_str (rs_WAFTag m)]"

definition ParseRequestStart :: "bytes \<Rightarrow> perror + RequestStart" where
  "ParseRequestStart b =
     bindE (rd_u16 (rd_new b)) (\<lambda>(dt, r).
     if dt \<noteq> DataTypeRequestStart then Inl (ErrDataType dt) else
     bindE (rd_u32 r) (\<lambda>(sid, r).
     bindE (rd_str r) (\<lambda>(proto, r).
     bindE (rd_str r) (\<lambda>(meth, r).
     bindE (rd_str r) (\<lambda>(host, r).
     bindE (rd_str r) (\<lambda>(lip, r).
     bindE (rd_port r) (\<lambda>(lport, r).
     bindE (rd_str r) (\<lambda>(uri, r).
     bindE (rd_str r) (\<lambda>(cip, r).
     bindE (rd_port r) (\<lambda>(cport, r).
     bindE (rd_str r) (\<lambda>(phost, r).
     bindE (rd_str r) (\<lambda>(puri, r).
     bindE (rd_str r) (\<lambda>(tag, r).
     Inr \<lparr>rs_SessionID = sid, rs_HTTPProtocol = proto, rs_Method = meth, rs_Host = host,
          rs_ListeningIP = lip, rs_ListeningPort = lport, rs_UnparsedURI = uri,
          rs_ClientIP = cip, rs_ClientPort = cport, rs_ParsedHost = phost,
          rs_ParsedURI = puri, rs_WAFTag = tag\<rparr>)))))))))))))"

section \<open>Fixed-size frames (simple.go)\<close>

record RequestEnd =
  re_DataType :: DataType
  re_SessionID :: u32

definition RequestEnd_Encode :: "RequestEnd \<Rightarrow> bytes" where
  "RequestEnd_Encode m = emit [w_u16 (re_DataType m), w_u32 (re_SessionID m)]"

definition ParseRequestEnd :: "bytes \<Rightarrow> perror + RequestEnd" where
  "ParseRequestEnd b =
     bindE (rd_u16 (rd_new b)) (\<lambda>(dt, r).
     if dt \<noteq> DataTypeRequestEnd \<and> dt \<noteq> DataTypeResponseEnd then Inl (ErrDataType dt) else
     bindE (rd_u32 r) (\<lambda>(sid, r).
     Inr \<lparr>re_DataType = dt, re_SessionID = sid\<rparr>))"

record ResponseCode =
  rc_SessionID :: u32
  rc_Code :: u16

definition ResponseCode_Encode :: "ResponseCode \<Rightarrow> bytes" where
  "ResponseCode_Encode m = emit [
     w_u16 DataTypeResponseCode, w_u32 (rc_SessionID m), w_u16 (rc_Code m)]"

definition ParseResponseCode :: "bytes \<Rightarrow> perror + ResponseCode" where
  "ParseResponseCode b =
     bindE (rd_u16 (rd_new b)) (\<lambda>(dt, r).
     if dt \<noteq> DataTypeResponseCode then Inl (ErrDataType dt) else
     bindE (rd_u32 r) (\<lambda>(sid, r).
     bindE (rd_u16 r) (\<lambda>(code, r).
     Inr \<lparr>rc_SessionID = sid, rc_Code = code\<rparr>)))"

record ContentLength =
  cl_SessionID :: u32
  cl_Length :: u64

definition ContentLength_Encode :: "ContentLength \<Rightarrow> bytes" where
  "ContentLength_Encode m = emit [
     w_u16 DataTypeContentLength, w_u32 (cl_SessionID m), w_u64 (cl_Length m)]"

definition ParseContentLength :: "bytes \<Rightarrow> perror + ContentLength" where
  "ParseContentLength b =
     bindE (rd_u16 (rd_new b)) (\<lambda>(dt, r).
     if dt \<noteq> DataTypeContentLength then Inl (ErrDataType dt) else
     bindE (rd_u32 r) (\<lambda>(sid, r).
     bindE (rd_u64 r) (\<lambda>(len, r).
     Inr \<lparr>cl_SessionID = sid, cl_Length = len\<rparr>)))"

record DelayedVerdict =
  dv_SessionID :: u32

definition DelayedVerdict_Encode :: "DelayedVerdict \<Rightarrow> bytes" where
  "DelayedVerdict_Encode m = emit [w_u16 DataTypeRequestDelayedVerdict, w_u32 (dv_SessionID m)]"

definition ParseDelayedVerdict :: "bytes \<Rightarrow> perror + DelayedVerdict" where
  "ParseDelayedVerdict b =
     bindE (rd_u16 (rd_new b)) (\<lambda>(dt, r).
     if dt \<noteq> DataTypeRequestDelayedVerdict then Inl (ErrDataType dt) else
     bindE (rd_u32 r) (\<lambda>(sid, r).
     Inr \<lparr>dv_SessionID = sid\<rparr>))"

record KeepAlive =
  ka_WorkerID :: u8
  ka_FamilyName :: string

definition KeepAlive_Encode :: "KeepAlive \<Rightarrow> bytes" where
  "KeepAlive_Encode k = emit [w_u8 (ka_WorkerID k), w_str8 (ka_FamilyName k)]"

definition ParseKeepAlive :: "bytes \<Rightarrow> perror + KeepAlive" where
  "ParseKeepAlive b =
     bindE (rd_u8 (rd_new b)) (\<lambda>(i, r).
     bindE (rd_str8 r) (\<lambda>(n, r).
     Inr \<lparr>ka_WorkerID = i, ka_FamilyName = n\<rparr>))"

section \<open>Header bulks and body chunks (simple.go)\<close>

record Header =
  hd_Key :: string
  hd_Value :: string

record HeaderBulk =
  hb_DataType :: DataType
  hb_SessionID :: u32
  hb_IsLastPart :: bool
  hb_BulkPartIndex :: u8
  hb_Headers :: "Header list"

definition HeaderBulk_Encode :: "HeaderBulk \<Rightarrow> bytes" where
  "HeaderBulk_Encode m = emit ([
     w_u16 (hb_DataType m),
     w_u32 (hb_SessionID m),
     (if hb_IsLastPart m then w_u8 1 else w_u8 0),
     w_u8 (hb_BulkPartIndex m)]
     @ concat (map (\<lambda>h. [w_str (hd_Key h), w_str (hd_Value h)]) (hb_Headers m)))"

lemma rd_take_remaining:
  "rd_take n r = Inr (b, r') \<Longrightarrow> 0 \<le> n \<and> rd_remaining r' = rd_remaining r - n"
  by (auto simp: rd_take_def rd_remaining_def split: if_splits)

lemma rd_u16_remaining:
  "rd_u16 r = Inr (v, r') \<Longrightarrow> rd_remaining r' = rd_remaining r - 2"
  by (auto simp: rd_u16_def dest: rd_take_remaining)

lemma rd_str_remaining:
  "rd_str r = Inr (s, r') \<Longrightarrow> rd_remaining r' \<le> rd_remaining r - 2"
  by (auto simp: rd_str_def dest!: rd_take_remaining rd_u16_remaining)

text \<open>The loop \<open>for r.remaining() > 0\<close>; every round consumes at least the two length prefixes.\<close>

function rd_headers :: "reader \<Rightarrow> perror + (Header list \<times> reader)" where
  "rd_headers r =
     (if rd_remaining r > 0 then
        bindE (rd_str r) (\<lambda>(k, r1).
        bindE (rd_str r1) (\<lambda>(v, r2).
        bindE (rd_headers r2) (\<lambda>(hs, r3).
        Inr (\<lparr>hd_Key = k, hd_Value = v\<rparr> # hs, r3))))
      else Inr ([], r))"
  by pat_completeness auto
termination
  by (relation "measure (\<lambda>r. nat (rd_remaining r))") (auto dest!: rd_str_remaining)

declare rd_headers.simps [simp del]

definition ParseHeaderBulk :: "bytes \<Rightarrow> perror + HeaderBulk" where
  "ParseHeaderBulk b =
     bindE (rd_u16 (rd_new b)) (\<lambda>(dt, r).
     if dt \<noteq> DataTypeRequestHeader \<and> dt \<noteq> DataTypeResponseHeader then Inl (ErrDataType dt) else
     bindE (rd_u32 r) (\<lambda>(sid, r).
     bindE (rd_u8 r) (\<lambda>(last, r).
     bindE (rd_u8 r) (\<lambda>(part, r).
     bindE (rd_headers r) (\<lambda>(hs, r).
     Inr \<lparr>hb_DataType = dt, hb_SessionID = sid, hb_IsLastPart = (last \<noteq> 0),
          hb_BulkPartIndex = part, hb_Headers = hs\<rparr>)))))"

record BodyChunk =
  bc_DataType :: DataType
  bc_SessionID :: u32
  bc_IsLastChunk :: bool
  bc_PartCount :: u8
  bc_Data :: bytes

definition BodyChunk_Encode :: "BodyChunk \<Rightarrow> bytes" where
  "BodyChunk_Encode m = emit [
     w_u16 (bc_DataType m),
     w_u32 (bc_SessionID m),
     (if bc_IsLastChunk m then w_u8 1 else w_u8 0),
     w_u8 (bc_PartCount m),
     w_bytes (bc_Data m)]"

definition ParseBodyChunk :: "bytes \<Rightarrow> perror + BodyChunk" where
  "ParseBodyChunk b =
     bindE (rd_u16 (rd_new b)) (\<lambda>(dt, r).
     if dt \<noteq> DataTypeRequestBody \<and> dt \<noteq> DataTypeResponseBody then Inl (ErrDataType dt) else
     bindE (rd_u32 r) (\<lambda>(sid, r).
     bindE (rd_u8 r) (\<lambda>(last, r).
     bindE (rd_u8 r) (\<lambda>(part, r).
     bindE (rd_take (rd_remaining r) r) (\<lambda>(d, r).
     Inr \<lparr>bc_DataType = dt, bc_SessionID = sid, bc_IsLastChunk = (last \<noteq> 0),
          bc_PartCount = part, bc_Data = d\<rparr>)))))"

section \<open>The frames meet the message contracts\<close>

definition Registration_wf :: "Registration \<Rightarrow> bool" where
  "Registration_wf m \<longleftrightarrow> str8_ok (reg_FamilyName m)"

definition RegistrationReply_wf :: "RegistrationReply \<Rightarrow> bool" where
  "RegistrationReply_wf m \<longleftrightarrow> str8_ok (rr_Path m)"

definition CommData_wf :: "CommData \<Rightarrow> bool" where
  "CommData_wf m \<longleftrightarrow> str8_ok (cd_UID m)"

definition KeepAlive_wf :: "KeepAlive \<Rightarrow> bool" where
  "KeepAlive_wf m \<longleftrightarrow> str8_ok (ka_FamilyName m)"

definition RequestStart_wf :: "RequestStart \<Rightarrow> bool" where
  "RequestStart_wf m \<longleftrightarrow>
     str_ok (rs_HTTPProtocol m) \<and> str_ok (rs_Method m) \<and> str_ok (rs_Host m) \<and>
     str_ok (rs_ListeningIP m) \<and> str_ok (rs_UnparsedURI m) \<and> str_ok (rs_ClientIP m) \<and>
     str_ok (rs_ParsedHost m) \<and> str_ok (rs_ParsedURI m) \<and> str_ok (rs_WAFTag m)"

definition RequestEnd_wf :: "RequestEnd \<Rightarrow> bool" where
  "RequestEnd_wf m \<longleftrightarrow> re_DataType m = DataTypeRequestEnd \<or> re_DataType m = DataTypeResponseEnd"

definition Header_wf :: "Header \<Rightarrow> bool" where
  "Header_wf h \<longleftrightarrow> str_ok (hd_Key h) \<and> str_ok (hd_Value h)"

definition HeaderBulk_wf :: "HeaderBulk \<Rightarrow> bool" where
  "HeaderBulk_wf m \<longleftrightarrow>
     (hb_DataType m = DataTypeRequestHeader \<or> hb_DataType m = DataTypeResponseHeader) \<and>
     list_all Header_wf (hb_Headers m)"

definition BodyChunk_wf :: "BodyChunk \<Rightarrow> bool" where
  "BodyChunk_wf m \<longleftrightarrow>
     bc_DataType m = DataTypeRequestBody \<or> bc_DataType m = DataTypeResponseBody"

lemmas frame_parse_simps = emit_simps rd_new_at get_puts

text \<open>
  Each \<open>Encode\<close> is the concatenation of its fragments, so the readers' equations of theory Wire
  run the parser on it (\<open>frame_parse_simps\<close>), and their inversions (\<open>frame_inv_simps\<close>) read a
  successful parse backwards.
\<close>

lemmas frame_inv_simps = rd_new_at get_iffs bindE_eq_Inr

lemma Registration_Encode_append:
  "Registration_Encode m @ t =
     put_u8 (reg_AttachmentType m) @ put_u8 (reg_WorkerID m) @
     put_u8 (reg_WorkersAmount m) @ put_str8 (reg_FamilyName m) @ t"
  by (simp add: Registration_Encode_def emit_simps)

interpretation registration: prefix_codec Registration_Encode ParseRegistration Registration_wf
proof (rule prefix_codecI)
  fix m t
  assume "Registration_wf m"
  then show "ParseRegistration (Registration_Encode m @ t) = Inr m"
    unfolding Registration_Encode_append
    by (cases m) (auto simp: ParseRegistration_def Registration_wf_def frame_parse_simps)
next
  fix b m
  assume "ParseRegistration b = Inr m"
  then show "Registration_wf m \<and> (\<exists>t. b = Registration_Encode m @ t)"
    unfolding Registration_Encode_append
    by (auto simp: ParseRegistration_def Registration_wf_def frame_inv_simps split: if_splits)
qed

lemma RegistrationReply_Encode_append:
  "RegistrationReply_Encode m @ t =
     put_str8 (rr_Path m) @ t"
  by (simp add: RegistrationReply_Encode_def emit_simps)

interpretation registration_reply: prefix_codec RegistrationReply_Encode ParseRegistrationReply RegistrationReply_wf
proof (rule prefix_codecI)
  fix m t
  assume "RegistrationReply_wf m"
  then show "ParseRegistrationReply (RegistrationReply_Encode m @ t) = Inr m"
    unfolding RegistrationReply_Encode_append
    by (cases m) (auto simp: ParseRegistrationReply_def RegistrationReply_wf_def frame_parse_simps)
next
  fix b m
  assume "ParseRegistrationReply b = Inr m"
  then show "RegistrationReply_wf m \<and> (\<exists>t. b = RegistrationReply_Encode m @ t)"
    unfolding RegistrationReply_Encode_append
    by (auto simp: ParseRegistrationReply_def RegistrationReply_wf_def frame_inv_simps split: if_splits)
qed

lemma CommData_Encode_append:
  "CommData_Encode m @ t =
     put_str8 (cd_UID m) @ put_u32 (cd_UserID m) @ put_u32 (cd_GroupID m) @
     put_i32 (cd_TargetCore m) @ t"
  by (simp add: CommData_Encode_def emit_simps)

interpretation comm_data: prefix_codec CommData_Encode ParseCommData CommData_wf
proof (rule prefix_codecI)
  fix m t
  assume "CommData_wf m"
  then show "ParseCommData (CommData_Encode m @ t) = Inr m"
    unfolding CommData_Encode_append
    by (cases m) (auto simp: ParseCommData_def CommData_wf_def frame_parse_simps)
next
  fix b m
  assume "ParseCommData b = Inr m"
  then show "CommData_wf m \<and> (\<exists>t. b = CommData_Encode m @ t)"
    unfolding CommData_Encode_append
    by (auto simp: ParseCommData_def CommData_wf_def frame_inv_simps split: if_splits)
qed

lemma KeepAlive_Encode_append:
  "KeepAlive_Encode m @ t =
     put_u8 (ka_WorkerID m) @ put_str8 (ka_FamilyName m) @ t"
  by (simp add: KeepAlive_Encode_def emit_simps)

interpretation keep_alive: prefix_codec KeepAlive_Encode ParseKeepAlive KeepAlive_wf
proof (rule prefix_codecI)
  fix m t
  assume "KeepAlive_wf m"
  then show "ParseKeepAlive (KeepAlive_Encode m @ t) = Inr m"
    unfolding KeepAlive_Encode_append
    by (cases m) (auto simp: ParseKeepAlive_def KeepAlive_wf_def frame_parse_simps)
next
  fix b m
  assume "ParseKeepAlive b = Inr m"
  then show "KeepAlive_wf m \<and> (\<exists>t. b = KeepAlive_Encode m @ t)"
    unfolding KeepAlive_Encode_append
    by (auto simp: ParseKeepAlive_def KeepAlive_wf_def frame_inv_simps split: if_splits)
qed

lemma RequestStart_Encode_append:
  "RequestStart_Encode m @ t =
     put_u16 DataTypeRequestStart @ put_u32 (rs_SessionID m) @
     put_str (rs_HTTPProtocol m) @ put_str (rs_Method m) @ put_str (rs_Host m) @
     put_str (rs_ListeningIP m) @ put_port (rs_ListeningPort m) @
     put_str (rs_UnparsedURI m) @ put_str (rs_ClientIP m) @ put_port (rs_ClientPort m) @
     put_str (rs_ParsedHost m) @ put_str (rs_ParsedURI m) @ put_str (rs_WAFTag m) @ t"
  by (simp add: RequestStart_Encode_def emit_simps)

interpretation request_start: prefix_codec RequestStart_Encode ParseRequestStart RequestStart_wf
proof (rule prefix_codecI)
  fix m t
  assume "RequestStart_wf m"
  then show "ParseRequestStart (RequestStart_Encode m @ t) = Inr m"
    unfolding RequestStart_Encode_append
    by (cases m) (auto simp: ParseRequestStart_def RequestStart_wf_def frame_parse_simps)
next
  fix b m
  assume "ParseRequestStart b = Inr m"
  then show "RequestStart_wf m \<and> (\<exists>t. b = RequestStart_Encode m @ t)"
    unfolding RequestStart_Encode_append
    by (auto simp: ParseRequestStart_def RequestStart_wf_def frame_inv_simps split: if_splits)
qed

lemma RequestEnd_Encode_append:
  "RequestEnd_Encode m @ t =
     put_u16 (re_DataType m) @ put_u32 (re_SessionID m) @ t"
  by (simp add: RequestEnd_Encode_def emit_simps)

interpretation request_end: prefix_codec RequestEnd_Encode ParseRequestEnd RequestEnd_wf
proof (rule prefix_codecI)
  fix m t
  assume "RequestEnd_wf m"
  then show "ParseRequestEnd (RequestEnd_Encode m @ t) = Inr m"
    unfolding RequestEnd_Encode_append
    by (cases m) (auto simp: ParseRequestEnd_def RequestEnd_wf_def frame_parse_simps)
next
  fix b m
  assume "ParseRequestEnd b = Inr m"
  then show "RequestEnd_wf m \<and> (\<exists>t. b = RequestEnd_Encode m @ t)"
    unfolding RequestEnd_Encode_append
    by (auto simp: ParseRequestEnd_def RequestEnd_wf_def frame_inv_simps split: if_splits)
qed

lemma ResponseCode_Encode_append:
  "ResponseCode_Encode m @ t =
     put_u16 DataTypeResponseCode @ put_u32 (rc_SessionID m) @ put_u16 (rc_Code m) @ t"
  by (simp add: ResponseCode_Encode_def emit_simps)

interpretation response_code: prefix_codec ResponseCode_Encode ParseResponseCode "\<lambda>_. True"
proof (rule prefix_codecI)
  fix m t
  show "ParseResponseCode (ResponseCode_Encode m @ t) = Inr m"
    unfolding ResponseCode_Encode_append
    by (cases m) (auto simp: ParseResponseCode_def frame_parse_simps)
next
  fix b m
  assume "ParseResponseCode b = Inr m"
  then show "True \<and> (\<exists>t. b = ResponseCode_Encode m @ t)"
    unfolding ResponseCode_Encode_append
    by (auto simp: ParseResponseCode_def frame_inv_simps split: if_splits)
qed

lemma ContentLength_Encode_append:
  "ContentLength_Encode m @ t =
     put_u16 DataTypeContentLength @ put_u32 (cl_SessionID m) @ put_u64 (cl_Length m) @ t"
  by (simp add: ContentLength_Encode_def emit_simps)

interpretation content_length: prefix_codec ContentLength_Encode ParseContentLength "\<lambda>_. True"
proof (rule prefix_codecI)
  fix m t
  show "ParseContentLength (ContentLength_Encode m @ t) = Inr m"
    unfolding ContentLength_Encode_append
    by (cases m) (auto simp: ParseContentLength_def frame_parse_simps)
next
  fix b m
  assume "ParseContentLength b = Inr m"
  then show "True \<and> (\<exists>t. b = ContentLength_Encode m @ t)"
    unfolding ContentLength_Encode_append
    by (auto simp: ParseContentLength_def frame_inv_simps split: if_splits)
qed

lemma DelayedVerdict_Encode_append:
  "DelayedVerdict_Encode m @ t =
     put_u16 DataTypeRequestDelayedVerdict @ put_u32 (dv_SessionID m) @ t"
  by (simp add: DelayedVerdict_Encode_def emit_simps)

interpretation delayed_verdict: prefix_codec DelayedVerdict_Encode ParseDelayedVerdict "\<lambda>_. True"
proof (rule prefix_codecI)
  fix m t
  show "ParseDelayedVerdict (DelayedVerdict_Encode m @ t) = Inr m"
    unfolding DelayedVerdict_Encode_append
    by (cases m) (auto simp: ParseDelayedVerdict_def frame_parse_simps)
next
  fix b m
  assume "ParseDelayedVerdict b = Inr m"
  then show "True \<and> (\<exists>t. b = DelayedVerdict_Encode m @ t)"
    unfolding DelayedVerdict_Encode_append
    by (auto simp: ParseDelayedVerdict_def frame_inv_simps split: if_splits)
qed

interpretation ack: prefix_codec Ack_Encode ParseAck "\<lambda>_. True"
proof (rule prefix_codecI)
  fix m t
  show "ParseAck (Ack_Encode m @ t) = Inr m"
    using u8.get_put [OF TrueI, of "[]" "ack_Value m" t]
    by (simp add: ParseAck_def Ack_Encode_def rd_new_at w_u8_def)
next
  fix b m
  assume "ParseAck b = Inr m"
  then show "True \<and> (\<exists>t. b = Ack_Encode m @ t)"
    by (auto simp: ParseAck_def Ack_Encode_def frame_inv_simps w_u8_def)
qed

subsection \<open>Header bulks\<close>

definition put_header :: "Header \<Rightarrow> bytes" where
  "put_header h = put_str (hd_Key h) @ put_str (hd_Value h)"

lemma appends_headers:
  "list_all appends (concat (map (\<lambda>h. [w_str (hd_Key h), w_str (hd_Value h)]) hs))"
  by (induction hs) simp_all

lemma emit_headers:
  "emit (concat (map (\<lambda>h. [w_str (hd_Key h), w_str (hd_Value h)]) hs)) =
     concat (map put_header hs)"
  by (induction hs) (simp_all add: emit_Cons appends_headers put_header_def)

lemma HeaderBulk_Encode_eq:
  "HeaderBulk_Encode m =
     put_u16 (hb_DataType m) @ put_u32 (hb_SessionID m) @
     put_u8 (if hb_IsLastPart m then 1 else 0) @ put_u8 (hb_BulkPartIndex m) @
     concat (map put_header (hb_Headers m))"
  by (simp add: HeaderBulk_Encode_def emit_Cons appends_headers emit_headers)

lemma rd_headers_put:
  "list_all Header_wf hs \<Longrightarrow>
     rd_headers (at_reader pre (concat (map put_header hs))) =
       Inr (hs, at_reader (pre @ concat (map put_header hs)) [])"
proof (induction hs arbitrary: pre)
  case Nil
  then show ?case by (subst rd_headers.simps) simp
next
  case (Cons h hs)
  have h: "put_header h = put_str (hd_Key h) @ put_str (hd_Value h)"
    and ok: "str_ok (hd_Key h)" "str_ok (hd_Value h)"
    using Cons.prems by (simp_all add: put_header_def Header_wf_def)
  have "rd_headers (at_reader p (concat (map put_header hs))) =
      Inr (hs, at_reader (p @ concat (map put_header hs)) [])" for p
    using Cons by simp
  then show ?case
    by (subst rd_headers.simps) (simp add: h ok str.get_put)
qed

lemma rd_headers_wf:
  "rd_headers r = Inr (hs, r') \<Longrightarrow> r = at_reader pre t \<Longrightarrow> list_all Header_wf hs"
proof (induction r arbitrary: hs r' pre t rule: rd_headers.induct)
  case (1 r)
  show ?case
  proof (cases "rd_remaining r > 0")
    case False
    with "1.prems"(1) show ?thesis by (auto simp: rd_headers.simps [of r])
  next
    case True
    with "1.prems"(1) obtain k v r1 r2 hs' r3 where k: "rd_str r = Inr (k, r1)"
        and v: "rd_str r1 = Inr (v, r2)" and hs': "rd_headers r2 = Inr (hs', r3)"
        and hs: "hs = \<lparr>hd_Key = k, hd_Value = v\<rparr> # hs'"
      by (auto simp: rd_headers.simps [of r])
    from k "1.prems" obtain t1 where ok1: "str_ok k" "r1 = at_reader (pre @ put_str k) t1"
      by (auto simp: str.get_iff)
    with v obtain t2 where ok2: "str_ok v" "r2 = at_reader (pre @ put_str k @ put_str v) t2"
      by (auto simp: str.get_iff)
    have "list_all Header_wf hs'"
      using "1.IH" [OF True k _ v _ hs' ok2(2)] by simp
    moreover have "Header_wf \<lparr>hd_Key = k, hd_Value = v\<rparr>"
      by (simp add: Header_wf_def ok1 ok2)
    ultimately show ?thesis by (simp add: hs)
  qed
qed

interpretation header_bulk: normal_codec HeaderBulk_Encode ParseHeaderBulk HeaderBulk_wf
proof
  fix m
  assume "HeaderBulk_wf m"
  then show "ParseHeaderBulk (HeaderBulk_Encode m) = Inr m"
    unfolding HeaderBulk_Encode_eq
    by (cases m) (auto simp: ParseHeaderBulk_def HeaderBulk_wf_def frame_parse_simps rd_headers_put)
next
  fix b m
  assume "ParseHeaderBulk b = Inr m"
  then obtain pre t hs r' where "rd_headers (at_reader pre t) = Inr (hs, r')" "hs = hb_Headers m"
      and "hb_DataType m = DataTypeRequestHeader \<or> hb_DataType m = DataTypeResponseHeader"
    by (auto simp: ParseHeaderBulk_def frame_inv_simps split: if_splits)
  then show "HeaderBulk_wf m"
    using rd_headers_wf by (auto simp: HeaderBulk_wf_def)
qed

subsection \<open>Body chunks\<close>

lemma BodyChunk_Encode_eq:
  "BodyChunk_Encode m =
     put_u16 (bc_DataType m) @ put_u32 (bc_SessionID m) @
     put_u8 (if bc_IsLastChunk m then 1 else 0) @ put_u8 (bc_PartCount m) @ bc_Data m"
  by (simp add: BodyChunk_Encode_def emit_simps)

lemma length_BodyChunk_Encode: "length (BodyChunk_Encode m) = 8 + length (bc_Data m)"
  by (simp add: BodyChunk_Encode_eq)

lemma rd_take_all: "rd_take (int (length t)) (at_reader pre t) = Inr (t, at_reader (pre @ t) [])"
  using rd_take_prefix [of "int (length t)" t pre "[]"] by simp

interpretation body_chunk: normal_codec BodyChunk_Encode ParseBodyChunk BodyChunk_wf
proof
  fix m
  assume "BodyChunk_wf m"
  then show "ParseBodyChunk (BodyChunk_Encode m) = Inr m"
    unfolding BodyChunk_Encode_eq
    by (cases m) (auto simp: ParseBodyChunk_def BodyChunk_wf_def frame_parse_simps rd_take_all)
next
  fix b m
  assume "ParseBodyChunk b = Inr m"
  then show "BodyChunk_wf m"
    by (auto simp: ParseBodyChunk_def BodyChunk_wf_def frame_inv_simps split: if_splits)
qed

end
