(* ===== verification/Verdict.thy ===== *)
theory Verdict
  imports Frames
begin

text \<open>
  Engine replies: internal/protocol/verdict.go and verdict_parse.go. \<open>Verdict_Encode\<close> may
  panic, because a DROP or CUSTOM_RESPONSE verdict without a web response dereferences a nil
  pointer; the panic is the \<open>Inl\<close> of its result.
\<close>

datatype panic = NilDereference

section \<open>Data\<close>

record WebResponse =
  wr_Type :: WebResponseType
  wr_StatusCode :: u16
  wr_Title :: string
  wr_Body :: string
  wr_UUID :: string
  wr_RedirectLocation :: string
  wr_Headers :: "Header list"

record Injection =
  inj_InjectionPos :: "64 word"
  inj_ModType :: ModificationType
  inj_InjectionSize :: u16
  inj_IsHeader :: bool
  inj_OrigBufferIndex :: u8
  inj_Data :: bytes

record Verdict =
  vd_Kind :: ServiceVerdict
  vd_SessionID :: u32
  vd_WebResponse :: "WebResponse option"
  vd_Injections :: "Injection list"

definition empty_web_response :: "WebResponseType \<Rightarrow> WebResponse" where
  "empty_web_response t = \<lparr>wr_Type = t, wr_StatusCode = 0, wr_Title = '''', wr_Body = '''',
     wr_UUID = '''', wr_RedirectLocation = '''', wr_Headers = []\<rparr>"

section \<open>Parsing\<close>

definition parseInjection :: "reader \<Rightarrow> perror + (Injection \<times> reader)" where
  "parseInjection r =
     bindE (rd_i64 r) (\<lambda>(pos, r).
     bindE (rd_u32 r) (\<lambda>(modType, r).
     bindE (rd_u16 r) (\<lambda>(sz, r).
     bindE (rd_u8 r) (\<lambda>(isHeader, r).
     bindE (rd_u8 r) (\<lambda>(origIdx, r).
     bindE (rd_take (uint sz) r) (\<lambda>(d, r).
     Inr (\<lparr>inj_InjectionPos = pos, inj_ModType = ucast modType, inj_InjectionSize = sz,
           inj_IsHeader = (isHeader \<noteq> 0), inj_OrigBufferIndex = origIdx, inj_Data = d\<rparr>, r)))))))"

text \<open>The loop \<open>for i := 0; i < int(count); i++\<close> over the injections of an INJECT verdict.\<close>

fun parseInjections :: "nat \<Rightarrow> reader \<Rightarrow> perror + (Injection list \<times> reader)" where
  "parseInjections 0 r = Inr ([], r)"
| "parseInjections (Suc n) r =
     bindE (parseInjection r) (\<lambda>(ij, r).
     bindE (parseInjections n r) (\<lambda>(injs, r).
     Inr (ij # injs, r)))"

definition parseWebResponse :: "reader \<Rightarrow> perror + (WebResponse \<times> reader)" where
  "parseWebResponse r =
     bindE (rd_u8 r) (\<lambda>(typ, r).
     bindE (rd_u8 r) (\<lambda>(uuidSize, r).
     if typ \<in> {WebResponseCustom, WebResponseBlockPage, WebResponseCodeOnly} then
       bindE (rd_u16 r) (\<lambda>(code, r).
       bindE (rd_u8 r) (\<lambda>(titleSize, r).
       bindE (rd_u8 r) (\<lambda>(bodySize, r).
       bindE (rd_take (uint titleSize) r) (\<lambda>(title, r).
       bindE (rd_take (uint bodySize) r) (\<lambda>(body, r).
       bindE (rd_take (uint uuidSize) r) (\<lambda>(uuid, r).
       Inr ((empty_web_response typ)\<lparr>wr_StatusCode := code, wr_Title := of_bytes title,
              wr_Body := of_bytes body, wr_UUID := of_bytes uuid\<rparr>, r)))))))
     else if typ = WebResponseRedirect then
       bindE (rd_u8 r) (\<lambda>(_, r).
       bindE (rd_u8 r) (\<lambda>(_, r).
       bindE (rd_u16 r) (\<lambda>(locSize, r).
       bindE (rd_take (uint locSize) r) (\<lambda>(loc, r).
       bindE (rd_take (uint uuidSize) r) (\<lambda>(uuid, r).
       Inr ((empty_web_response typ)\<lparr>wr_RedirectLocation := of_bytes loc,
              wr_UUID := of_bytes uuid\<rparr>, r))))))
     else Inl (ErrWebResponseType typ)))"

fun parseResponseHeaders :: "nat \<Rightarrow> reader \<Rightarrow> perror + (Header list \<times> reader)" where
  "parseResponseHeaders 0 r = Inr ([], r)"
| "parseResponseHeaders (Suc n) r =
     bindE (rd_u16 r) (\<lambda>(keySize, r).
     bindE (rd_u16 r) (\<lambda>(valSize, r).
     bindE (rd_take (uint keySize) r) (\<lambda>(key, r).
     bindE (rd_take (uint valSize) r) (\<lambda>(val, r).
     bindE (parseResponseHeaders n r) (\<lambda>(hs, r).
     Inr (\<lparr>hd_Key = of_bytes key, hd_Value = of_bytes val\<rparr> # hs, r))))))"

definition parseCustomResponse :: "reader \<Rightarrow> perror + (WebResponse \<times> reader)" where
  "parseCustomResponse r =
     bindE (rd_u16 r) (\<lambda>(code, r).
     bindE (rd_u16 r) (\<lambda>(bodySize, r).
     bindE (rd_u8 r) (\<lambda>(headersCount, r).
     bindE (parseResponseHeaders (unat headersCount) r) (\<lambda>(hs, r).
     bindE (rd_take (uint bodySize) r) (\<lambda>(body, r).
     Inr ((empty_web_response WebResponseWithHeaders)\<lparr>wr_StatusCode := code, wr_Headers := hs,
            wr_Body := of_bytes body\<rparr>, r))))))"

definition ParseVerdict :: "bytes \<Rightarrow> perror + Verdict" where
  "ParseVerdict b =
     bindE (rd_u16 (rd_new b)) (\<lambda>(kind, r).
     bindE (rd_u32 r) (\<lambda>(sid, r).
     bindE (rd_u8 r) (\<lambda>(count, r).
     let v = \<lparr>vd_Kind = kind, vd_SessionID = sid, vd_WebResponse = None, vd_Injections = []\<rparr> in
     if kind = VerdictInject then
       bindE (parseInjections (unat count) r) (\<lambda>(injs, r). Inr (v\<lparr>vd_Injections := injs\<rparr>))
     else if kind = VerdictDrop then
       bindE (parseWebResponse r) (\<lambda>(wr, r). Inr (v\<lparr>vd_WebResponse := Some wr\<rparr>))
     else if kind = VerdictCustomResponse then
       bindE (parseCustomResponse r) (\<lambda>(wr, r). Inr (v\<lparr>vd_WebResponse := Some wr\<rparr>))
     else Inr v)))"

section \<open>Encoding\<close>

definition encodeWebResponse :: "WebResponse \<Rightarrow> (wire \<Rightarrow> wire) list" where
  "encodeWebResponse wr =
     [w_u8 (wr_Type wr), w_u8 (word_of_nat (length (wr_UUID wr)))] @
     (if wr_Type wr \<in> {WebResponseCustom, WebResponseBlockPage, WebResponseCodeOnly} then
        [w_u16 (wr_StatusCode wr),
         w_u8 (word_of_nat (length (wr_Title wr))),
         w_u8 (word_of_nat (length (wr_Body wr))),
         w_bytes (to_bytes (wr_Title wr)),
         w_bytes (to_bytes (wr_Body wr)),
         w_bytes (to_bytes (wr_UUID wr))]
      else if wr_Type wr = WebResponseRedirect then
        [w_u8 0,
         w_u8 0,
         w_u16 (word_of_nat (length (wr_RedirectLocation wr))),
         w_bytes (to_bytes (wr_RedirectLocation wr)),
         w_bytes (to_bytes (wr_UUID wr))]
      else [])"

definition encodeResponseHeader :: "Header \<Rightarrow> (wire \<Rightarrow> wire) list" where
  "encodeResponseHeader h =
     [w_u16 (word_of_nat (length (hd_Key h))),
      w_u16 (word_of_nat (length (hd_Value h))),
      w_bytes (to_bytes (hd_Key h)),
      w_bytes (to_bytes (hd_Value h))]"

definition encodeCustomResponse :: "WebResponse \<Rightarrow> (wire \<Rightarrow> wire) list" where
  "encodeCustomResponse wr =
     [w_u16 (wr_StatusCode wr),
      w_u16 (word_of_nat (length (wr_Body wr))),
      w_u8 (word_of_nat (length (wr_Headers wr)))] @
     concat (map encodeResponseHeader (wr_Headers wr)) @
     [w_bytes (to_bytes (wr_Body wr))]"

definition encodeInjection :: "Injection \<Rightarrow> (wire \<Rightarrow> wire) list" where
  "encodeInjection ij =
     [w_i64 (inj_InjectionPos ij),
      w_u32 (ucast (inj_ModType ij)),
      w_u16 (word_of_nat (length (inj_Data ij))),
      (if inj_IsHeader ij then w_u8 1 else w_u8 0),
      w_u8 (inj_OrigBufferIndex ij),
      w_bytes (inj_Data ij)]"

definition Verdict_Encode :: "Verdict \<Rightarrow> panic + bytes" where
  "Verdict_Encode v =
     (let hdr = [w_u16 (vd_Kind v), w_u32 (vd_SessionID v)] in
      if vd_Kind v = VerdictInject then
        Inr (emit (hdr @ [w_u8 (word_of_nat (length (vd_Injections v)))]
          @ concat (map encodeInjection (vd_Injections v))))
      else if vd_Kind v = VerdictDrop then
        (case vd_WebResponse v of
           None \<Rightarrow> Inl NilDereference
         | Some wr \<Rightarrow> Inr (emit (hdr @ [w_u8 1] @ encodeWebResponse wr)))
      else if vd_Kind v = VerdictCustomResponse then
        (case vd_WebResponse v of
           None \<Rightarrow> Inl NilDereference
         | Some wr \<Rightarrow> Inr (emit (hdr @ [w_u8 1] @ encodeCustomResponse wr)))
      else Inr (emit (hdr @ [w_u8 0])))"

section \<open>Well-formed verdicts\<close>

text \<open>
  What a verdict must satisfy for the frame to carry it: every variable-length part fits the
  width of its length field, and only the parts the kind and the response type carry are set.
\<close>

definition Injection_wf :: "Injection \<Rightarrow> bool" where
  "Injection_wf i \<longleftrightarrow>
     length (inj_Data i) < 65536 \<and> inj_InjectionSize i = word_of_nat (length (inj_Data i))"

definition drop_response_wf :: "WebResponse \<Rightarrow> bool" where
  "drop_response_wf wr \<longleftrightarrow> length (wr_UUID wr) < 256 \<and> wr_Headers wr = [] \<and>
     (wr_Type wr \<in> {WebResponseCustom, WebResponseBlockPage, WebResponseCodeOnly} \<and>
        length (wr_Title wr) < 256 \<and> length (wr_Body wr) < 256 \<and> wr_RedirectLocation wr = []
      \<or> wr_Type wr = WebResponseRedirect \<and> length (wr_RedirectLocation wr) < 65536 \<and>
        wr_StatusCode wr = 0 \<and> wr_Title wr = [] \<and> wr_Body wr = [])"

definition custom_response_wf :: "WebResponse \<Rightarrow> bool" where
  "custom_response_wf wr \<longleftrightarrow>
     wr_Type wr = WebResponseWithHeaders \<and> length (wr_Body wr) < 65536 \<and>
     length (wr_Headers wr) < 256 \<and> list_all Header_wf (wr_Headers wr) \<and>
     wr_Title wr = [] \<and> wr_UUID wr = [] \<and> wr_RedirectLocation wr = []"

definition Verdict_wf :: "Verdict \<Rightarrow> bool" where
  "Verdict_wf v \<longleftrightarrow>
     (if vd_Kind v = VerdictInject then
        vd_WebResponse v = None \<and> length (vd_Injections v) < 256 \<and>
        list_all Injection_wf (vd_Injections v)
      else vd_Injections v = [] \<and>
        (if vd_Kind v = VerdictDrop then \<exists>wr. vd_WebResponse v = Some wr \<and> drop_response_wf wr
         else if vd_Kind v = VerdictCustomResponse then
           \<exists>wr. vd_WebResponse v = Some wr \<and> custom_response_wf wr
         else vd_WebResponse v = None))"

text \<open>The frame of a verdict that encodes without panic.\<close>

definition verdict_frame :: "Verdict \<Rightarrow> bytes" where
  "verdict_frame v = (case Verdict_Encode v of Inl _ \<Rightarrow> [] | Inr b \<Rightarrow> b)"

lemma Verdict_wf_no_panic: "Verdict_wf v \<Longrightarrow> Verdict_Encode v = Inr (verdict_frame v)"
  by (auto simp: Verdict_wf_def verdict_frame_def Verdict_Encode_def Let_def
      split: sum.splits option.splits if_splits)

section \<open>Round trip\<close>

lemma uint_length_u8: "n < 256 \<Longrightarrow> uint (word_of_nat n :: u8) = int n"
  by (simp add: uint_of_len)

lemma uint_length_u16: "n < 65536 \<Longrightarrow> uint (word_of_nat n :: u16) = int n"
  by (simp add: uint_of_len)

lemma unat_length_u8: "n < 256 \<Longrightarrow> unat (word_of_nat n :: u8) = n"
  by (simp add: unat_of_nat)

lemma ucast_u8_u32: "(ucast (ucast (m :: u8) :: u32) :: u8) = m"
  by (rule ucast_up_ucast_id) (simp add: is_up)

lemma rd_take_uint_u8:
  "rd_take (uint (n :: u8)) (at_reader pre t) = Inr x \<longleftrightarrow>
     (\<exists>b t'. length b = unat n \<and> t = b @ t' \<and> x = (b, at_reader (pre @ b) t'))"
  using rd_take_iff [of "unat n" pre t x] by simp

lemma rd_take_uint_u16:
  "rd_take (uint (n :: u16)) (at_reader pre t) = Inr x \<longleftrightarrow>
     (\<exists>b t'. length b = unat n \<and> t = b @ t' \<and> x = (b, at_reader (pre @ b) t'))"
  using rd_take_iff [of "unat n" pre t x] by simp

lemmas rd_take_uint = rd_take_uint_u8 rd_take_uint_u16

subsection \<open>Injections\<close>

lemma emit_append:
  "list_all appends fs \<Longrightarrow> list_all appends gs \<Longrightarrow> emit (fs @ gs) = emit fs @ emit gs"
  by (induction fs) (simp_all add: emit_Cons)

definition put_injection :: "Injection \<Rightarrow> bytes" where
  "put_injection i =
     put_i64 (inj_InjectionPos i) @ put_u32 (ucast (inj_ModType i)) @
     put_u16 (word_of_nat (length (inj_Data i))) @ put_u8 (if inj_IsHeader i then 1 else 0) @
     put_u8 (inj_OrigBufferIndex i) @ inj_Data i"

lemma appends_injections: "list_all appends (concat (map encodeInjection is))"
  by (induction "is") (simp_all add: encodeInjection_def)

lemma emit_injection: "emit (encodeInjection i) = put_injection i"
  by (simp add: encodeInjection_def put_injection_def emit_simps)

lemma emit_injections: "emit (concat (map encodeInjection is)) = concat (map put_injection is)"
proof (induction "is")
  case (Cons i "is")
  have "list_all appends (encodeInjection i)" by (simp add: encodeInjection_def)
  with Cons show ?case by (simp add: emit_append appends_injections emit_injection)
qed simp

lemma parseInjection_put:
  "Injection_wf i \<Longrightarrow>
     parseInjection (at_reader pre (put_injection i @ t)) = Inr (i, at_reader (pre @ put_injection i) t)"
  by (cases i) (auto simp: parseInjection_def put_injection_def Injection_wf_def get_puts
      uint_length_u16 ucast_u8_u32)

lemma parseInjections_put:
  "list_all Injection_wf is \<Longrightarrow>
     parseInjections (length is) (at_reader pre (concat (map put_injection is) @ t)) =
       Inr (is, at_reader (pre @ concat (map put_injection is)) t)"
  by (induction "is" arbitrary: pre) (simp_all add: parseInjection_put)

lemma at_reader_ex [simp]: "\<exists>p u. at_reader a b = at_reader p u"
  by blast

lemma parseInjection_wf:
  "parseInjection (at_reader pre t) = Inr (i, r') \<Longrightarrow>
     Injection_wf i \<and> (\<exists>p u. r' = at_reader p u)"
  by (auto simp: parseInjection_def bindE_eq_Inr get_iffs rd_take_uint Injection_wf_def u16_bound)

lemma parseInjections_wf:
  "parseInjections n (at_reader pre t) = Inr (is, r') \<Longrightarrow> length is = n \<and> list_all Injection_wf is"
  by (induction n arbitrary: pre t "is" r') (fastforce simp: bindE_eq_Inr dest: parseInjection_wf)+

subsection \<open>Web responses\<close>

lemma appends_web_response: "list_all appends (encodeWebResponse wr)"
  by (simp add: encodeWebResponse_def)

definition put_web_response :: "WebResponse \<Rightarrow> bytes" where
  "put_web_response wr = emit (encodeWebResponse wr)"

lemma parseWebResponse_put:
  "drop_response_wf wr \<Longrightarrow>
     parseWebResponse (at_reader pre (put_web_response wr @ t)) =
       Inr (wr, at_reader (pre @ put_web_response wr) t)"
  by (cases wr) (auto simp: parseWebResponse_def put_web_response_def encodeWebResponse_def
      drop_response_wf_def empty_web_response_def emit_simps get_puts uint_length_u8
      uint_length_u16 go_consts)

lemma parseWebResponse_wf:
  "parseWebResponse (at_reader pre t) = Inr (wr, r') \<Longrightarrow> drop_response_wf wr"
  by (auto simp: parseWebResponse_def bindE_eq_Inr get_iffs rd_take_uint drop_response_wf_def
      empty_web_response_def go_consts u8_bound u16_bound split: if_splits)

definition put_response_header :: "Header \<Rightarrow> bytes" where
  "put_response_header h = emit (encodeResponseHeader h)"

lemma appends_response_headers: "list_all appends (concat (map encodeResponseHeader hs))"
  by (induction hs) (simp_all add: encodeResponseHeader_def)

lemma emit_response_headers:
  "emit (concat (map encodeResponseHeader hs)) = concat (map put_response_header hs)"
proof (induction hs)
  case (Cons h hs)
  have "list_all appends (encodeResponseHeader h)" by (simp add: encodeResponseHeader_def)
  with Cons show ?case
    by (simp add: emit_append appends_response_headers put_response_header_def)
qed simp

lemma parseResponseHeaders_put:
  "list_all Header_wf hs \<Longrightarrow>
     parseResponseHeaders (length hs) (at_reader pre (concat (map put_response_header hs) @ t)) =
       Inr (hs, at_reader (pre @ concat (map put_response_header hs)) t)"
proof (induction hs arbitrary: pre)
  case (Cons h hs)
  have "put_response_header h = put_u16 (word_of_nat (length (hd_Key h))) @
      put_u16 (word_of_nat (length (hd_Value h))) @ to_bytes (hd_Key h) @ to_bytes (hd_Value h)"
    by (simp add: put_response_header_def encodeResponseHeader_def emit_simps)
  moreover have "length (hd_Key h) < 65536" "length (hd_Value h) < 65536"
    using Cons.prems by (simp_all add: Header_wf_def str_ok_def)
  moreover have "parseResponseHeaders (length hs)
      (at_reader p (concat (map put_response_header hs) @ t)) =
      Inr (hs, at_reader (p @ concat (map put_response_header hs)) t)" for p
    using Cons by simp
  ultimately show ?case by (simp add: get_puts uint_length_u16)
qed simp

lemma parseResponseHeaders_wf:
  "parseResponseHeaders n (at_reader pre t) = Inr (hs, r') \<Longrightarrow>
     length hs = n \<and> list_all Header_wf hs \<and> (\<exists>p u. r' = at_reader p u)"
proof (induction n arbitrary: pre t hs r')
  case (Suc n)
  then obtain k v hs' p u where "parseResponseHeaders n (at_reader p u) = Inr (hs', r')"
      and hs: "hs = \<lparr>hd_Key = of_bytes k, hd_Value = of_bytes v\<rparr> # hs'"
      and "length k < 65536" "length v < 65536"
    by (auto simp: bindE_eq_Inr get_iffs rd_take_uint u16_bound)
  moreover have "Header_wf \<lparr>hd_Key = of_bytes k, hd_Value = of_bytes v\<rparr>"
    by (simp add: Header_wf_def str_ok_def calculation)
  ultimately show ?case using Suc.IH by auto
qed auto

definition put_custom_response :: "WebResponse \<Rightarrow> bytes" where
  "put_custom_response wr = emit (encodeCustomResponse wr)"

lemma appends_custom_response: "list_all appends (encodeCustomResponse wr)"
  by (simp add: encodeCustomResponse_def appends_response_headers)

lemma put_custom_response_eq:
  "put_custom_response wr =
     put_u16 (wr_StatusCode wr) @ put_u16 (word_of_nat (length (wr_Body wr))) @
     put_u8 (word_of_nat (length (wr_Headers wr))) @
     concat (map put_response_header (wr_Headers wr)) @ to_bytes (wr_Body wr)"
  by (simp add: put_custom_response_def encodeCustomResponse_def emit_Cons emit_append
      appends_response_headers emit_response_headers)

lemma parseCustomResponse_put:
  "custom_response_wf wr \<Longrightarrow>
     parseCustomResponse (at_reader pre (put_custom_response wr @ t)) =
       Inr (wr, at_reader (pre @ put_custom_response wr) t)"
  unfolding put_custom_response_eq
  by (cases wr) (auto simp: parseCustomResponse_def custom_response_wf_def empty_web_response_def
      get_puts unat_length_u8 uint_length_u16 parseResponseHeaders_put)

lemma parseCustomResponse_wf:
  "parseCustomResponse (at_reader pre t) = Inr (wr, r') \<Longrightarrow> custom_response_wf wr"
  by (auto simp: parseCustomResponse_def bindE_eq_Inr get_iffs rd_take_uint custom_response_wf_def
      empty_web_response_def u8_bound u16_bound dest!: parseResponseHeaders_wf)

subsection \<open>Verdicts\<close>

lemma verdict_frame_eq:
  assumes "Verdict_wf v"
  shows "verdict_frame v = put_u16 (vd_Kind v) @ put_u32 (vd_SessionID v) @
    (if vd_Kind v = VerdictInject then
       put_u8 (word_of_nat (length (vd_Injections v))) @ concat (map put_injection (vd_Injections v))
     else if vd_Kind v = VerdictDrop then put_u8 1 @ put_web_response (the (vd_WebResponse v))
     else if vd_Kind v = VerdictCustomResponse then
       put_u8 1 @ put_custom_response (the (vd_WebResponse v))
     else put_u8 0)"
  using assms
  by (auto simp: verdict_frame_def Verdict_Encode_def Let_def Verdict_wf_def emit_Cons
      appends_injections emit_injections appends_web_response put_web_response_def
      appends_custom_response put_custom_response_def split: if_splits)

lemmas verdict_part_puts =
  u8.get_put [OF TrueI, where t = "[]", unfolded append_Nil2]
  parseInjections_put [where t = "[]", unfolded append_Nil2]
  parseWebResponse_put [where t = "[]", unfolded append_Nil2]
  parseCustomResponse_put [where t = "[]", unfolded append_Nil2]

interpretation verdict: normal_codec verdict_frame ParseVerdict Verdict_wf
proof
  fix v
  assume wf: "Verdict_wf v"
  then show "ParseVerdict (verdict_frame v) = Inr v"
    unfolding verdict_frame_eq [OF wf]
    by (cases v) (auto simp: ParseVerdict_def Let_def Verdict_wf_def frame_parse_simps
        unat_length_u8 verdict_part_puts split: if_splits)
next
  fix b v
  assume "ParseVerdict b = Inr v"
  then show "Verdict_wf v"
    by (auto simp: ParseVerdict_def Let_def Verdict_wf_def frame_inv_simps u8_bound
        split: if_splits dest: parseInjections_wf parseWebResponse_wf parseCustomResponse_wf)
qed

end
