(* ===== verification/Session.thy ===== *)
theory Session
  imports Consts
begin

text \<open>
  The session id allocator of internal/protocol/session.go, and the ids that are in use while
  a history of \<open>Allocate\<close> and \<open>Reclaim\<close> calls runs.
\<close>

section \<open>The allocator\<close>

record SessionAllocator =
  sa_next :: u32

definition NewSessionAllocator :: SessionAllocator where
  "NewSessionAllocator = \<lparr>sa_next = 3\<rparr>"

definition Allocate :: "SessionAllocator \<Rightarrow> u32 \<times> SessionAllocator" where
  "Allocate a = (let sid = sa_next a in (sid, a\<lparr>sa_next := sa_next a + 2\<rparr>))"

definition Reclaim :: "u32 \<Rightarrow> SessionAllocator \<Rightarrow> SessionAllocator" where
  "Reclaim sid a = (if sid + 2 = sa_next a then a\<lparr>sa_next := sid\<rparr> else a)"

text \<open>Reclaiming what was just allocated undoes the allocation.\<close>

lemma Reclaim_Allocate: "Reclaim (fst (Allocate a)) (snd (Allocate a)) = a"
  by (simp add: Allocate_def Reclaim_def Let_def)

lemma odd_unat_plus_2: "odd (unat (w + 2 :: u32)) \<longleftrightarrow> odd (unat w)"
proof -
  have "even ((unat w + 2) mod 2 ^ 32) \<longleftrightarrow> even (unat w + 2)"
    by (rule dvd_mod_iff) simp
  then show ?thesis by (simp add: unat_word_ariths)
qed

lemma Allocate_odd:
  "odd (unat (sa_next a)) \<Longrightarrow> odd (unat (fst (Allocate a))) \<and> odd (unat (sa_next (snd (Allocate a))))"
  by (simp add: Allocate_def Let_def odd_unat_plus_2)

lemma Reclaim_odd:
  "odd (unat (sa_next a)) \<Longrightarrow> odd (unat (sa_next (Reclaim sid a)))"
  using odd_unat_plus_2 [of sid] by (auto simp: Reclaim_def)

section \<open>Sessions in flight\<close>

text \<open>
  A history of the allocator's callers: \<open>Open\<close> is an \<open>Allocate\<close> whose id becomes active,
  \<open>Finish i\<close> the single \<open>Reclaim\<close> of an active id (the callers of the app layer reclaim an id
  exactly once, on an error path or in \<open>EndRequest\<close>).
\<close>

datatype session_event = Open | Finish u32

record sessions =
  ss_alloc :: SessionAllocator
  ss_active :: "u32 list"
  ss_opened :: nat

definition sessions_init :: sessions where
  "sessions_init = \<lparr>ss_alloc = NewSessionAllocator, ss_active = [], ss_opened = 0\<rparr>"

inductive session_step :: "sessions \<Rightarrow> session_event \<Rightarrow> sessions \<Rightarrow> bool" where
  allocate: "Allocate (ss_alloc s) = (sid, a) \<Longrightarrow>
    session_step s Open (s\<lparr>ss_alloc := a, ss_active := sid # ss_active s,
      ss_opened := Suc (ss_opened s)\<rparr>)"
| reclaim: "sid \<in> set (ss_active s) \<Longrightarrow>
    session_step s (Finish sid) (s\<lparr>ss_alloc := Reclaim sid (ss_alloc s),
      ss_active := remove1 sid (ss_active s)\<rparr>)"

inductive_cases session_openE: "session_step s Open s'"
inductive_cases session_finishE: "session_step s (Finish sid) s'"

inductive session_run :: "sessions \<Rightarrow> session_event list \<Rightarrow> sessions \<Rightarrow> bool" where
  none: "session_run s [] s"
| more: "session_run s es s' \<Longrightarrow> session_step s' e s'' \<Longrightarrow> session_run s (es @ [e]) s''"

text \<open>
  The ids stay odd and below the next id, and are pairwise distinct, as long as the 32-bit
  counter has not wrapped. \<open>ss_opened\<close> bounds the counter from above.
\<close>

definition session_inv :: "sessions \<Rightarrow> bool" where
  "session_inv s \<longleftrightarrow>
     odd (unat (sa_next (ss_alloc s))) \<and>
     3 \<le> unat (sa_next (ss_alloc s)) \<and>
     unat (sa_next (ss_alloc s)) \<le> 3 + 2 * ss_opened s \<and>
     distinct (ss_active s) \<and>
     (\<forall>i \<in> set (ss_active s). odd (unat i) \<and> 3 \<le> unat i \<and> unat i < unat (sa_next (ss_alloc s)))"

lemma session_inv_init: "session_inv sessions_init"
  by (simp add: session_inv_def sessions_init_def NewSessionAllocator_def)

lemma session_open_inv:
  assumes step: "session_step s Open s'" and inv: "session_inv s"
    and room: "ss_opened s' < 2 ^ 31 - 2"
  shows "session_inv s'"
proof -
  let ?n = "sa_next (ss_alloc s)"
  from step have s': "s' = s\<lparr>ss_alloc := \<lparr>sa_next = ?n + 2\<rparr>, ss_active := ?n # ss_active s,
      ss_opened := Suc (ss_opened s)\<rparr>"
    by (elim session_openE) (auto simp: Allocate_def Let_def)
  with room have "unat ?n + 2 < 2 ^ 32"
    using inv by (simp add: session_inv_def)
  then have "unat (?n + 2) = unat ?n + 2"
    by (simp add: unat_word_ariths)
  with inv show ?thesis
    by (auto simp: session_inv_def s')
qed

lemma session_finish_inv:
  assumes step: "session_step s (Finish sid) s'" and inv: "session_inv s"
  shows "session_inv s'"
proof -
  let ?n = "sa_next (ss_alloc s)"
  from step have sid: "sid \<in> set (ss_active s)"
    and s': "s' = s\<lparr>ss_alloc := Reclaim sid (ss_alloc s), ss_active := remove1 sid (ss_active s)\<rparr>"
    by (auto elim: session_finishE)
  show ?thesis
  proof (cases "sid + 2 = ?n")
    case False
    with inv show ?thesis
      by (auto simp: session_inv_def s' Reclaim_def dest: notin_set_remove1)
  next
    case True
    have oddid: "odd (unat sid)" "3 \<le> unat sid" "unat sid < unat ?n"
      using inv sid by (auto simp: session_inv_def)
    have "unat ?n < 2 ^ 32" using unsigned_less [of ?n, where ?'a = nat] by simp
    have n: "unat ?n = unat sid + 2"
    proof -
      have "unat ?n = (unat sid + 2) mod 2 ^ 32"
        using True [symmetric] by (simp add: unat_word_ariths)
      moreover have "unat sid < 2 ^ 32"
        using unsigned_less [of sid, where ?'a = nat] by simp
      ultimately show ?thesis using oddid(2,3) by (simp add: mod_if split: if_splits)
    qed
    have "unat i < unat sid" if "i \<in> set (ss_active s)" "i \<noteq> sid" for i
    proof -
      have "odd (unat i)" "unat i < unat sid + 2" using inv that n by (auto simp: session_inv_def)
      moreover have "unat i \<noteq> unat sid" using that(2) by (simp add: word_unat_eq_iff)
      ultimately show ?thesis using oddid(1) by presburger
    qed
    moreover have "set (remove1 sid (ss_active s)) = set (ss_active s) - {sid}"
      using inv by (simp add: session_inv_def)
    ultimately show ?thesis
      using inv oddid n True by (auto simp: session_inv_def s' Reclaim_def)
  qed
qed

lemma session_step_opened:
  "session_step s e s' \<Longrightarrow> ss_opened s \<le> ss_opened s'"
  by (induction rule: session_step.induct) auto

lemma session_run_inv:
  assumes "session_run s es s'" and "s = sessions_init" and "ss_opened s' < 2 ^ 31 - 2"
  shows "session_inv s'"
  using assms
proof (induction rule: session_run.induct)
  case (none s)
  then show ?case by (simp add: session_inv_init)
next
  case (more s es s' e s'')
  from more.hyps(2) more.prems(2) have "ss_opened s' < 2 ^ 31 - 2"
    using session_step_opened [of s' e s''] by simp
  then have inv: "session_inv s'" using more by blast
  show ?case
  proof (cases e)
    case Open
    with more inv show ?thesis using session_open_inv [of s' s''] by simp
  next
    case (Finish sid)
    with more inv show ?thesis using session_finish_inv [of s' sid s''] by simp
  qed
qed

text \<open>
  C16: over any history of allocations and reclaims with fewer than \<open>2^31 - 2\<close> allocations, the
  ids of the sessions in flight are pairwise distinct, odd, at least 3, and so never the
  reserved \<open>CorruptedSessionID\<close>.
\<close>

theorem session_ids_unique:
  assumes "session_run sessions_init es s" and "ss_opened s < 2 ^ 31 - 2"
  shows "distinct (ss_active s) \<and>
    (\<forall>i \<in> set (ss_active s). odd (unat i) \<and> 3 \<le> unat i \<and> i \<noteq> CorruptedSessionID)"
  using session_run_inv [OF assms(1) refl assms(2)]
  by (auto simp: session_inv_def go_consts)

theorem session_ids_unique_witness:
  "session_run sessions_init [Open, Open, Finish 3]
     \<lparr>ss_alloc = \<lparr>sa_next = 7\<rparr>, ss_active = [5], ss_opened = 2\<rparr> \<and>
   distinct [5 :: u32] \<and> (5 :: u32) \<noteq> CorruptedSessionID"
proof -
  let ?s0 = sessions_init
  let ?s1 = "\<lparr>ss_alloc = \<lparr>sa_next = 5\<rparr>, ss_active = [3], ss_opened = 1\<rparr>"
  let ?s2 = "\<lparr>ss_alloc = \<lparr>sa_next = 7\<rparr>, ss_active = [5, 3], ss_opened = 2\<rparr>"
  let ?s3 = "\<lparr>ss_alloc = \<lparr>sa_next = 7\<rparr>, ss_active = [5], ss_opened = 2\<rparr>"
  have "session_step ?s0 Open ?s1"
    using session_step.allocate [of ?s0 3 "\<lparr>sa_next = 5\<rparr>"]
    by (simp add: sessions_init_def NewSessionAllocator_def Allocate_def)
  moreover have "session_step ?s1 Open ?s2"
    using session_step.allocate [of ?s1 5 "\<lparr>sa_next = 7\<rparr>"]
    by (simp add: Allocate_def numeral_2_eq_2)
  moreover have "session_step ?s2 (Finish 3) ?s3"
    using session_step.reclaim [of 3 ?s2] by (simp add: Reclaim_def)
  ultimately have run: "session_run ?s0 [Open, Open, Finish 3] ?s3"
    using session_run.intros(2) [OF session_run.intros(2) [OF session_run.intros(2)
        [OF session_run.intros(1), of ?s0 Open ?s1], of Open ?s2], of "Finish 3" ?s3] by simp
  from session_ids_unique [OF run] run show ?thesis by simp
qed

text \<open>
  only the most recently allocated id can be given back, and giving it back makes the next
  allocation issue the same id again; an older id is left alone.
\<close>

theorem reclaim_reissues:
  "fst (Allocate (Reclaim sid a)) = (if sid + 2 = sa_next a then sid else sa_next a) \<and>
   (Reclaim sid a = a \<longleftrightarrow> sid + 2 \<noteq> sa_next a)"
proof -
  have "sid \<noteq> sid + 2" for sid :: u32
    by simp
  then show ?thesis
    by (cases a) (auto simp: Allocate_def Reclaim_def Let_def)
qed

end
