(* ===== verification/Protocol.thy ===== *)
theory Protocol
  imports Verdict Session
begin

text \<open>
  The wire protocol as a whole (internal/protocol): the properties of the frames and verdicts
  that the layers above rely on. Each is read off the interpretation of a message contract in
  theory Frames or Verdict.
\<close>

section \<open>Telling the frames apart\<close>

text \<open>The data type a frame announces in its first two bytes.\<close>

definition frame_type :: "bytes \<Rightarrow> DataType option" where
  "frame_type b = (case rd_u16 (rd_new b) of Inl _ \<Rightarrow> None | Inr (dt, _) \<Rightarrow> Some dt)"

lemma accepted_types:
  "ParseRequestStart b = Inr m1 \<Longrightarrow> frame_type b = Some DataTypeRequestStart"
  "ParseHeaderBulk b = Inr m2 \<Longrightarrow>
     frame_type b = Some DataTypeRequestHeader \<or> frame_type b = Some DataTypeResponseHeader"
  "ParseBodyChunk b = Inr m3 \<Longrightarrow>
     frame_type b = Some DataTypeRequestBody \<or> frame_type b = Some DataTypeResponseBody"
  "ParseRequestEnd b = Inr m4 \<Longrightarrow>
     frame_type b = Some DataTypeRequestEnd \<or> frame_type b = Some DataTypeResponseEnd"
  "ParseResponseCode b = Inr m5 \<Longrightarrow> frame_type b = Some DataTypeResponseCode"
  "ParseContentLength b = Inr m6 \<Longrightarrow> frame_type b = Some DataTypeContentLength"
  "ParseDelayedVerdict b = Inr m7 \<Longrightarrow> frame_type b = Some DataTypeRequestDelayedVerdict"
  by (auto simp: frame_type_def ParseRequestStart_def ParseHeaderBulk_def ParseBodyChunk_def
      ParseRequestEnd_def ParseResponseCode_def ParseContentLength_def ParseDelayedVerdict_def
      split: if_splits)

definition accepts :: "(bytes \<Rightarrow> perror + 'm) \<Rightarrow> bytes \<Rightarrow> bool" where
  "accepts parse b \<longleftrightarrow> \<not> is_err (parse b)"

lemma acceptsE [elim]: "accepts parse b \<Longrightarrow> (\<And>m. parse b = Inr m \<Longrightarrow> P) \<Longrightarrow> P"
  by (cases "parse b") (auto simp: accepts_def)

lemma accepts_type:
  "accepts ParseRequestStart b \<Longrightarrow> frame_type b \<in> Some ` {DataTypeRequestStart}"
  "accepts ParseHeaderBulk b \<Longrightarrow>
     frame_type b \<in> Some ` {DataTypeRequestHeader, DataTypeResponseHeader}"
  "accepts ParseBodyChunk b \<Longrightarrow>
     frame_type b \<in> Some ` {DataTypeRequestBody, DataTypeResponseBody}"
  "accepts ParseRequestEnd b \<Longrightarrow>
     frame_type b \<in> Some ` {DataTypeRequestEnd, DataTypeResponseEnd}"
  "accepts ParseResponseCode b \<Longrightarrow> frame_type b \<in> Some ` {DataTypeResponseCode}"
  "accepts ParseContentLength b \<Longrightarrow> frame_type b \<in> Some ` {DataTypeContentLength}"
  "accepts ParseDelayedVerdict b \<Longrightarrow> frame_type b \<in> Some ` {DataTypeRequestDelayedVerdict}"
  by (auto dest: accepted_types)

definition frame_acceptors :: "bytes \<Rightarrow> bool list" where
  "frame_acceptors b = [accepts ParseRequestStart b, accepts ParseHeaderBulk b,
     accepts ParseBodyChunk b, accepts ParseRequestEnd b, accepts ParseResponseCode b,
     accepts ParseContentLength b, accepts ParseDelayedVerdict b]"

text \<open>
  C30: the data type makes the frames of a request mutually exclusive: no byte sequence is
  accepted by the parsers of two different messages.
\<close>

theorem frames_exclusive: "length (filter (\<lambda>ok. ok) (frame_acceptors b)) \<le> 1"
  unfolding frame_acceptors_def
  by (cases "accepts ParseRequestStart b"; cases "accepts ParseHeaderBulk b";
      cases "accepts ParseBodyChunk b"; cases "accepts ParseRequestEnd b";
      cases "accepts ParseResponseCode b"; cases "accepts ParseContentLength b";
      cases "accepts ParseDelayedVerdict b")
    (simp_all, (auto dest!: accepts_type simp: go_consts)+)

section \<open>Request frames\<close>

text \<open>
  a REQUEST_START frame is accepted exactly when it begins with the encoding of a message
  whose strings fit their 16-bit length prefixes; the message read is that one, and the bytes
  after it are ignored.
\<close>

theorem request_start_accepted:
  "ParseRequestStart b = Inr m \<longleftrightarrow> RequestStart_wf m \<and> (\<exists>t. b = RequestStart_Encode m @ t)"
  by (rule request_start.parse_iff)

definition example_start :: RequestStart where
  "example_start = \<lparr>rs_SessionID = 3, rs_HTTPProtocol = ''HTTP/1.1'', rs_Method = ''GET'',
     rs_Host = ''a.example'', rs_ListeningIP = ''::'', rs_ListeningPort = 80,
     rs_UnparsedURI = ''/?x=1'', rs_ClientIP = ''10.0.0.9'', rs_ClientPort = 4242,
     rs_ParsedHost = ''a.example'', rs_ParsedURI = ''/'', rs_WAFTag = ''''\<rparr>"

text \<open>
  no proper prefix of the encoding of a well-formed REQUEST_START frame is accepted, so a
  frame that was cut short is reported as an error, never read as another request.
\<close>

theorem request_start_cut:
  assumes "RequestStart_wf m" and "k < length (RequestStart_Encode m)"
  shows "is_err (ParseRequestStart (take k (RequestStart_Encode m)))"
  using assms by (rule request_start.parse_cut)

lemma length_example_start: "10 < length (RequestStart_Encode example_start)"
  using RequestStart_Encode_append [of example_start "[]"]
  by (simp add: example_start_def)

theorem request_start_cut_witness:
  "is_err (ParseRequestStart (take 10 (RequestStart_Encode example_start)))"
  by (rule request_start_cut [OF _ length_example_start])
    (simp add: RequestStart_wf_def example_start_def str_ok_def)

text \<open>
  header bulks and body chunks survive the wire. A bulk whose data type is a header type and
  whose strings fit their prefixes is read back unchanged, flags, part index and header order
  included, and so is a chunk of a body type whatever bytes it carries; conversely whatever the
  two parsers accept has those properties.
\<close>

theorem bulk_and_chunk_roundtrip:
  "(HeaderBulk_wf h \<longleftrightarrow> ParseHeaderBulk (HeaderBulk_Encode h) = Inr h) \<and>
   (BodyChunk_wf c \<longleftrightarrow> ParseBodyChunk (BodyChunk_Encode c) = Inr c)"
  using header_bulk.parse_encode header_bulk.parse_wf body_chunk.parse_encode body_chunk.parse_wf
  by blast

text \<open>
  the handshake frames and the keep-alive are read back unchanged exactly when their string
  fits the one-byte length prefix, whatever follows them in the stream.
\<close>

theorem handshake_frames_roundtrip:
  "(Registration_wf r \<longleftrightarrow> ParseRegistration (Registration_Encode r @ t) = Inr r) \<and>
   (RegistrationReply_wf p \<longleftrightarrow> ParseRegistrationReply (RegistrationReply_Encode p @ t) = Inr p) \<and>
   (CommData_wf c \<longleftrightarrow> ParseCommData (CommData_Encode c @ t) = Inr c) \<and>
   (KeepAlive_wf k \<longleftrightarrow> ParseKeepAlive (KeepAlive_Encode k @ t) = Inr k) \<and>
   ParseAck (Ack_Encode a @ t) = Inr a"
  using registration.parse_iff registration_reply.parse_iff comm_data.parse_iff
    keep_alive.parse_iff ack.parse_iff
  by blast

section \<open>Verdicts\<close>

text \<open>
  C17: a verdict whose parts fit their length fields, and that sets only the parts its kind
  carries, is encoded without panic and read back unchanged.
\<close>

theorem verdict_roundtrip:
  assumes "Verdict_wf v"
  shows "\<exists>b. Verdict_Encode v = Inr b \<and> ParseVerdict b = Inr v"
  using Verdict_wf_no_panic [OF assms] verdict.parse_encode [OF assms] by blast

definition example_verdict :: Verdict where
  "example_verdict = \<lparr>vd_Kind = VerdictDrop, vd_SessionID = 7,
     vd_WebResponse = Some \<lparr>wr_Type = WebResponseCustom, wr_StatusCode = 403,
       wr_Title = ''Blocked'', wr_Body = ''Request blocked'', wr_UUID = ''u-1'',
       wr_RedirectLocation = '''', wr_Headers = []\<rparr>,
     vd_Injections = []\<rparr>"

theorem verdict_roundtrip_witness:
  "Verdict_wf example_verdict \<and>
   (\<exists>b. Verdict_Encode example_verdict = Inr b \<and> ParseVerdict b = Inr example_verdict)"
proof -
  have "Verdict_wf example_verdict"
    by (simp add: example_verdict_def Verdict_wf_def drop_response_wf_def go_consts)
  then show ?thesis using verdict_roundtrip [of example_verdict] by blast
qed

text \<open>
  C18: whatever verdict the parser returns, for any bytes the engine sends, fits the frame: it
  can be encoded again without panic, and the re-encoded frame means the same verdict.
\<close>

theorem parsed_verdict_stable:
  assumes "ParseVerdict b = Inr v"
  shows "Verdict_wf v \<and> (\<exists>b'. Verdict_Encode v = Inr b' \<and> ParseVerdict b' = Inr v)"
  using verdict.parse_wf [OF assms] verdict.reencode [OF assms] Verdict_wf_no_panic by blast

lemma example_accept_parse:
  "ParseVerdict [1, 0, 3, 0, 0, 0, 0, 9] = Inr \<lparr>vd_Kind = VerdictAccept, vd_SessionID = 3,
     vd_WebResponse = None, vd_Injections = []\<rparr>"
  by (simp add: ParseVerdict_def rd_new_def rd_u16_def rd_u32_def rd_u8_def rd_take_def
      rd_remaining_def go_consts)

theorem parsed_verdict_stable_witness:
  "Verdict_wf \<lparr>vd_Kind = VerdictAccept, vd_SessionID = 3, vd_WebResponse = None,
     vd_Injections = []\<rparr>"
  using parsed_verdict_stable [OF example_accept_parse] by blast

text \<open>
  encoding a verdict panics exactly for a DROP or CUSTOM_RESPONSE verdict without a web
  response; in every other case it returns a frame that repeats kind and session id in its
  first six bytes.
\<close>

theorem verdict_encode_panics:
  "(Verdict_Encode v = Inl NilDereference \<longleftrightarrow>
      vd_Kind v \<in> {VerdictDrop, VerdictCustomResponse} \<and> vd_WebResponse v = None) \<and>
   (\<exists>t. Verdict_Encode v \<in> {Inl NilDereference,
      Inr (le_bytes 2 (unat (vd_Kind v)) @ le_bytes 4 (unat (vd_SessionID v)) @ t)})"
proof (cases "Verdict_Encode v")
  case (Inl p)
  then have "p = NilDereference" by (cases p)
  with Inl show ?thesis
    by (auto simp: Verdict_Encode_def Let_def go_consts split: if_splits option.splits)
next
  case (Inr b)
  then obtain fs where fs: "b = emit (w_u16 (vd_Kind v) # w_u32 (vd_SessionID v) # fs)"
      and ap: "list_all appends fs"
    by (auto simp: Verdict_Encode_def Let_def appends_injections appends_web_response
        appends_custom_response split: if_splits option.splits)
  then have "b = le_bytes 2 (unat (vd_Kind v)) @ le_bytes 4 (unat (vd_SessionID v)) @ emit fs"
    by (simp add: emit_Cons w_u16_def w_u32_def)
  moreover have "\<not> (vd_Kind v \<in> {VerdictDrop, VerdictCustomResponse} \<and> vd_WebResponse v = None)"
    using Inr by (cases "vd_WebResponse v") (auto simp: Verdict_Encode_def Let_def go_consts)
  ultimately show ?thesis using Inr by auto
qed

end
