(* ===== verification/Ring.thy ===== *)
theory Ring
  imports Consts
begin

text \<open>
  The shared-memory ring queue of internal/transport/linux/ring.go, on the bytes of the mapped
  file. A message occupies consecutive data segments; the management entry of its first segment
  holds its size, the entries of the others the skip magic, and the entries of free segments the
  empty magic. All header fields and management entries live in the same byte buffer as the
  data, and every operation below is a transformation of that buffer.
\<close>

section \<open>Reading and writing the buffer\<close>

definition slice :: "nat \<Rightarrow> nat \<Rightarrow> bytes \<Rightarrow> bytes" where
  "slice off n b = take n (drop off b)"

definition overwrite :: "nat \<Rightarrow> bytes \<Rightarrow> bytes \<Rightarrow> bytes" where
  "overwrite off bs b = take off b @ bs @ drop (off + length bs) b"

definition get16 :: "nat \<Rightarrow> bytes \<Rightarrow> u16" where
  "get16 off b = word_of_nat (le_nat (slice off 2 b))"

definition get32 :: "nat \<Rightarrow> bytes \<Rightarrow> u32" where
  "get32 off b = word_of_nat (le_nat (slice off 4 b))"

definition put16 :: "nat \<Rightarrow> u16 \<Rightarrow> bytes \<Rightarrow> bytes" where
  "put16 off v b = overwrite off (le_bytes 2 (unat v)) b"

section \<open>The ring\<close>

text \<open>
  Outcomes of the ring operations. \<open>RingPanic\<close> is a slice expression out of range; it is shown
  to be unreachable for buffers of less than 4 GiB.
\<close>

datatype ring_err = RingEmpty | RingFull | RingTooLarge | RingCorrupt | RingPanic

record ring =
  rg_buf :: bytes
  rg_segSize :: u32
  rg_numSegs :: u32
  rg_dataBase :: u32

record ringHeader =
  rh_numSegs :: u32
  rh_sizeOfMemory :: u32
  rh_readPos :: u32
  rh_writePos :: u32

definition parseHeader :: "bytes \<Rightarrow> ring_err + ringHeader" where
  "parseHeader b =
     (if length b < SharedQueueMgmtOffset then Inl RingCorrupt
      else
        let h = \<lparr>rh_numSegs = ucast (get16 SharedQueueNumSegOffset b),
                 rh_sizeOfMemory = get32 SharedQueueSizeOffset b,
                 rh_readPos = ucast (get16 SharedQueueReadPosOffset b),
                 rh_writePos = ucast (get16 SharedQueueWritePosOffset b)\<rparr>
        in if rh_numSegs h = 0 \<or> rh_numSegs h > ucast MaxDataSegments then Inl RingCorrupt
           else if rh_readPos h > rh_numSegs h \<or> rh_writePos h > rh_numSegs h then Inl RingCorrupt
           else Inr h)"

definition deriveGeometry :: "u32 \<Rightarrow> u32 \<Rightarrow> ring_err + (u32 \<times> u32)" where
  "deriveGeometry sizeOfMemory numSegs =
     (if numSegs = 0 \<or> numSegs > ucast MaxDataSegments then Inl RingCorrupt
      else if sizeOfMemory \<le> of_nat SharedQueueMgmtOffset then Inl RingCorrupt
      else
        let num = sizeOfMemory - of_nat SharedQueueMgmtOffset in
        if num mod (1 + numSegs) \<noteq> 0 then Inl RingCorrupt
        else
          let segSize = num div (1 + numSegs) in
          if segSize \<noteq> of_nat SharedMemSegmentSize \<and> segSize \<noteq> of_nat SharedMemSegmentSizeBC
          then Inl RingCorrupt
          else Inr (segSize, of_nat SharedQueueMgmtOffset + segSize))"

definition newRing :: "bytes \<Rightarrow> ring_err + ring" where
  "newRing b =
     bindE (parseHeader b) (\<lambda>h.
     bindE (deriveGeometry (rh_sizeOfMemory h) (rh_numSegs h)) (\<lambda>(segSize, dataBase).
     if length b < unat dataBase + unat (rh_numSegs h) * unat segSize then Inl RingCorrupt
     else Inr \<lparr>rg_buf = b, rg_segSize = segSize, rg_numSegs = rh_numSegs h,
               rg_dataBase = dataBase\<rparr>))"

definition queueFileName :: "string \<Rightarrow> string \<Rightarrow> string" where
  "queueFileName direction name =
     ''__cp_nano_'' @ direction @ ''_shared_memory_'' @ name @ ''__''"

definition r_readPos :: "ring \<Rightarrow> u32" where
  "r_readPos r = ucast (get16 SharedQueueReadPosOffset (rg_buf r))"

definition r_writePos :: "ring \<Rightarrow> u32" where
  "r_writePos r = ucast (get16 SharedQueueWritePosOffset (rg_buf r))"

definition setReadPos :: "u32 \<Rightarrow> ring \<Rightarrow> ring" where
  "setReadPos v r = r\<lparr>rg_buf := put16 SharedQueueReadPosOffset (ucast v) (rg_buf r)\<rparr>"

definition setWritePos :: "u32 \<Rightarrow> ring \<Rightarrow> ring" where
  "setWritePos v r = r\<lparr>rg_buf := put16 SharedQueueWritePosOffset (ucast v) (rg_buf r)\<rparr>"

definition r_mgmt :: "u32 \<Rightarrow> ring \<Rightarrow> u16" where
  "r_mgmt i r = get16 (SharedQueueMgmtOffset + unat i * 2) (rg_buf r)"

definition setMgmt :: "u32 \<Rightarrow> u16 \<Rightarrow> ring \<Rightarrow> ring" where
  "setMgmt i v r = r\<lparr>rg_buf := put16 (SharedQueueMgmtOffset + unat i * 2) v (rg_buf r)\<rparr>"

definition dataSeg :: "u32 \<Rightarrow> ring \<Rightarrow> bytes" where
  "dataSeg i r = slice (unat (rg_dataBase r) + unat i * unat (rg_segSize r))
     (unat (rg_segSize r)) (rg_buf r)"

definition enoughMemory :: "u32 \<Rightarrow> u32 \<Rightarrow> u32 \<Rightarrow> ring \<Rightarrow> bool" where
  "enoughMemory writePos readPos n r =
     (if n \<ge> rg_numSegs r then False
      else
        let n' = (if writePos + n > rg_numSegs r then n + (rg_numSegs r - writePos) else n);
            readPos' = (if writePos + n' \<ge> rg_numSegs r then readPos + rg_numSegs r else readPos)
        in writePos + n' < readPos' \<or> writePos \<ge> readPos')"

text \<open>
  The loops \<open>for ; i < hi; i++ { r.setMgmt(i, v) }\<close>, returning the final index, and the loop of
  \<open>peek\<close> that frees the skip entries from the read position on.
\<close>

function fillMgmt :: "u32 \<Rightarrow> u32 \<Rightarrow> u16 \<Rightarrow> ring \<Rightarrow> u32 \<times> ring" where
  "fillMgmt i hi v r = (if i < hi then fillMgmt (i + 1) hi v (setMgmt i v r) else (i, r))"
  by pat_completeness auto
termination
proof (relation "measure (\<lambda>(i, hi, v, r). unat hi - unat i)", goal_cases)
  case (2 i hi v r)
  then have "unat (i + 1) = unat i + 1"
    by (auto dest: unat_Suc_less)
  with 2 show ?case by (simp add: word_less_nat_alt)
qed simp

function freeSkip :: "u32 \<Rightarrow> ring \<Rightarrow> u32 \<times> ring" where
  "freeSkip i r =
     (if i < rg_numSegs r \<and> r_mgmt i r = MagicSkipSegment
      then freeSkip (i + 1) (setMgmt i MagicEmptySegment r) else (i, r))"
  by pat_completeness auto
termination
proof (relation "measure (\<lambda>(i, r). unat (rg_numSegs r) - unat i)", goal_cases)
  case (2 i r)
  then have "unat (i + 1) = unat i + 1"
    by (auto dest: unat_Suc_less)
  with 2 show ?case by (auto simp: word_less_nat_alt setMgmt_def)
qed simp

declare fillMgmt.simps [simp del] freeSkip.simps [simp del]

text \<open>The length check of \<open>push\<close>: the 32-bit total, or \<open>None\<close> once it exceeds the limit.\<close>

fun totalSize :: "u32 \<Rightarrow> bytes list \<Rightarrow> u32 option" where
  "totalSize acc [] = Some acc"
| "totalSize acc (b # bs) =
     (let acc' = acc + of_nat (length b) in
      if acc' > MaxWriteSize then None else totalSize acc' bs)"

text \<open>
  The copy loop of \<open>push\<close>: \<open>room\<close> bytes are left in \<open>dst\<close>. \<open>copy\<close> writes what fits, and
  reslicing \<open>dst[len(b):]\<close> panics when \<open>b\<close> was longer.
\<close>

fun copyBuffers :: "nat \<Rightarrow> nat \<Rightarrow> bytes list \<Rightarrow> bytes \<Rightarrow> bytes option" where
  "copyBuffers off room [] buf = Some buf"
| "copyBuffers off room (b # bs) buf =
     (if length b > room then None
      else copyBuffers (off + length b) (room - length b) bs (overwrite off b buf))"

definition push :: "bytes list \<Rightarrow> ring \<Rightarrow> ring_err option \<times> ring" where
  "push buffers r =
     (case totalSize 0 buffers of
        None \<Rightarrow> (Some RingTooLarge, r)
      | Some sz \<Rightarrow>
        let writePos = r_writePos r;
            readPos = r_readPos r;
            numSegs = rg_numSegs r
        in if readPos > numSegs \<or> writePos > numSegs then (Some RingCorrupt, r)
           else
             let needed = (sz + rg_segSize r - 1) div rg_segSize r in
             if \<not> enoughMemory writePos readPos needed r then (Some RingFull, r)
             else
               let (startPos, r) =
                     (if writePos + needed > numSegs
                      then (0, snd (fillMgmt writePos numSegs MagicSkipSegment r))
                      else (writePos, r));
                   r = setMgmt startPos (ucast sz) r;
                   dataStart = unat (rg_dataBase r) + unat startPos * unat (rg_segSize r)
               in case copyBuffers dataStart (unat sz) buffers (rg_buf r) of
                    None \<Rightarrow> (Some RingPanic, r)
                  | Some buf \<Rightarrow>
                    let r = r\<lparr>rg_buf := buf\<rparr>;
                        endPos = (startPos + 1) + needed - 1;
                        (writePos, r) = fillMgmt (startPos + 1) endPos MagicSkipSegment r
                    in (None, setWritePos (if writePos \<ge> numSegs then 0 else writePos) r))"

definition peek :: "ring \<Rightarrow> (ring_err + (u32 \<times> nat)) \<times> ring" where
  "peek r =
     (let readPos = r_readPos r;
          writePos = r_writePos r;
          numSegs = rg_numSegs r
      in if readPos = writePos then (Inl RingEmpty, r)
         else if readPos > numSegs \<or> writePos > numSegs then (Inl RingCorrupt, r)
         else
           let (readPos, r) =
                 (if r_mgmt readPos r = MagicSkipSegment then freeSkip readPos r else (readPos, r));
               readPos = (if readPos = numSegs then 0 else readPos);
               m = r_mgmt readPos r
           in if m = MagicEmptySegment \<or> m = MagicSkipSegment then (Inl RingCorrupt, r)
              else if (ucast m :: u32) > MaxWriteSize then (Inl RingCorrupt, r)
              else
                let size = (ucast m :: u32);
                    dataOff = unat (rg_dataBase r) + unat readPos * unat (rg_segSize r)
                in if dataOff + unat size > length (rg_buf r) then (Inl RingCorrupt, r)
                   else (Inr (size, dataOff), setReadPos readPos r))"

definition pop :: "ring \<Rightarrow> ring_err option \<times> ring" where
  "pop r =
     (let readPos = r_readPos r;
          writePos = r_writePos r;
          numSegs = rg_numSegs r
      in if readPos = writePos then (Some RingEmpty, r)
         else if readPos > numSegs \<or> writePos > numSegs then (Some RingCorrupt, r)
         else
           let n = (ucast (r_mgmt readPos r) + rg_segSize r - 1) div rg_segSize r;
               (readPos, r) =
                 (if readPos + n > numSegs
                  then (0, snd (fillMgmt readPos numSegs MagicEmptySegment r))
                  else (readPos, r));
               (readPos, r) = fillMgmt readPos (readPos + n) MagicEmptySegment r;
               (readPos, r) =
                 (if readPos < numSegs \<and> r_mgmt readPos r = MagicSkipSegment
                  then fillMgmt readPos numSegs MagicEmptySegment r
                  else (readPos, r));
               readPos = (if readPos = numSegs then 0 else readPos)
           in (None, setReadPos readPos r))"

section \<open>Effect of the buffer operations\<close>

lemma length_overwrite [simp]:
  "off + length bs \<le> length b \<Longrightarrow> length (overwrite off bs b) = length b"
  by (simp add: overwrite_def)

lemma overwrite_Nil [simp]: "overwrite off [] b = b"
  by (simp add: overwrite_def)

lemma slice_overwrite_same:
  "off + length bs \<le> length b \<Longrightarrow> n = length bs \<Longrightarrow> slice off n (overwrite off bs b) = bs"
  by (simp add: slice_def overwrite_def)

lemma nth_overwrite:
  assumes "off + length bs \<le> length b" and "i < length b"
  shows "overwrite off bs b ! i =
    (if off \<le> i \<and> i < off + length bs then bs ! (i - off) else b ! i)"
proof -
  have "off \<le> length b" using assms(1) by simp
  then show ?thesis
    using assms by (auto simp: overwrite_def nth_append min_def)
qed

lemma slice_eqI:
  assumes "off + n \<le> length a" and "off + n \<le> length b"
    and "\<And>i. off \<le> i \<Longrightarrow> i < off + n \<Longrightarrow> a ! i = b ! i"
  shows "slice off n a = slice off n b"
  using assms by (intro nth_equalityI) (auto simp: slice_def)

lemma slice_overwrite_other:
  assumes "off + length bs \<le> length b" and "off' + n \<le> length b"
    and "off' + n \<le> off \<or> off + length bs \<le> off'"
  shows "slice off' n (overwrite off bs b) = slice off' n b"
  using assms by (intro slice_eqI) (auto simp: nth_overwrite)

lemma overwrite_append:
  assumes "off + length a + length c \<le> length b"
  shows "overwrite (off + length a) c (overwrite off a b) = overwrite off (a @ c) b"
proof -
  have "take (off + length a) (take off b @ a @ drop (off + length a) b) = take off b @ a"
    using assms by simp
  moreover have "drop (off + length a + length c) (take off b @ a @ drop (off + length a) b) =
      drop (off + length a + length c) b"
    using assms by (simp add: add.commute)
  ultimately show ?thesis by (simp add: overwrite_def add.assoc)
qed

lemma length_put16 [simp]: "off + 2 \<le> length b \<Longrightarrow> length (put16 off v b) = length b"
  by (simp add: put16_def)

lemma get16_put16_same [simp]: "off + 2 \<le> length b \<Longrightarrow> get16 off (put16 off v b) = v"
proof -
  assume "off + 2 \<le> length b"
  then have "slice off 2 (put16 off v b) = le_bytes 2 (unat v)"
    by (simp add: put16_def slice_overwrite_same)
  then show ?thesis by (simp add: get16_def word_of_le_nat)
qed

lemma get16_put16_other:
  assumes "off + 2 \<le> length b" and "off' + 2 \<le> length b" and "off' + 2 \<le> off \<or> off + 2 \<le> off'"
  shows "get16 off' (put16 off v b) = get16 off' b"
  using assms by (simp add: get16_def put16_def slice_overwrite_other)

lemma get16_overwrite_other:
  assumes "off + length bs \<le> length b" and "off' + 2 \<le> length b"
    and "off' + 2 \<le> off \<or> off + length bs \<le> off'"
  shows "get16 off' (overwrite off bs b) = get16 off' b"
  using assms by (simp add: get16_def slice_overwrite_other)

lemma nth_put16_other:
  assumes "off + 2 \<le> length b" and "i < length b" and "i < off \<or> off + 2 \<le> i"
  shows "put16 off v b ! i = b ! i"
  using assms by (auto simp: put16_def nth_overwrite)

lemma copyBuffers_fits:
  assumes "sum_list (map length bs) \<le> room" and "off + sum_list (map length bs) \<le> length buf"
  shows "copyBuffers off room bs buf = Some (overwrite off (concat bs) buf)"
  using assms
proof (induction bs arbitrary: off room buf)
  case Nil
  then show ?case by simp
next
  case (Cons b bs)
  then have "copyBuffers (off + length b) (room - length b) bs (overwrite off b buf) =
      Some (overwrite (off + length b) (concat bs) (overwrite off b buf))"
    by (intro Cons.IH) auto
  with Cons.prems show ?case by (simp add: overwrite_append length_concat)
qed

lemma totalSize_small:
  assumes "unat acc + sum_list (map length bs) \<le> 65532"
  shows "totalSize acc bs = Some (acc + of_nat (sum_list (map length bs)))"
  using assms
proof (induction bs arbitrary: acc)
  case Nil
  then show ?case by simp
next
  case (Cons b bs)
  have len: "unat (of_nat (length b) :: u32) = length b"
    using Cons.prems by (simp add: unat_of_nat)
  then have acc': "unat (acc + of_nat (length b)) = unat acc + length b"
    using Cons.prems by (simp add: unat_add_small)
  then have "\<not> acc + of_nat (length b) > MaxWriteSize"
    using Cons.prems by (simp add: go_consts word_less_nat_alt)
  with Cons acc' show ?case by (simp add: Let_def add.assoc)
qed

lemma totalSize_large:
  assumes "unat acc \<le> 65532" and "unat acc + sum_list (map length bs) > 65532"
    and "\<forall>b \<in> set bs. length b < 4294901760"
  shows "totalSize acc bs = None"
  using assms
proof (induction bs arbitrary: acc)
  case Nil
  then show ?case by simp
next
  case (Cons b bs)
  have len: "unat (of_nat (length b) :: u32) = length b"
    using Cons.prems by (simp add: unat_of_nat)
  then have acc': "unat (acc + of_nat (length b)) = unat acc + length b"
    using Cons.prems by (simp add: unat_add_small)
  show ?case
  proof (cases "unat acc + length b > 65532")
    case True
    with acc' show ?thesis by (simp add: Let_def go_consts word_less_nat_alt)
  next
    case False
    with acc' have "\<not> acc + of_nat (length b) > MaxWriteSize"
      by (simp add: go_consts word_less_nat_alt)
    moreover have "totalSize (acc + of_nat (length b)) bs = None"
      using Cons.prems False acc' by (intro Cons.IH) auto
    ultimately show ?thesis by (simp add: Let_def)
  qed
qed

end
