(* ===== verification/Transport.thy ===== *)
theory Transport
  imports Ring
begin

text \<open>
  The transport interface of internal/transport/transport.go: the errors its operations return
  and the contract of \<open>EngineConn\<close>. An operation is given the state of its context (done, and
  with which error) and the world of connections; a receive that has nothing to return and may
  still wait yields \<open>None\<close>.
\<close>

datatype ctx_err = Canceled | DeadlineExceeded

datatype terr =
    ErrClosed
  | ErrCtx ctx_err
  | ErrRing ring_err
  | ErrWrapped terr
  | ErrOther string
  | ErrPanic

type_synonym ctx = "ctx_err option"

text \<open>The operations of a connection, as a client may call them one after the other.\<close>

datatype conn_call = CallSend ctx bytes | CallRecv ctx | CallClose

datatype conn_reply = Sent "terr option option" | Received "(terr + bytes) option" | Closing "terr option"

fun run_calls ::
  "('c \<Rightarrow> ctx \<Rightarrow> bytes \<Rightarrow> 'w \<Rightarrow> terr option option \<times> 'w) \<Rightarrow>
   ('c \<Rightarrow> ctx \<Rightarrow> 'w \<Rightarrow> (terr + bytes) option \<times> 'w) \<Rightarrow>
   ('c \<Rightarrow> 'w \<Rightarrow> terr option \<times> 'w) \<Rightarrow> 'c \<Rightarrow> conn_call list \<Rightarrow> 'w \<Rightarrow> conn_reply list \<times> 'w" where
  "run_calls sendf recvf closef c [] w = ([], w)"
| "run_calls sendf recvf closef c (CallSend x p # cs) w =
     (let (e, w) = sendf c x p w; (rs, w) = run_calls sendf recvf closef c cs w in (Sent e # rs, w))"
| "run_calls sendf recvf closef c (CallRecv x # cs) w =
     (let (e, w) = recvf c x w; (rs, w) = run_calls sendf recvf closef c cs w in (Received e # rs, w))"
| "run_calls sendf recvf closef c (CallClose # cs) w =
     (let (e, w) = closef c w; (rs, w) = run_calls sendf recvf closef c cs w in (Closing e # rs, w))"

fun closed_reply :: "conn_call \<Rightarrow> conn_reply" where
  "closed_reply (CallSend _ _) = Sent (Some (Some ErrClosed))"
| "closed_reply (CallRecv _) = Received (Some (Inl ErrClosed))"
| "closed_reply CallClose = Closing (Some ErrClosed)"

text \<open>
  The part of the \<open>EngineConn\<close> contract about closing: an operation on a closed connection
  reports \<open>ErrClosed\<close> whatever its context says, \<open>Close\<close> closes, and nothing else does. Sends are
  only covered for the payloads that \<open>fits\<close> admits.
\<close>

locale closing_conn =
  fixes is_open :: "'c \<Rightarrow> 'w \<Rightarrow> bool"
    and fits :: "bytes \<Rightarrow> bool"
    and sendf :: "'c \<Rightarrow> ctx \<Rightarrow> bytes \<Rightarrow> 'w \<Rightarrow> terr option option \<times> 'w"
    and recvf :: "'c \<Rightarrow> ctx \<Rightarrow> 'w \<Rightarrow> (terr + bytes) option \<times> 'w"
    and closef :: "'c \<Rightarrow> 'w \<Rightarrow> terr option \<times> 'w"
  assumes send_closed: "\<not> is_open c w \<Longrightarrow> fits p \<Longrightarrow> sendf c x p w = (Some (Some ErrClosed), w)"
    and recv_closed: "\<not> is_open c w \<Longrightarrow> recvf c x w = (Some (Inl ErrClosed), w)"
    and close_closed: "\<not> is_open c w \<Longrightarrow> fst (closef c w) = Some ErrClosed \<and> \<not> is_open c (snd (closef c w))"
    and close_open: "is_open c w \<Longrightarrow> \<not> is_open c (snd (closef c w))"
    and send_open: "is_open c w \<Longrightarrow> is_open c (snd (sendf c x p w))"
    and recv_open: "is_open c w \<Longrightarrow> is_open c (snd (recvf c x w))"
begin

lemma calls_closed:
  "\<not> is_open c w \<Longrightarrow> \<forall>x p. CallSend x p \<in> set cs \<longrightarrow> fits p \<Longrightarrow>
   fst (run_calls sendf recvf closef c cs w) = map closed_reply cs"
proof (induction cs arbitrary: w)
  case (Cons k cs)
  then show ?case
  proof (cases k)
    case (CallSend x p)
    with Cons.IH [OF Cons.prems(1)] send_closed [OF Cons.prems(1), of p] Cons.prems(2) show ?thesis
      by (cases "run_calls sendf recvf closef c cs w") auto
  next
    case (CallRecv x)
    with Cons.IH [OF Cons.prems(1)] recv_closed [OF Cons.prems(1)] Cons.prems(2) show ?thesis
      by (cases "run_calls sendf recvf closef c cs w") auto
  next
    case CallClose
    obtain e w' where c: "closef c w = (e, w')" by (cases "closef c w")
    with close_closed [OF Cons.prems(1)] have "e = Some ErrClosed" "\<not> is_open c w'" by auto
    with Cons.IH [of w'] Cons.prems(2) CallClose c show ?thesis by (auto split: prod.splits)
  qed
qed simp

text \<open>After a \<open>Close\<close>, whatever it returned, every further call reports \<open>ErrClosed\<close>.\<close>

lemma calls_after_any_close:
  assumes "is_open c w" and "\<forall>x p. CallSend x p \<in> set cs \<longrightarrow> fits p"
  shows "fst (run_calls sendf recvf closef c (CallClose # cs) w) = Closing (fst (closef c w)) # map closed_reply cs"
proof -
  obtain e w' where c: "closef c w = (e, w')" by (cases "closef c w")
  with close_open [OF assms(1)] have "\<not> is_open c w'" by auto
  with c calls_closed [of c w' cs] assms(2) show ?thesis by (auto split: prod.splits)
qed

end

text \<open>The full contract: the first \<open>Close\<close> succeeds, so it is the only one that does.\<close>

locale engine_conn = closing_conn +
  assumes close_succeeds: "is_open c w \<Longrightarrow> fst (closef c w) = None"
begin

lemma calls_after_close:
  assumes "is_open c w" and "\<forall>x p. CallSend x p \<in> set cs \<longrightarrow> fits p"
  shows "fst (run_calls sendf recvf closef c (CallClose # cs) w) = Closing None # map closed_reply cs"
  using calls_after_any_close [OF assms] close_succeeds [OF assms(1)] by simp

end

end
