(* ===== verification/Queue.thy ===== *)
theory Queue
  imports Prelude
begin

text \<open>
  The interface of a message queue: what a channel promises to the one who sends on it and to
  the one who receives from it. The locale \<open>fifo\<close> is interpreted on the shared-memory ring and on
  the inbound queue of an in-memory connection; its lemmas say what any interleaving of sends
  and receives delivers.
\<close>

datatype 'm queue_op = Snd 'm | Rcv

text \<open>
  A history of operations, returning the messages accepted, the messages delivered and the
  final queue; \<open>send\<close> says whether it accepted the message.
\<close>

fun run_queue ::
  "('m \<Rightarrow> 'q \<Rightarrow> bool \<times> 'q) \<Rightarrow> ('q \<Rightarrow> 'm option \<times> 'q) \<Rightarrow> 'm queue_op list \<Rightarrow> 'q \<Rightarrow>
   'm list \<times> 'm list \<times> 'q" where
  "run_queue snd_op rcv_op [] q = ([], [], q)"
| "run_queue snd_op rcv_op (Snd m # ops) q =
     (let (ok, q1) = snd_op m q; (acc, del, q2) = run_queue snd_op rcv_op ops q1
      in (if ok then m # acc else acc, del, q2))"
| "run_queue snd_op rcv_op (Rcv # ops) q =
     (let (x, q1) = rcv_op q; (acc, del, q2) = run_queue snd_op rcv_op ops q1
      in (acc, (case x of None \<Rightarrow> del | Some m \<Rightarrow> m # del), q2))"

locale fifo =
  fixes rel :: "'q \<Rightarrow> 'm list \<Rightarrow> bool"
    and snd_op :: "'m \<Rightarrow> 'q \<Rightarrow> bool \<times> 'q"
    and rcv_op :: "'q \<Rightarrow> 'm option \<times> 'q"
    and fit :: "'m \<Rightarrow> bool"
  assumes send_rel: "rel q ms \<Longrightarrow> fit m \<Longrightarrow> snd_op m q = (ok, q') \<Longrightarrow>
      rel q' (if ok then ms @ [m] else ms)"
    and recv_rel: "rel q ms \<Longrightarrow> rcv_op q = (x, q') \<Longrightarrow>
      x = (case ms of [] \<Rightarrow> None | m # _ \<Rightarrow> Some m) \<and> rel q' (tl ms)"
begin

text \<open>Nothing is lost, duplicated, altered or reordered by any history of operations.\<close>

lemma run_rel:
  assumes "rel q ms" and "\<forall>m. Snd m \<in> set ops \<longrightarrow> fit m"
    and "run_queue snd_op rcv_op ops q = (acc, del, q')"
  shows "\<exists>rest. ms @ acc = del @ rest \<and> rel q' rest"
  using assms
proof (induction ops arbitrary: q ms acc del)
  case Nil
  then show ?case by auto
next
  case (Cons op ops)
  show ?case
  proof (cases op)
    case (Snd m)
    obtain ok q1 where s: "snd_op m q = (ok, q1)" by (cases "snd_op m q")
    obtain acc1 where run: "run_queue snd_op rcv_op ops q1 = (acc1, del, q')"
        and acc: "acc = (if ok then m # acc1 else acc1)"
      using Cons.prems(3) s by (auto simp: Snd split: prod.splits)
    have "rel q1 (if ok then ms @ [m] else ms)"
      using send_rel [OF Cons.prems(1) _ s] Cons.prems(2) by (simp add: Snd)
    from Cons.IH [OF this _ run] show ?thesis
      using Cons.prems(2) by (auto simp: acc split: if_splits)
  next
    case Rcv
    obtain x q1 where r: "rcv_op q = (x, q1)" by (cases "rcv_op q")
    obtain del1 where run: "run_queue snd_op rcv_op ops q1 = (acc, del1, q')"
        and del: "del = (case x of None \<Rightarrow> del1 | Some m \<Rightarrow> m # del1)"
      using Cons.prems(3) r by (auto simp: Rcv split: prod.splits)
    have "x = (case ms of [] \<Rightarrow> None | m # _ \<Rightarrow> Some m)" "rel q1 (tl ms)"
      using recv_rel [OF Cons.prems(1) r] by auto
    with Cons.IH [OF this(2) _ run] show ?thesis
      using Cons.prems(2) by (auto simp: del split: list.splits)
  qed
qed

text \<open>Receiving as often as there are messages delivers them all, in order.\<close>

lemma drain:
  assumes "rel q ms" and "run_queue snd_op rcv_op (replicate (length ms) Rcv) q = (acc, del, q')"
  shows "del = ms \<and> rel q' []"
  using assms
proof (induction ms arbitrary: q acc del)
  case (Cons m ms)
  obtain x q1 where r: "rcv_op q = (x, q1)" by (cases "rcv_op q")
  have "x = Some m" "rel q1 ms" using recv_rel [OF Cons.prems(1) r] by auto
  with Cons.IH [OF this(2)] Cons.prems(2) r show ?case by (auto split: prod.splits)
qed simp

end

end
