(* ===== verification/Go_Strings.thy ===== *)
theory Go_Strings
  imports Prelude "HOL-Library.Char_ord" "HOL-Library.Sublist"
begin

text \<open>
  What the source uses of the standard packages strings and strconv, on Go strings as lists of
  bytes. White space is Unicode's, in its UTF-8 encoding; case mapping is exact as far as the
  result is compared with ASCII text, which is the only use the source makes of it.
\<close>

section \<open>White space\<close>

definition byte_char :: "nat \<Rightarrow> char" where
  "byte_char n = char_of n"

definition utf8 :: "nat list \<Rightarrow> string" where
  "utf8 bs = map byte_char bs"

text \<open>The white space characters of \<open>unicode.IsSpace\<close>, each as its UTF-8 bytes.\<close>

definition space_seqs :: "string list" where
  "space_seqs =
     map (\<lambda>b. utf8 [b]) [9, 10, 11, 12, 13, 32] @
     [utf8 [0xC2, 0x85], utf8 [0xC2, 0xA0], utf8 [0xE1, 0x9A, 0x80]] @
     map (\<lambda>b. utf8 [0xE2, 0x80, b])
       [0x80, 0x81, 0x82, 0x83, 0x84, 0x85, 0x86, 0x87, 0x88, 0x89, 0x8A, 0xA8, 0xA9, 0xAF] @
     [utf8 [0xE2, 0x81, 0x9F], utf8 [0xE3, 0x80, 0x80]]"

fun drop_prefix :: "string list \<Rightarrow> string \<Rightarrow> string option" where
  "drop_prefix [] s = None"
| "drop_prefix (p # ps) s =
     (if take (length p) s = p then Some (drop (length p) s) else drop_prefix ps s)"

lemma drop_prefix_shorter:
  "drop_prefix ps s = Some t \<Longrightarrow> [] \<notin> set ps \<Longrightarrow> length t < length s"
proof (induction ps)
  case (Cons p ps)
  show ?case
  proof (cases "take (length p) s = p")
    case True
    then have "0 < length p" "length p \<le> length s"
      using Cons.prems(2) by (auto simp: min_def dest: arg_cong [where f = length] split: if_splits)
    then have "length s - length p < length s" by linarith
    with True Cons.prems(1) show ?thesis by auto
  qed (use Cons in auto)
qed simp

lemma space_seqs_nonempty: "[] \<notin> set space_seqs"
  by (simp add: space_seqs_def utf8_def)

function trim_left_seqs :: "string list \<Rightarrow> string \<Rightarrow> string" where
  "trim_left_seqs ps s =
     (if [] \<in> set ps then s
      else case drop_prefix ps s of None \<Rightarrow> s | Some t \<Rightarrow> trim_left_seqs ps t)"
  by pat_completeness auto
termination
  by (relation "measure (\<lambda>(ps, s). length s)") (auto dest: drop_prefix_shorter)

declare trim_left_seqs.simps [simp del]

definition TrimLeftSpace :: "string \<Rightarrow> string" where
  "TrimLeftSpace s = trim_left_seqs space_seqs s"

definition TrimRightSpace :: "string \<Rightarrow> string" where
  "TrimRightSpace s = rev (trim_left_seqs (map rev space_seqs) (rev s))"

definition TrimSpace :: "string \<Rightarrow> string" where
  "TrimSpace s = TrimRightSpace (TrimLeftSpace s)"

text \<open>Text that begins and ends with a printable ASCII character other than a space is kept.\<close>

definition plain :: "char \<Rightarrow> bool" where
  "plain c \<longleftrightarrow> 33 \<le> (of_char c :: nat) \<and> (of_char c :: nat) < 128"

lemma drop_prefix_None: "\<forall>p \<in> set ps. p \<noteq> [] \<and> (s = [] \<or> hd p \<noteq> hd s) \<Longrightarrow> drop_prefix ps s = None"
proof (induction ps)
  case (Cons p ps)
  then obtain a q where p: "p = a # q" by (cases p) auto
  from Cons.prems have "take (length p) s \<noteq> p" by (cases s) (auto simp: p)
  with Cons show ?case by simp
qed simp

lemma space_bytes:
  "\<forall>p \<in> set space_seqs. \<not> plain (hd p)" "\<forall>p \<in> set (map rev space_seqs). \<not> plain (hd p)"
  by (simp_all add: space_seqs_def utf8_def byte_char_def plain_def)

lemma TrimSpace_plain:
  assumes "s = [] \<or> plain (hd s) \<and> plain (last s)"
  shows "TrimSpace s = s"
proof -
  have keep: "trim_left_seqs ps t = t" if "\<forall>p \<in> set ps. \<not> plain (hd p)" "[] \<notin> set ps"
      "t = [] \<or> plain (hd t)" for ps t
  proof -
    have "drop_prefix ps t = None" by (rule drop_prefix_None) (use that in auto)
    then show ?thesis by (simp add: trim_left_seqs.simps [of ps t])
  qed
  have "[] \<notin> set (map rev space_seqs)" using space_seqs_nonempty by auto
  then show ?thesis
    using assms keep [OF space_bytes(1) space_seqs_nonempty, of s] keep [OF space_bytes(2), of "rev s"]
    by (auto simp: TrimSpace_def TrimLeftSpace_def TrimRightSpace_def hd_rev)
qed

section \<open>Case\<close>

definition lower_char :: "char \<Rightarrow> char" where
  "lower_char c = (if 65 \<le> (of_char c :: nat) \<and> (of_char c :: nat) \<le> 90
     then char_of ((of_char c :: nat) + 32) else c)"

text \<open>Of the characters beyond ASCII, only the Kelvin sign has an ASCII lower case, the letter k.\<close>

fun ToLower :: "string \<Rightarrow> string" where
  "ToLower [] = []"
| "ToLower (c # s) =
     (if take 3 (c # s) = utf8 [0xE2, 0x84, 0xAA] then CHR ''k'' # ToLower (drop 2 s)
      else lower_char c # ToLower s)"

definition EqualFold :: "string \<Rightarrow> string \<Rightarrow> bool" where
  "EqualFold s t \<longleftrightarrow> ToLower s = ToLower t"

section \<open>Splitting\<close>

fun split_at :: "char \<Rightarrow> string \<Rightarrow> string \<times> string option" where
  "split_at sep [] = ([], None)"
| "split_at sep (c # s) =
     (if c = sep then ([], Some s) else let (a, b) = split_at sep s in (c # a, b))"

text \<open>\<open>strings.Cut\<close> and \<open>strings.SplitN(s, sep, 2)\<close> for a separator of one byte.\<close>

definition Cut :: "string \<Rightarrow> char \<Rightarrow> (string \<times> string) option" where
  "Cut s sep = (case split_at sep s of (a, Some b) \<Rightarrow> Some (a, b) | (a, None) \<Rightarrow> None)"

lemma split_at_shorter: "split_at sep s = (a, Some b) \<Longrightarrow> length b < length s"
  by (induction s arbitrary: a) (auto split: if_splits prod.splits)

function Split :: "string \<Rightarrow> char \<Rightarrow> string list" where
  "Split s sep = (case split_at sep s of (a, None) \<Rightarrow> [a] | (a, Some b) \<Rightarrow> a # Split b sep)"
  by pat_completeness auto
termination
  by (relation "measure (\<lambda>(s, sep). length s)") (auto dest: split_at_shorter [OF sym])

declare Split.simps [simp del]

lemma Split_nonempty [simp]: "Split s sep \<noteq> []"
  by (subst Split.simps) (auto split: prod.splits option.splits)

definition HasPrefix :: "string \<Rightarrow> string \<Rightarrow> bool" where
  "HasPrefix s p \<longleftrightarrow> take (length p) s = p"

definition TrimPrefix :: "string \<Rightarrow> string \<Rightarrow> string" where
  "TrimPrefix s p = (if HasPrefix s p then drop (length p) s else s)"

lemma HasPrefix_iff: "HasPrefix s p \<longleftrightarrow> (\<exists>t. s = p @ t)"
  by (metis HasPrefix_def append_eq_conv_conj append_take_drop_id)

lemma TrimPrefix_append [simp]: "TrimPrefix (p @ t) p = t"
  by (simp add: TrimPrefix_def HasPrefix_def)

definition HasSuffix :: "string \<Rightarrow> string \<Rightarrow> bool" where
  "HasSuffix s p \<longleftrightarrow> length p \<le> length s \<and> drop (length s - length p) s = p"

section \<open>Numbers\<close>

definition digit_char :: "nat \<Rightarrow> char" where
  "digit_char d = char_of (48 + d)"

fun nat_digits :: "nat \<Rightarrow> string" where
  "nat_digits n = (if n < 10 then [digit_char n] else nat_digits (n div 10) @ [digit_char (n mod 10)])"

declare nat_digits.simps [simp del]

definition Itoa :: "int \<Rightarrow> string" where
  "Itoa i = (if i < 0 then CHR ''-'' # nat_digits (nat (- i)) else nat_digits (nat i))"

definition digit_val :: "char \<Rightarrow> nat option" where
  "digit_val c = (if 48 \<le> (of_char c :: nat) \<and> (of_char c :: nat) \<le> 57
     then Some ((of_char c :: nat) - 48) else None)"

datatype num_err = ErrSyntax | ErrRange

text \<open>
  \<open>strconv.ParseUint(s, 10, bits)\<close>: an empty string or a byte that is not a digit is a syntax
  error, a value beyond the width a range error, whichever is found first in reading order.
\<close>

fun parse_digits :: "nat \<Rightarrow> nat \<Rightarrow> string \<Rightarrow> num_err + nat" where
  "parse_digits limit n [] = Inr n"
| "parse_digits limit n (c # s) =
     (case digit_val c of None \<Rightarrow> Inl ErrSyntax
      | Some d \<Rightarrow> if 10 * n + d > limit then Inl ErrRange else parse_digits limit (10 * n + d) s)"

definition ParseUint :: "nat \<Rightarrow> string \<Rightarrow> num_err + nat" where
  "ParseUint bits s = (if s = [] then Inl ErrSyntax else parse_digits (2 ^ bits - 1) 0 s)"

text \<open>
  \<open>strconv.ParseInt(s, 10, bits)\<close>: an optional sign, then \<open>ParseUint\<close> of the same width, then
  the signed range. \<open>strconv.Atoi\<close> is this with 64 bits.
\<close>

definition ParseInt :: "nat \<Rightarrow> string \<Rightarrow> num_err + int" where
  "ParseInt bits s =
     (case s of [] \<Rightarrow> Inl ErrSyntax
      | c # t \<Rightarrow>
        let neg = (c = CHR ''-''); u = (if c = CHR ''-'' \<or> c = CHR ''+'' then t else s)
        in case ParseUint bits u of
             Inl e \<Rightarrow> Inl e
           | Inr n \<Rightarrow>
             if \<not> neg \<and> n \<ge> 2 ^ (bits - 1) then Inl ErrRange
             else if neg \<and> n > 2 ^ (bits - 1) then Inl ErrRange
             else Inr (if neg then - int n else int n))"

lemma ParseUint_digits: "n < 2 ^ bits \<Longrightarrow> ParseUint bits (nat_digits n) = Inr n"
proof -
  have app: "parse_digits l a (s @ t) = (case parse_digits l a s of Inl e \<Rightarrow> Inl e | Inr m \<Rightarrow> parse_digits l m t)"
    for l a s t by (induction s arbitrary: a) (auto split: option.splits)
  have digit: "digit_val (digit_char d) = Some d" if "d < 10" for d
    using that by (simp add: digit_val_def digit_char_def)
  have "parse_digits l 0 (nat_digits n) = Inr n" if "n \<le> l" for l
    using that
  proof (induction n rule: nat_digits.induct)
    case (1 n)
    show ?case
    proof (cases "n < 10")
      case True
      with 1(2) show ?thesis by (simp add: nat_digits.simps [of n] digit)
    next
      case False
      with 1 have "parse_digits l 0 (nat_digits (n div 10)) = Inr (n div 10)" by simp
      with False 1(2) show ?thesis by (simp add: nat_digits.simps [of n] app digit)
    qed
  qed
  moreover have "nat_digits n \<noteq> []" by (simp add: nat_digits.simps [of n])
  moreover assume "n < 2 ^ bits"
  ultimately show ?thesis by (simp add: ParseUint_def)
qed

text \<open>The text of a number that is not negative is made of digits, and is read back.\<close>

lemma nat_digits_digits: "\<forall>c \<in> set (nat_digits n). 48 \<le> (of_char c :: nat) \<and> (of_char c :: nat) \<le> 57"
  by (induction n rule: nat_digits.induct) (subst nat_digits.simps, auto simp: digit_char_def)

lemma nat_digits_nonempty: "nat_digits n \<noteq> []"
  by (simp add: nat_digits.simps [of n])

lemma ParseInt_Itoa: "0 \<le> i \<Longrightarrow> i < 2 ^ 63 \<Longrightarrow> ParseInt 64 (Itoa i) = Inr i"
proof -
  assume i: "0 \<le> i" "i < 2 ^ 63"
  then have "nat i < 2 ^ 63" by simp
  then have u: "ParseUint 64 (nat_digits (nat i)) = Inr (nat i)" by (intro ParseUint_digits) simp
  obtain c t where c: "nat_digits (nat i) = c # t" using nat_digits_nonempty by (cases "nat_digits (nat i)") auto
  with nat_digits_digits [of "nat i"] have "c \<noteq> CHR ''-''" "c \<noteq> CHR ''+''" by auto
  with u c i \<open>nat i < 2 ^ 63\<close> show ?thesis by (simp add: ParseInt_def Itoa_def Let_def)
qed

end
