(* ===== verification/Memory.thy ===== *)
theory Memory
  imports Transport Queue Go_Strings
begin

text \<open>
  The in-process transport of internal/transport/memory: connection pairs, their operations, the
  registry of listeners, and the wake-up protocol of a blocked \<open>Recv\<close>. Connections and
  listeners are numbered in order of creation; the world maps the numbers to their state.
\<close>

section \<open>State\<close>

record mem_conn =
  mc_closed :: bool
  mc_inbound :: "bytes list"
  mc_notify :: bool
  mc_peer :: nat

record mem_listener =
  ml_addr :: string
  ml_closed :: bool
  ml_notify :: bool
  ml_pending :: "(nat \<times> nat) list"

record mem_world =
  mw_conn :: "nat \<Rightarrow> mem_conn"
  mw_next :: nat
  mw_listener :: "nat \<Rightarrow> mem_listener"
  mw_nextl :: nat
  mw_registry :: "string \<rightharpoonup> nat"

definition set_conn :: "nat \<Rightarrow> mem_conn \<Rightarrow> mem_world \<Rightarrow> mem_world" where
  "set_conn c k w = w\<lparr>mw_conn := (mw_conn w)(c := k)\<rparr>"

definition set_listener :: "nat \<Rightarrow> mem_listener \<Rightarrow> mem_world \<Rightarrow> mem_world" where
  "set_listener l k w = w\<lparr>mw_listener := (mw_listener w)(l := k)\<rparr>"

text \<open>No connection and no listener yet; what has not been created counts as closed.\<close>

definition mem_init :: mem_world where
  "mem_init = \<lparr>
     mw_conn = (\<lambda>_. \<lparr>mc_closed = True, mc_inbound = [], mc_notify = False, mc_peer = 0\<rparr>),
     mw_next = 0,
     mw_listener = (\<lambda>_. \<lparr>ml_addr = '''', ml_closed = True, ml_notify = False, ml_pending = []\<rparr>),
     mw_nextl = 0,
     mw_registry = Map.empty\<rparr>"

section \<open>Connections\<close>

definition newPair :: "mem_world \<Rightarrow> nat \<times> nat \<times> mem_world" where
  "newPair w =
     (let a = mw_next w; b = Suc a;
          w = set_conn a \<lparr>mc_closed = False, mc_inbound = [], mc_notify = False, mc_peer = b\<rparr> w;
          w = set_conn b \<lparr>mc_closed = False, mc_inbound = [], mc_notify = False, mc_peer = a\<rparr> w
      in (a, b, w\<lparr>mw_next := Suc b\<rparr>))"

definition Conn_Send :: "nat \<Rightarrow> ctx \<Rightarrow> bytes \<Rightarrow> mem_world \<Rightarrow> terr option \<times> mem_world" where
  "Conn_Send c ctx payload w =
     (if mc_closed (mw_conn w c) then (Some ErrClosed, w)
      else case ctx of
        Some e \<Rightarrow> (Some (ErrCtx e), w)
      | None \<Rightarrow>
        let p = mc_peer (mw_conn w c); kp = mw_conn w p in
        if mc_closed kp then (Some ErrClosed, w)
        else (None, set_conn p (kp\<lparr>mc_inbound := mc_inbound kp @ [payload], mc_notify := True\<rparr>) w))"

text \<open>
  \<open>Recv\<close> until it returns or blocks: with nothing queued the pending notification is consumed
  and the queue checked again, then it waits unless the context is done.
\<close>

definition Conn_Recv :: "nat \<Rightarrow> ctx \<Rightarrow> mem_world \<Rightarrow> (terr + bytes) option \<times> mem_world" where
  "Conn_Recv c ctx w =
     (let k = mw_conn w c in
      if mc_closed k then (Some (Inl ErrClosed), w)
      else case mc_inbound k of
        p # rest \<Rightarrow> (Some (Inr p), set_conn c (k\<lparr>mc_inbound := rest\<rparr>) w)
      | [] \<Rightarrow>
        (case ctx of
           Some e \<Rightarrow> (Some (Inl (ErrCtx e)), w)
         | None \<Rightarrow> (None, set_conn c (k\<lparr>mc_notify := False\<rparr>) w)))"

definition markClosed :: "nat \<Rightarrow> mem_world \<Rightarrow> terr option \<times> mem_world" where
  "markClosed c w =
     (let k = mw_conn w c in
      if mc_closed k then (Some ErrClosed, w) else (None, set_conn c (k\<lparr>mc_closed := True\<rparr>) w))"

definition Conn_Close :: "nat \<Rightarrow> mem_world \<Rightarrow> terr option \<times> mem_world" where
  "Conn_Close c w =
     (let (err, w) = markClosed c w in (err, snd (markClosed (mc_peer (mw_conn w c)) w)))"

definition mem_open :: "nat \<Rightarrow> mem_world \<Rightarrow> bool" where
  "mem_open c w \<longleftrightarrow> \<not> mc_closed (mw_conn w c)"

text \<open>A send of this transport never waits.\<close>

definition mem_send :: "nat \<Rightarrow> ctx \<Rightarrow> bytes \<Rightarrow> mem_world \<Rightarrow> terr option option \<times> mem_world" where
  "mem_send c x p w = map_prod Some id (Conn_Send c x p w)"

lemmas mem_defs = mem_open_def mem_send_def Conn_Send_def Conn_Recv_def Conn_Close_def
  markClosed_def set_conn_def Let_def

interpretation mem: engine_conn mem_open "\<lambda>_. True" mem_send Conn_Recv Conn_Close
  by unfold_locales (auto simp: mem_defs split: option.splits list.splits prod.splits)

text \<open>The queue from one end of an open pair to the other.\<close>

definition mem_rel :: "nat \<Rightarrow> nat \<Rightarrow> mem_world \<Rightarrow> bytes list \<Rightarrow> bool" where
  "mem_rel a b w ms \<longleftrightarrow> mem_open a w \<and> mem_open b w \<and> mc_peer (mw_conn w a) = b \<and>
     mc_inbound (mw_conn w b) = ms"

definition mem_snd :: "nat \<Rightarrow> bytes \<Rightarrow> mem_world \<Rightarrow> bool \<times> mem_world" where
  "mem_snd a m w = (case Conn_Send a None m w of (e, w) \<Rightarrow> (e = None, w))"

definition mem_rcv :: "nat \<Rightarrow> mem_world \<Rightarrow> bytes option \<times> mem_world" where
  "mem_rcv b w = (case Conn_Recv b None w of
     (Some (Inr m), w) \<Rightarrow> (Some m, w) | (_, w) \<Rightarrow> (None, w))"

interpretation mem_queue: fifo "mem_rel a b" "mem_snd a" "mem_rcv b" "\<lambda>_. True" for a b
  by unfold_locales
    (auto simp: mem_rel_def mem_snd_def mem_rcv_def mem_defs split: list.splits if_splits)

section \<open>Listeners\<close>

definition Listen :: "string \<Rightarrow> mem_world \<Rightarrow> (terr + nat) \<times> mem_world" where
  "Listen addr w =
     (if TrimSpace addr = '''' then (Inl (ErrOther ''memory: address must be non-empty''), w)
      else if mw_registry w addr \<noteq> None then (Inl (ErrOther ''memory: address already in use''), w)
      else
        let l = mw_nextl w in
        (Inr l, (set_listener l \<lparr>ml_addr = addr, ml_closed = False, ml_notify = False,
                   ml_pending = []\<rparr> w)\<lparr>mw_nextl := Suc l, mw_registry := (mw_registry w)(addr \<mapsto> l)\<rparr>))"

definition Listener_dial :: "nat \<Rightarrow> mem_world \<Rightarrow> (terr + nat) \<times> mem_world" where
  "Listener_dial l w =
     (let k = mw_listener w l in
      if ml_closed k then (Inl ErrClosed, w)
      else
        let (a, e, w) = newPair w in
        (Inr a, set_listener l (k\<lparr>ml_pending := ml_pending k @ [(a, e)], ml_notify := True\<rparr>) w))"

definition Dial :: "string \<Rightarrow> mem_world \<Rightarrow> (terr + nat) \<times> mem_world" where
  "Dial addr w =
     (case mw_registry w addr of
        None \<Rightarrow> (Inl (ErrOther ''memory: no listener at address''), w)
      | Some l \<Rightarrow> Listener_dial l w)"

definition Accept :: "nat \<Rightarrow> mem_world \<Rightarrow> (terr + nat) option \<times> mem_world" where
  "Accept l w =
     (let k = mw_listener w l in
      if ml_closed k then (Some (Inl ErrClosed), w)
      else case ml_pending k of
        p # rest \<Rightarrow> (Some (Inr (snd p)), set_listener l (k\<lparr>ml_pending := rest\<rparr>) w)
      | [] \<Rightarrow> (None, set_listener l (k\<lparr>ml_notify := False\<rparr>) w))"

definition Listener_Close :: "nat \<Rightarrow> mem_world \<Rightarrow> terr option \<times> mem_world" where
  "Listener_Close l w =
     (let k = mw_listener w l in
      if ml_closed k then (Some ErrClosed, w)
      else
        let w = set_listener l (k\<lparr>ml_closed := True\<rparr>) w in
        (None, if mw_registry w (ml_addr k) = Some l
               then w\<lparr>mw_registry := (mw_registry w)(ml_addr k := None)\<rparr> else w))"

text \<open>The registry holds exactly the open listeners, each under its own address.\<close>

definition registry_ok :: "mem_world \<Rightarrow> bool" where
  "registry_ok w \<longleftrightarrow>
     (\<forall>addr l. mw_registry w addr = Some l \<longleftrightarrow>
        l < mw_nextl w \<and> \<not> ml_closed (mw_listener w l) \<and> ml_addr (mw_listener w l) = addr) \<and>
     (\<forall>l. mw_nextl w \<le> l \<longrightarrow> ml_closed (mw_listener w l))"

datatype mem_call = MListen string | MDial string | MAccept nat | MShut nat

fun mem_step :: "mem_call \<Rightarrow> mem_world \<Rightarrow> mem_world" where
  "mem_step (MListen addr) w = snd (Listen addr w)"
| "mem_step (MDial addr) w = snd (Dial addr w)"
| "mem_step (MAccept l) w = snd (Accept l w)"
| "mem_step (MShut l) w = snd (Listener_Close l w)"

lemmas listener_defs = Listen_def Listener_dial_def Dial_def Accept_def Listener_Close_def
  newPair_def set_conn_def set_listener_def Let_def

lemma mem_step_registry_ok:
  assumes "registry_ok w"
  shows "registry_ok (mem_step call w)"
proof (cases call)
  case (MListen addr)
  with assms show ?thesis
    unfolding registry_ok_def by (auto simp: listener_defs less_Suc_eq)
next
  case (MDial addr)
  with assms show ?thesis
    unfolding registry_ok_def by (auto simp: listener_defs split: option.splits)
next
  case (MAccept l)
  with assms show ?thesis
    unfolding registry_ok_def by (auto simp: listener_defs split: list.splits)
next
  case (MShut l)
  with assms show ?thesis
    unfolding registry_ok_def by (auto simp: listener_defs) (metis option.inject)
qed

lemma registry_ok_init: "registry_ok mem_init"
  by (simp add: registry_ok_def mem_init_def)

lemma mem_fold_registry_ok: "registry_ok w \<Longrightarrow> registry_ok (fold mem_step calls w)"
  by (induction calls arbitrary: w) (simp_all add: mem_step_registry_ok)

section \<open>Waking a blocked receiver\<close>

text \<open>
  The critical sections of \<open>Send\<close> and \<open>Recv\<close> as atomic steps of one end's queue, its one-slot
  notification channel and its receivers: a receiver is about to check the queue, has found it
  empty and released the lock, or waits in the select. A notification sent while a receiver
  waits is handed to that receiver; otherwise it fills the slot, and is dropped if the slot is
  full.
\<close>

datatype receiver = Checking | Unlocked | Waiting

record wake =
  wk_inbound :: "bytes list"
  wk_token :: bool
  wk_rcv :: "nat \<Rightarrow> receiver"

definition wake_init :: wake where
  "wake_init = \<lparr>wk_inbound = [], wk_token = False, wk_rcv = (\<lambda>_. Checking)\<rparr>"

inductive wake_step :: "nat \<Rightarrow> wake \<Rightarrow> wake \<Rightarrow> bool" for n :: nat where
  send_wake: "r < n \<Longrightarrow> wk_rcv s r = Waiting \<Longrightarrow>
    wake_step n s (s\<lparr>wk_inbound := wk_inbound s @ [p], wk_rcv := (wk_rcv s)(r := Checking)\<rparr>)"
| send_token: "(\<forall>r < n. wk_rcv s r \<noteq> Waiting) \<Longrightarrow>
    wake_step n s (s\<lparr>wk_inbound := wk_inbound s @ [p], wk_token := True\<rparr>)"
| check_take: "r < n \<Longrightarrow> wk_rcv s r = Checking \<Longrightarrow> wk_inbound s = p # rest \<Longrightarrow>
    wake_step n s (s\<lparr>wk_inbound := rest\<rparr>)"
| check_empty: "r < n \<Longrightarrow> wk_rcv s r = Checking \<Longrightarrow> wk_inbound s = [] \<Longrightarrow>
    wake_step n s (s\<lparr>wk_rcv := (wk_rcv s)(r := Unlocked)\<rparr>)"
| select_token: "r < n \<Longrightarrow> wk_rcv s r = Unlocked \<Longrightarrow> wk_token s \<Longrightarrow>
    wake_step n s (s\<lparr>wk_token := False, wk_rcv := (wk_rcv s)(r := Checking)\<rparr>)"
| select_wait: "r < n \<Longrightarrow> wk_rcv s r = Unlocked \<Longrightarrow> \<not> wk_token s \<Longrightarrow>
    wake_step n s (s\<lparr>wk_rcv := (wk_rcv s)(r := Waiting)\<rparr>)"

inductive wake_reach :: "nat \<Rightarrow> wake \<Rightarrow> bool" for n :: nat where
  start: "wake_reach n wake_init"
| step: "wake_reach n s \<Longrightarrow> wake_step n s s' \<Longrightarrow> wake_reach n s'"

lemma wake_single_inv:
  "wake_reach 1 s \<Longrightarrow>
     (wk_rcv s 0 = Waiting \<longrightarrow> wk_inbound s = []) \<and>
     (wk_rcv s 0 = Unlocked \<and> wk_inbound s \<noteq> [] \<longrightarrow> wk_token s)"
proof (induction rule: wake_reach.induct)
  case start
  then show ?case by (simp add: wake_init_def)
next
  case (step s s')
  from step.hyps(2) step.IH show ?case
    by (cases rule: wake_step.cases) auto
qed

section \<open>Properties\<close>

text \<open>
  after a connection of the memory transport has been closed, from either end, every further
  operation on it reports \<open>ErrClosed\<close>, whatever its context, and only the first \<open>Close\<close> of an
  open end succeeds.
\<close>

theorem mem_close_final:
  assumes "mem_open c w"
  shows "fst (run_calls mem_send Conn_Recv Conn_Close c (CallClose # cs) w) =
      Closing None # map closed_reply cs \<and>
    fst (run_calls mem_send Conn_Recv Conn_Close (mc_peer (mw_conn w c)) cs (snd (Conn_Close c w))) =
      map closed_reply cs"
proof -
  have "\<not> mem_open (mc_peer (mw_conn w c)) (snd (Conn_Close c w))"
    by (auto simp: mem_defs split: prod.splits)
  then show ?thesis using mem.calls_after_close [OF assms] mem.calls_closed by simp
qed

theorem mem_close_final_witness:
  "fst (run_calls mem_send Conn_Recv Conn_Close 0 [CallClose, CallSend None [1], CallRecv (Some Canceled)]
      (snd (snd (newPair mem_init)))) =
   [Closing None, Sent (Some (Some ErrClosed)), Received (Some (Inl ErrClosed))]"
proof -
  have "mem_open 0 (snd (snd (newPair mem_init)))"
    by (simp add: mem_open_def newPair_def Let_def set_conn_def mem_init_def)
  from mem_close_final [OF this, of "[CallSend None [1], CallRecv (Some Canceled)]"]
  show ?thesis by simp
qed

text \<open>
  C27: between the two ends of an open pair of the memory transport, any history of sends and
  receives delivers the payloads in order, each exactly once, starting with those already
  queued.
\<close>

theorem mem_history_fifo:
  assumes "mem_rel a b w ms" and "run_queue (mem_snd a) (mem_rcv b) ops w = (acc, del, w')"
  shows "\<exists>rest. ms @ acc = del @ rest \<and> mem_rel a b w' rest"
  using mem_queue.run_rel [OF assms(1) _ assms(2)] by simp

theorem mem_history_fifo_witness:
  "mem_rel 0 1 (snd (snd (newPair mem_init))) [] \<and>
   (\<exists>acc del w' rest. run_queue (mem_snd 0) (mem_rcv 1) [Snd [7], Snd [8, 9], Rcv]
      (snd (snd (newPair mem_init))) = (acc, del, w') \<and> acc = del @ rest)"
proof -
  have rel: "mem_rel 0 1 (snd (snd (newPair mem_init))) []"
    by (simp add: mem_rel_def mem_open_def newPair_def Let_def set_conn_def mem_init_def)
  obtain acc del w' where run: "run_queue (mem_snd 0) (mem_rcv 1) [Snd [7], Snd [8, 9], Rcv]
      (snd (snd (newPair mem_init))) = (acc, del, w')"
    using prod_cases3 by blast
  from mem_history_fifo [OF rel run] rel run show ?thesis by auto
qed

text \<open>
  over any sequence of listens, dials, accepts and closes, the registry holds exactly the
  open listeners, each under its own address; so an address can be listened on exactly when it is
  not blank and no open listener has it, and a closed listener's address is free again.
\<close>

theorem mem_registry_exact:
  "let w = fold mem_step calls mem_init in
   (is_err (fst (Listen addr w)) \<longleftrightarrow> TrimSpace addr = '''' \<or>
      (\<exists>l. \<not> ml_closed (mw_listener w l) \<and> ml_addr (mw_listener w l) = addr)) \<and>
   (is_err (fst (Dial addr w)) \<longleftrightarrow>
      \<not> (\<exists>l. \<not> ml_closed (mw_listener w l) \<and> ml_addr (mw_listener w l) = addr))"
proof -
  define w where "w = fold mem_step calls mem_init"
  have ok: "registry_ok w" unfolding w_def by (rule mem_fold_registry_ok [OF registry_ok_init])
  then have reg: "mw_registry w addr \<noteq> None \<longleftrightarrow>
      (\<exists>l. \<not> ml_closed (mw_listener w l) \<and> ml_addr (mw_listener w l) = addr)"
    unfolding registry_ok_def by (metis not_None_eq not_le)
  have "is_err (fst (Dial addr w)) \<longleftrightarrow> mw_registry w addr = None"
  proof (cases "mw_registry w addr")
    case None
    then show ?thesis by (simp add: Dial_def)
  next
    case (Some l)
    then have "\<not> ml_closed (mw_listener w l)" using ok by (simp add: registry_ok_def)
    with Some show ?thesis by (auto simp: Dial_def Listener_dial_def Let_def split: prod.splits)
  qed
  with reg show ?thesis
    by (auto simp: w_def [symmetric] Let_def Listen_def)
qed

text \<open>
  with one receiver no wake-up is lost: in every reachable state of the notification
  protocol the receiver waits only while its queue is empty.
\<close>

theorem mem_wakeup_single:
  assumes "wake_reach 1 s" and "wk_rcv s 0 = Waiting"
  shows "wk_inbound s = []"
  using wake_single_inv [OF assms(1)] assms(2) by simp

theorem mem_wakeup_single_witness:
  "wk_inbound (wake_init\<lparr>wk_rcv := (\<lambda>_. Checking)(0 := Waiting)\<rparr>) = []"
proof (rule mem_wakeup_single)
  have "wake_step 1 wake_init (wake_init\<lparr>wk_rcv := (wk_rcv wake_init)(0 := Unlocked)\<rparr>)"
    by (rule check_empty) (simp_all add: wake_init_def)
  moreover have "wake_step 1 (wake_init\<lparr>wk_rcv := (wk_rcv wake_init)(0 := Unlocked)\<rparr>)
      (wake_init\<lparr>wk_rcv := (\<lambda>_. Checking)(0 := Waiting)\<rparr>)"
    using select_wait [of 0 1 "wake_init\<lparr>wk_rcv := (wk_rcv wake_init)(0 := Unlocked)\<rparr>"]
    by (simp add: wake_init_def)
  ultimately show "wake_reach 1 (wake_init\<lparr>wk_rcv := (\<lambda>_. Checking)(0 := Waiting)\<rparr>)"
    by (meson wake_reach.intros)
qed simp

text \<open>
  with two receivers a wake-up can be lost: a reachable state has a receiver waiting, with
  no notification pending, although a message is queued.
\<close>

theorem mem_wakeup_lost:
  "\<exists>s. wake_reach 2 s \<and> wk_rcv s 1 = Waiting \<and> wk_inbound s \<noteq> [] \<and> \<not> wk_token s"
proof -
  let ?st = "\<lambda>q t f. \<lparr>wk_inbound = q, wk_token = t, wk_rcv = f\<rparr>"
  let ?fa = "\<lambda>_. Checking" let ?fb = "?fa(0 := Unlocked)" let ?fc = "?fb(1 := Unlocked)"
  let ?fd = "?fc(0 := Checking)" let ?fe = "?fd(1 := Waiting)"
  have "wake_reach 2 (?st [] False ?fa)" using start [of 2] by (simp add: wake_init_def)
  then have "wake_reach 2 (?st [] False ?fb)"
    by (rule step) (use check_empty [of 0 2 "?st [] False ?fa"] in simp)
  then have "wake_reach 2 (?st [] False ?fc)"
    by (rule step) (use check_empty [of 1 2 "?st [] False ?fb"] in simp)
  then have "wake_reach 2 (?st [[1]] True ?fc)"
    by (rule step) (use send_token [of 2 "?st [] False ?fc" "[1]"] in \<open>auto simp: less_2_cases_iff\<close>)
  then have "wake_reach 2 (?st [[1], [2]] True ?fc)"
    by (rule step) (use send_token [of 2 "?st [[1]] True ?fc" "[2]"] in \<open>auto simp: less_2_cases_iff\<close>)
  then have "wake_reach 2 (?st [[1], [2]] False ?fd)"
    by (rule step) (use select_token [of 0 2 "?st [[1], [2]] True ?fc"] in simp)
  then have "wake_reach 2 (?st [[2]] False ?fd)"
    by (rule step) (use check_take [of 0 2 "?st [[1], [2]] False ?fd" "[1]" "[[2]]"] in simp)
  then have "wake_reach 2 (?st [[2]] False ?fe)"
    by (rule step) (use select_wait [of 1 2 "?st [[2]] False ?fd"] in simp)
  then show ?thesis by (intro exI [of _ "?st [[2]] False ?fe"]) simp
qed

end
