(* ===== verification/Ring_Cells.thy ===== *)
theory Ring_Cells
  imports Ring
begin

text \<open>
  The ring without its byte encoding: \<open>cells\<close> holds the positions as numbers, the management
  entries as a list and the data segments as one byte sequence. Every operation of theory Ring
  is shown to act on the cells of the buffer like the corresponding operation here, which has no
  32-bit arithmetic and no header offsets; the queue behaviour is then proved on cells.
\<close>

section \<open>Cells\<close>

record cells =
  c_S :: nat
  c_rp :: nat
  c_wp :: nat
  c_mg :: "u16 list"
  c_data :: bytes

abbreviation c_N :: "cells \<Rightarrow> nat" where
  "c_N c \<equiv> length (c_mg c)"

definition segs :: "nat \<Rightarrow> nat \<Rightarrow> nat" where
  "segs S k = (k + S - 1) div S"

text \<open>Setting the entries from \<open>lo\<close> up to but excluding \<open>hi\<close>.\<close>

definition fill :: "nat \<Rightarrow> nat \<Rightarrow> 'a \<Rightarrow> 'a list \<Rightarrow> 'a list" where
  "fill lo hi v xs = map (\<lambda>i. if lo \<le> i \<and> i < hi then v else xs ! i) [0..<length xs]"

lemma length_fill [simp]: "length (fill lo hi v xs) = length xs"
  by (simp add: fill_def)

lemma nth_fill [simp]:
  "i < length xs \<Longrightarrow> fill lo hi v xs ! i = (if lo \<le> i \<and> i < hi then v else xs ! i)"
  by (simp add: fill_def)

lemma fill_empty [simp]: "hi \<le> lo \<Longrightarrow> fill lo hi v xs = xs"
  by (rule nth_equalityI) auto

lemma fill_step:
  "lo < hi \<Longrightarrow> fill (Suc lo) hi v (xs[lo := v]) = fill lo hi v xs"
  by (rule nth_equalityI) (auto simp: nth_list_update)

text \<open>The end of the run of skip entries that starts at \<open>i\<close>.\<close>

function skip_end :: "nat \<Rightarrow> u16 list \<Rightarrow> nat" where
  "skip_end i xs =
     (if i < length xs \<and> xs ! i = MagicSkipSegment then skip_end (Suc i) xs else i)"
  by pat_completeness auto
termination
  by (relation "measure (\<lambda>(i, xs). length xs - i)") auto

declare skip_end.simps [simp del]

lemma skip_end_update: "skip_end (Suc i) (xs[i := v]) = skip_end (Suc i) xs"
proof -
  have "skip_end k (xs[i := v]) = skip_end k xs" if "i < k" for k
    using that
    by (induction k xs rule: skip_end.induct)
      (simp add: skip_end.simps [of _ "_[i := v]"] skip_end.simps [of _ xs for xs])
  then show ?thesis by simp
qed

section \<open>Operations on cells\<close>

definition c_enough :: "nat \<Rightarrow> nat \<Rightarrow> nat \<Rightarrow> nat \<Rightarrow> bool" where
  "c_enough N w r n =
     (if n \<ge> N then False
      else
        let n' = (if w + n > N then n + (N - w) else n);
            r' = (if w + n' \<ge> N then r + N else r)
        in w + n' < r' \<or> w \<ge> r')"

text \<open>The effect of an accepted message of \<open>n\<close> segments, written at segment \<open>s\<close>.\<close>

definition c_store :: "nat \<Rightarrow> nat \<Rightarrow> bytes \<Rightarrow> cells \<Rightarrow> cells" where
  "c_store s n m c =
     c\<lparr>c_mg := fill (s + 1) (s + n) MagicSkipSegment ((c_mg c)[s := word_of_nat (length m)]),
       c_data := overwrite (s * c_S c) m (c_data c),
       c_wp := (if max (s + 1) (s + n) \<ge> c_N c then 0 else max (s + 1) (s + n))\<rparr>"

definition c_push :: "bytes \<Rightarrow> cells \<Rightarrow> ring_err option \<times> cells" where
  "c_push m c =
     (let n = segs (c_S c) (length m); w = c_wp c in
      if length m > 65532 then (Some RingTooLarge, c)
      else if \<not> c_enough (c_N c) w (c_rp c) n then (Some RingFull, c)
      else if w + n > c_N c
        then (None, c_store 0 n m (c\<lparr>c_mg := fill w (c_N c) MagicSkipSegment (c_mg c)\<rparr>))
      else (None, c_store w n m c))"

definition c_peek :: "cells \<Rightarrow> (ring_err + (nat \<times> nat)) \<times> cells" where
  "c_peek c =
     (if c_rp c = c_wp c then (Inl RingEmpty, c)
      else
        let j = skip_end (c_rp c) (c_mg c);
            c' = c\<lparr>c_mg := fill (c_rp c) j MagicEmptySegment (c_mg c)\<rparr>;
            p = (if j = c_N c then 0 else j);
            m = c_mg c' ! p
        in if m \<in> {MagicEmptySegment, MagicSkipSegment} \<or> unat m > 65532
           then (Inl RingCorrupt, c')
           else (Inr (unat m, p), c'\<lparr>c_rp := p\<rparr>))"

definition c_pop :: "cells \<Rightarrow> ring_err option \<times> cells" where
  "c_pop c =
     (if c_rp c = c_wp c then (Some RingEmpty, c)
      else
        let n = segs (c_S c) (unat (c_mg c ! c_rp c));
            e = c_rp c + n;
            c' = c\<lparr>c_mg := fill (c_rp c) e MagicEmptySegment (c_mg c)\<rparr>
        in if e < c_N c \<and> c_mg c' ! e = MagicSkipSegment
           then (None, c'\<lparr>c_mg := fill e (c_N c) MagicEmptySegment (c_mg c'), c_rp := 0\<rparr>)
           else (None, c'\<lparr>c_rp := (if e = c_N c then 0 else e)\<rparr>))"

section \<open>The cells of a buffer\<close>

definition ring_geom :: "ring \<Rightarrow> bool" where
  "ring_geom r \<longleftrightarrow>
     (unat (rg_segSize r) = 1024 \<or> unat (rg_segSize r) = 4096) \<and>
     unat (rg_dataBase r) = 82 + unat (rg_segSize r) \<and>
     1 \<le> unat (rg_numSegs r) \<and> unat (rg_numSegs r) \<le> 2048 \<and>
     2 * unat (rg_numSegs r) \<le> unat (rg_segSize r) \<and>
     82 + unat (rg_segSize r) + unat (rg_numSegs r) * unat (rg_segSize r) \<le> length (rg_buf r)"

definition cells_of :: "ring \<Rightarrow> cells" where
  "cells_of r = \<lparr>
     c_S = unat (rg_segSize r),
     c_rp = unat (r_readPos r),
     c_wp = unat (r_writePos r),
     c_mg = map (\<lambda>i. get16 (82 + i * 2) (rg_buf r)) [0..<unat (rg_numSegs r)],
     c_data = slice (82 + unat (rg_segSize r)) (unat (rg_numSegs r) * unat (rg_segSize r)) (rg_buf r)\<rparr>"

lemma cells_of_N [simp]: "c_N (cells_of r) = unat (rg_numSegs r)"
  by (simp add: cells_of_def)

lemma cells_of_S [simp]: "c_S (cells_of r) = unat (rg_segSize r)"
  by (simp add: cells_of_def)

lemma cells_of_rp: "c_rp (cells_of r) = unat (r_readPos r)"
  by (simp add: cells_of_def)

lemma cells_of_wp: "c_wp (cells_of r) = unat (r_writePos r)"
  by (simp add: cells_of_def)

lemma ring_geomD:
  assumes "ring_geom r"
  shows "unat (rg_segSize r) = 1024 \<or> unat (rg_segSize r) = 4096"
    and "unat (rg_dataBase r) = 82 + unat (rg_segSize r)"
    and "1 \<le> unat (rg_numSegs r)" and "unat (rg_numSegs r) \<le> 2048"
    and "2 * unat (rg_numSegs r) \<le> unat (rg_segSize r)"
    and "82 + unat (rg_segSize r) + unat (rg_numSegs r) * unat (rg_segSize r) \<le> length (rg_buf r)"
  using assms by (simp_all add: ring_geom_def)

lemma mgmt_fits: "ring_geom r \<Longrightarrow> i < unat (rg_numSegs r) \<Longrightarrow> 82 + i * 2 + 2 \<le> length (rg_buf r)"
  using ring_geomD(5,6) [of r] by linarith

lemma header_fits: "ring_geom r \<Longrightarrow> 82 \<le> length (rg_buf r)"
  using ring_geomD(6) [of r] by linarith

lemma cells_of_mg: "i < unat (rg_numSegs r) \<Longrightarrow> c_mg (cells_of r) ! i = get16 (82 + i * 2) (rg_buf r)"
  by (simp add: cells_of_def)

lemma r_mgmt_cells: "unat i < unat (rg_numSegs r) \<Longrightarrow> r_mgmt i r = c_mg (cells_of r) ! unat i"
  by (simp add: r_mgmt_def cells_of_mg go_consts)

lemma length_c_data: "ring_geom r \<Longrightarrow> length (c_data (cells_of r)) = unat (rg_numSegs r) * unat (rg_segSize r)"
  using ring_geomD(6) [of r] by (simp add: cells_of_def slice_def)

section \<open>Setters\<close>

lemma slice_put16_other:
  assumes "off + 2 \<le> length b" and "off' + n \<le> length b" and "off' + n \<le> off \<or> off + 2 \<le> off'"
  shows "slice off' n (put16 off v b) = slice off' n b"
  using assms by (simp add: put16_def slice_overwrite_other)

lemma unat_ucast_small: "unat v < 65536 \<Longrightarrow> unat (ucast (v :: u32) :: u16) = unat v"
  by (simp add: unsigned_ucast_eq take_bit_eq_mod)

lemma unat_ucast16_32 [simp]: "unat (ucast (v :: u16) :: u32) = unat v"
  using u16_bound [of v] by (simp add: unsigned_ucast_eq take_bit_eq_mod)

lemma setReadPos_geom [simp]: "ring_geom r \<Longrightarrow> ring_geom (setReadPos v r)"
  using header_fits [of r] by (simp add: ring_geom_def setReadPos_def go_consts)

lemma setWritePos_geom [simp]: "ring_geom r \<Longrightarrow> ring_geom (setWritePos v r)"
  using header_fits [of r] by (simp add: ring_geom_def setWritePos_def go_consts)

lemma setMgmt_geom [simp]:
  "ring_geom r \<Longrightarrow> unat i < unat (rg_numSegs r) \<Longrightarrow> ring_geom (setMgmt i v r)"
  using mgmt_fits [of r "unat i"] by (simp add: ring_geom_def setMgmt_def go_consts)

lemma setMgmt_fields [simp]:
  "rg_numSegs (setMgmt i v r) = rg_numSegs r" "rg_segSize (setMgmt i v r) = rg_segSize r"
  "rg_dataBase (setMgmt i v r) = rg_dataBase r"
  by (simp_all add: setMgmt_def)

lemma setPos_fields [simp]:
  "rg_numSegs (setReadPos v r) = rg_numSegs r" "rg_segSize (setReadPos v r) = rg_segSize r"
  "rg_dataBase (setReadPos v r) = rg_dataBase r"
  "rg_numSegs (setWritePos v r) = rg_numSegs r" "rg_segSize (setWritePos v r) = rg_segSize r"
  "rg_dataBase (setWritePos v r) = rg_dataBase r"
  by (simp_all add: setReadPos_def setWritePos_def)

lemma cells_setReadPos:
  assumes "ring_geom r" and "unat v < 65536"
  shows "cells_of (setReadPos v r) = (cells_of r)\<lparr>c_rp := unat v\<rparr>"
proof -
  have "slice (82 + unat (rg_segSize r)) (unat (rg_numSegs r) * unat (rg_segSize r))
      (put16 78 (ucast v) (rg_buf r)) =
      slice (82 + unat (rg_segSize r)) (unat (rg_numSegs r) * unat (rg_segSize r)) (rg_buf r)"
    using ring_geomD(6) [OF assms(1)] by (intro slice_put16_other) auto
  moreover have "get16 (82 + i * 2) (put16 78 (ucast v) (rg_buf r)) = get16 (82 + i * 2) (rg_buf r)"
    if "i < unat (rg_numSegs r)" for i
    using mgmt_fits [OF assms(1) that] by (intro get16_put16_other) auto
  moreover have "get16 76 (put16 78 (ucast v) (rg_buf r)) = get16 76 (rg_buf r)"
    using header_fits [OF assms(1)] by (intro get16_put16_other) auto
  moreover have "get16 78 (put16 78 (ucast v) (rg_buf r)) = (ucast v :: u16)"
    using header_fits [OF assms(1)] by (intro get16_put16_same) auto
  ultimately show ?thesis
    using assms(2)
    by (simp add: cells_of_def setReadPos_def r_readPos_def r_writePos_def go_consts
        unat_ucast_small)
qed

lemma cells_setWritePos:
  assumes "ring_geom r" and "unat v < 65536"
  shows "cells_of (setWritePos v r) = (cells_of r)\<lparr>c_wp := unat v\<rparr>"
proof -
  have "slice (82 + unat (rg_segSize r)) (unat (rg_numSegs r) * unat (rg_segSize r))
      (put16 76 (ucast v) (rg_buf r)) =
      slice (82 + unat (rg_segSize r)) (unat (rg_numSegs r) * unat (rg_segSize r)) (rg_buf r)"
    using ring_geomD(6) [OF assms(1)] by (intro slice_put16_other) auto
  moreover have "get16 (82 + i * 2) (put16 76 (ucast v) (rg_buf r)) = get16 (82 + i * 2) (rg_buf r)"
    if "i < unat (rg_numSegs r)" for i
    using mgmt_fits [OF assms(1) that] by (intro get16_put16_other) auto
  moreover have "get16 78 (put16 76 (ucast v) (rg_buf r)) = get16 78 (rg_buf r)"
    using header_fits [OF assms(1)] by (intro get16_put16_other) auto
  moreover have "get16 76 (put16 76 (ucast v) (rg_buf r)) = (ucast v :: u16)"
    using header_fits [OF assms(1)] by (intro get16_put16_same) auto
  ultimately show ?thesis
    using assms(2)
    by (simp add: cells_of_def setWritePos_def r_readPos_def r_writePos_def go_consts
        unat_ucast_small)
qed

lemma cells_setMgmt:
  assumes g: "ring_geom r" and i: "unat i < unat (rg_numSegs r)"
  shows "cells_of (setMgmt i v r) = (cells_of r)\<lparr>c_mg := (c_mg (cells_of r))[unat i := v]\<rparr>"
proof -
  let ?o = "82 + unat i * 2"
  have fit: "?o + 2 \<le> length (rg_buf r)" using mgmt_fits [OF g i] .
  have "slice (82 + unat (rg_segSize r)) (unat (rg_numSegs r) * unat (rg_segSize r))
      (put16 ?o v (rg_buf r)) =
      slice (82 + unat (rg_segSize r)) (unat (rg_numSegs r) * unat (rg_segSize r)) (rg_buf r)"
    using ring_geomD(5,6) [OF g] i fit by (intro slice_put16_other) auto
  moreover have "get16 76 (put16 ?o v (rg_buf r)) = get16 76 (rg_buf r)"
      "get16 78 (put16 ?o v (rg_buf r)) = get16 78 (rg_buf r)"
    using fit header_fits [OF g] by (auto intro: get16_put16_other)
  moreover have "map (\<lambda>k. get16 (82 + k * 2) (put16 ?o v (rg_buf r))) [0..<unat (rg_numSegs r)] =
      (map (\<lambda>k. get16 (82 + k * 2) (rg_buf r)) [0..<unat (rg_numSegs r)])[unat i := v]"
  proof (rule nth_equalityI)
    fix k assume "k < length (map (\<lambda>k. get16 (82 + k * 2) (put16 ?o v (rg_buf r)))
      [0..<unat (rg_numSegs r)])"
    then have "82 + k * 2 + 2 \<le> length (rg_buf r)" "k < unat (rg_numSegs r)"
      using mgmt_fits [OF g] by auto
    with fit i show "map (\<lambda>k. get16 (82 + k * 2) (put16 ?o v (rg_buf r)))
        [0..<unat (rg_numSegs r)] ! k =
        (map (\<lambda>k. get16 (82 + k * 2) (rg_buf r)) [0..<unat (rg_numSegs r)])[unat i := v] ! k"
      by (cases "k < unat i"; cases "k = unat i") (auto simp: nth_list_update get16_put16_other)
  qed simp
  ultimately show ?thesis
    by (simp add: cells_of_def setMgmt_def r_readPos_def r_writePos_def go_consts)
qed

lemma cells_write:
  assumes g: "ring_geom r" and fit: "s * unat (rg_segSize r) + length m \<le> unat (rg_numSegs r) * unat (rg_segSize r)"
  defines "r' \<equiv> r\<lparr>rg_buf := overwrite (82 + unat (rg_segSize r) + s * unat (rg_segSize r)) m (rg_buf r)\<rparr>"
  shows "cells_of r' = (cells_of r)\<lparr>c_data := overwrite (s * unat (rg_segSize r)) m (c_data (cells_of r))\<rparr>"
    and "ring_geom r'"
proof -
  let ?b = "82 + unat (rg_segSize r)" and ?n = "unat (rg_numSegs r) * unat (rg_segSize r)"
  let ?o = "s * unat (rg_segSize r)"
  have len: "?b + ?n \<le> length (rg_buf r)" using ring_geomD(6) [OF g] by simp
  with fit have fit': "?b + ?o + length m \<le> length (rg_buf r)" by simp
  have "slice ?b ?n (overwrite (?b + ?o) m (rg_buf r)) = overwrite ?o m (slice ?b ?n (rg_buf r))"
  proof (rule nth_equalityI)
    show "length (slice ?b ?n (overwrite (?b + ?o) m (rg_buf r))) =
        length (overwrite ?o m (slice ?b ?n (rg_buf r)))"
      using len fit fit' by (simp add: slice_def)
    fix k assume "k < length (slice ?b ?n (overwrite (?b + ?o) m (rg_buf r)))"
    then have "k < ?n" by (simp add: slice_def)
    with len fit fit' show "slice ?b ?n (overwrite (?b + ?o) m (rg_buf r)) ! k =
        overwrite ?o m (slice ?b ?n (rg_buf r)) ! k"
      by (auto simp: slice_def nth_overwrite)
  qed
  moreover have "get16 off (overwrite (?b + ?o) m (rg_buf r)) = get16 off (rg_buf r)"
    if "off + 2 \<le> ?b" for off
    using that fit' by (intro get16_overwrite_other) auto
  moreover have "82 + i * 2 + 2 \<le> ?b" if "i < unat (rg_numSegs r)" for i
    using ring_geomD(5) [OF g] that by linarith
  ultimately show "cells_of r' =
      (cells_of r)\<lparr>c_data := overwrite (s * unat (rg_segSize r)) m (c_data (cells_of r))\<rparr>"
    by (simp add: r'_def cells_of_def r_readPos_def r_writePos_def go_consts)
  show "ring_geom r'" using g fit' by (simp add: ring_geom_def r'_def)
qed

section \<open>Loops\<close>

definition same_shape :: "ring \<Rightarrow> ring \<Rightarrow> bool" where
  "same_shape r r' \<longleftrightarrow> rg_numSegs r' = rg_numSegs r \<and> rg_segSize r' = rg_segSize r \<and>
     rg_dataBase r' = rg_dataBase r \<and> length (rg_buf r') = length (rg_buf r)"

lemma length_setters [simp]:
  "ring_geom r \<Longrightarrow> length (rg_buf (setReadPos v r)) = length (rg_buf r)"
  "ring_geom r \<Longrightarrow> length (rg_buf (setWritePos v r)) = length (rg_buf r)"
  "ring_geom r \<Longrightarrow> unat i < unat (rg_numSegs r) \<Longrightarrow>
     length (rg_buf (setMgmt i u r)) = length (rg_buf r)"
  using header_fits [of r] mgmt_fits [of r "unat i"]
  by (simp_all add: setReadPos_def setWritePos_def setMgmt_def go_consts)

lemma fillMgmt_cells:
  assumes "fillMgmt i hi v r = (j, r')" and "ring_geom r" and "unat hi \<le> unat (rg_numSegs r)"
  shows "unat j = max (unat i) (unat hi) \<and> ring_geom r' \<and> same_shape r r' \<and>
    cells_of r' = (cells_of r)\<lparr>c_mg := fill (unat i) (unat hi) v (c_mg (cells_of r))\<rparr>"
  using assms
proof (induction i hi v r rule: fillMgmt.induct)
  case (1 i hi v r)
  show ?case
  proof (cases "i < hi")
    case False
    with "1.prems" show ?thesis
      by (auto simp: fillMgmt.simps [of i] same_shape_def word_less_nat_alt max_def)
  next
    case True
    then have i: "unat i < unat hi" by (simp add: word_less_nat_alt)
    have i1: "unat (i + 1) = Suc (unat i)" using unat_Suc_less [OF True] by simp
    have fits: "unat i < unat (rg_numSegs r)" using i "1.prems" by simp
    have "fillMgmt (i + 1) hi v (setMgmt i v r) = (j, r')"
      using "1.prems"(1) True by (simp add: fillMgmt.simps [of i])
    from "1.IH" [OF True this] have "unat j = max (Suc (unat i)) (unat hi) \<and> ring_geom r' \<and>
        same_shape (setMgmt i v r) r' \<and> cells_of r' = (cells_of (setMgmt i v r))
          \<lparr>c_mg := fill (Suc (unat i)) (unat hi) v (c_mg (cells_of (setMgmt i v r)))\<rparr>"
      using "1.prems" fits by (simp add: i1)
    with i fits "1.prems"(2) show ?thesis
      by (simp add: cells_setMgmt [OF "1.prems"(2) fits] same_shape_def fill_step)
  qed
qed

lemma fill_freed:
  "i < length xs \<Longrightarrow> i < j \<Longrightarrow> fill (Suc i) j v (xs[i := v]) = fill i j v xs"
  by (rule fill_step)

lemma skip_end_ge: "i \<le> skip_end i xs"
  by (induction i xs rule: skip_end.induct) (subst skip_end.simps, auto)

lemma skip_end_le: "i \<le> length xs \<Longrightarrow> skip_end i xs \<le> length xs"
  by (induction i xs rule: skip_end.induct) (subst skip_end.simps, auto)

lemma freeSkip_cells:
  assumes "freeSkip i r = (j, r')" and "ring_geom r" and "unat i \<le> unat (rg_numSegs r)"
  shows "unat j = skip_end (unat i) (c_mg (cells_of r)) \<and> ring_geom r' \<and> same_shape r r' \<and>
    cells_of r' = (cells_of r)
      \<lparr>c_mg := fill (unat i) (unat j) MagicEmptySegment (c_mg (cells_of r))\<rparr>"
  using assms
proof (induction i r rule: freeSkip.induct)
  case (1 i r)
  let ?mg = "c_mg (cells_of r)"
  show ?case
  proof (cases "i < rg_numSegs r \<and> r_mgmt i r = MagicSkipSegment")
    case False
    then have "\<not> (unat i < length ?mg \<and> ?mg ! unat i = MagicSkipSegment)"
      using r_mgmt_cells [of i r] by (auto simp: word_less_nat_alt)
    moreover have "j = i" "r' = r" using "1.prems"(1) False by (auto simp: freeSkip.simps [of i])
    ultimately show ?thesis
      using "1.prems"(2) by (auto simp: skip_end.simps [of "unat i"] same_shape_def)
  next
    case True
    then have i: "unat i < unat (rg_numSegs r)" by (simp add: word_less_nat_alt)
    then have skip: "?mg ! unat i = MagicSkipSegment" using True r_mgmt_cells [of i r] by simp
    have i1: "unat (i + 1) = Suc (unat i)" using True unat_Suc_less [of i "rg_numSegs r"] by simp
    let ?r = "setMgmt i MagicEmptySegment r"
    have step: "freeSkip (i + 1) ?r = (j, r')"
      using "1.prems"(1) True by (simp add: freeSkip.simps [of i])
    have mg: "c_mg (cells_of ?r) = ?mg[unat i := MagicEmptySegment]"
      using cells_setMgmt [OF "1.prems"(2) i] by simp
    from "1.IH" [OF True step] have IH: "unat j = skip_end (Suc (unat i)) (c_mg (cells_of ?r)) \<and>
        ring_geom r' \<and> same_shape ?r r' \<and> cells_of r' = (cells_of ?r)
          \<lparr>c_mg := fill (Suc (unat i)) (unat j) MagicEmptySegment (c_mg (cells_of ?r))\<rparr>"
      using "1.prems"(2) i by (simp add: i1)
    then have j: "unat j = skip_end (unat i) ?mg"
      using i skip by (simp add: mg skip_end_update skip_end.simps [of "unat i"])
    have "unat i < unat j"
      using IH skip_end_ge [of "Suc (unat i)"] mg by (simp add: Suc_le_lessD)
    with IH j i "1.prems"(2) show ?thesis
      by (simp add: cells_setMgmt [OF "1.prems"(2) i] same_shape_def fill_freed)
  qed
qed

section \<open>The operations act on the cells\<close>

lemma unat_segs:
  fixes S sz :: u32
  assumes "unat sz \<le> 65535" and "unat S = 1024 \<or> unat S = 4096"
  shows "unat ((sz + S - 1) div S) = segs (unat S) (unat sz)"
proof -
  have "unat (sz + S) = unat sz + unat S"
    using assms by (intro unat_add_small) auto
  moreover have "1 \<le> sz + S"
    using assms calculation by (auto simp: word_le_nat_alt)
  ultimately have "unat (sz + S - 1) = unat sz + unat S - 1"
    by (simp add: unat_sub)
  then show ?thesis by (simp add: segs_def unat_div)
qed

lemma segs_le_64: "k \<le> 65535 \<Longrightarrow> S = 1024 \<or> S = 4096 \<Longrightarrow> segs S k \<le> 64"
  by (auto simp: segs_def)

lemma enoughMemory_cells:
  assumes "unat w \<le> unat (rg_numSegs r)" and "unat rd \<le> unat (rg_numSegs r)"
    and "unat n \<le> 64" and "unat (rg_numSegs r) \<le> 2048"
  shows "enoughMemory w rd n r = c_enough (unat (rg_numSegs r)) (unat w) (unat rd) (unat n)"
proof -
  let ?N = "rg_numSegs r"
  have wn: "unat (w + n) = unat w + unat n" and rN: "unat (rd + ?N) = unat rd + unat ?N"
    using assms by (auto intro: unat_add_small)
  define n' where "n' = (if w + n > ?N then n + (?N - w) else n)"
  have nw: "unat (?N - w) = unat ?N - unat w"
    using assms(1) by (simp add: unat_sub word_le_nat_alt)
  have n': "unat n' = (if unat w + unat n > unat ?N then unat n + (unat ?N - unat w) else unat n)"
    using assms nw unat_add_small [of n "?N - w"] by (auto simp: n'_def word_less_nat_alt wn)
  have "unat (w + n') = unat w + unat n'"
    using assms n' by (intro unat_add_small) auto
  with n' show ?thesis
    using wn rN unfolding enoughMemory_def c_enough_def n'_def [symmetric]
    by (auto simp: Let_def word_less_nat_alt word_le_nat_alt not_less)
qed

lemma segs_fits: "0 < S \<Longrightarrow> k \<le> segs S k * S"
proof -
  assume "0 < S"
  then have "k + S - 1 < ((k + S - 1) div S + 1) * S"
    using dividend_less_div_times [of S "k + S - 1"] by simp
  then show ?thesis by (simp add: segs_def)
qed

text \<open>The end of \<open>push\<close>: the size entry, the data, the continuation entries and the position.\<close>

lemma store_cells:
  fixes s sz :: u32
  assumes g: "ring_geom r" and sz: "unat sz = length (concat bs)" "unat sz \<le> 65532"
    and n: "unat n = segs (unat (rg_segSize r)) (unat sz)"
    and s: "unat s < unat (rg_numSegs r)" "unat s + unat n \<le> unat (rg_numSegs r)"
    and r1: "r1 = setMgmt s (ucast sz) r"
    and buf: "copyBuffers (unat (rg_dataBase r) + unat s * unat (rg_segSize r)) (unat sz) bs (rg_buf r1) = Some buf"
    and f: "fillMgmt (s + 1) (s + 1 + n - 1) MagicSkipSegment (r1\<lparr>rg_buf := buf\<rparr>) = (j, r2)"
    and r3: "r3 = setWritePos (if j \<ge> rg_numSegs r then 0 else j) r2"
  shows "ring_geom r3 \<and> same_shape r r3 \<and>
    cells_of r3 = c_store (unat s) (unat n) (concat bs) (cells_of r)"
proof -
  note G = ring_geomD [OF g]
  let ?S = "unat (rg_segSize r)" and ?N = "unat (rg_numSegs r)"
  have len: "length (concat bs) \<le> unat n * ?S"
    using segs_fits [of ?S "unat sz"] G(1) n sz by auto
  have "(unat s + unat n) * ?S \<le> ?N * ?S" using s(2) by (rule mult_right_mono) simp
  with len have fit: "unat s * ?S + length (concat bs) \<le> ?N * ?S" by (simp add: add_mult_distrib)
  have g1: "ring_geom r1" using g s(1) by (simp add: r1)
  have c1: "cells_of r1 = (cells_of r)\<lparr>c_mg := (c_mg (cells_of r))[unat s := ucast sz]\<rparr>"
    using cells_setMgmt [OF g s(1)] by (simp add: r1)
  have shape1: "rg_numSegs r1 = rg_numSegs r" "rg_segSize r1 = rg_segSize r"
      "rg_dataBase r1 = rg_dataBase r" "length (rg_buf r1) = length (rg_buf r)"
    using g s(1) by (simp_all add: r1)
  have buf_eq: "buf = overwrite (82 + ?S + unat s * ?S) (concat bs) (rg_buf r1)"
  proof -
    have "copyBuffers (82 + ?S + unat s * ?S) (unat sz) bs (rg_buf r1) =
        Some (overwrite (82 + ?S + unat s * ?S) (concat bs) (rg_buf r1))"
      using fit sz(1) ring_geomD(6) [OF g1]
      by (intro copyBuffers_fits) (auto simp: length_concat shape1)
    with buf show ?thesis by (simp add: G(2))
  qed
  then have lbuf: "length buf = length (rg_buf r)"
    using fit ring_geomD(6) [OF g1] by (simp add: shape1)
  have g2: "ring_geom (r1\<lparr>rg_buf := buf\<rparr>)" and c2: "cells_of (r1\<lparr>rg_buf := buf\<rparr>) =
      (cells_of r1)\<lparr>c_data := overwrite (unat s * ?S) (concat bs) (c_data (cells_of r1))\<rparr>"
    using cells_write [OF g1, of "unat s" "concat bs"] fit buf_eq by (simp_all add: shape1)
  have s1: "unat (s + 1) = unat s + 1"
    using s(1) by (intro unat_Suc_less) (simp add: word_less_nat_alt)
  have "unat (s + 1 + n) = unat s + 1 + unat n"
    using s G(4) s1 by (subst unat_add_small) auto
  moreover have "1 \<le> s + 1 + n" using calculation by (simp add: word_le_nat_alt)
  ultimately have e: "unat (s + 1 + n - 1) = unat s + unat n"
    using unat_sub [of 1 "s + 1 + n"] by simp
  from fillMgmt_cells [OF f g2] e s(2)
  have j: "unat j = max (unat s + 1) (unat s + unat n)" and g3: "ring_geom r2"
    and sh: "same_shape (r1\<lparr>rg_buf := buf\<rparr>) r2"
    and c3: "cells_of r2 = (cells_of (r1\<lparr>rg_buf := buf\<rparr>))\<lparr>c_mg := fill (unat s + 1)
      (unat s + unat n) MagicSkipSegment (c_mg (cells_of (r1\<lparr>rg_buf := buf\<rparr>)))\<rparr>"
    by (simp_all add: shape1 s1)
  let ?w = "if j \<ge> rg_numSegs r then 0 else j"
  have w: "unat ?w = (if max (unat s + 1) (unat s + unat n) \<ge> ?N then 0
      else max (unat s + 1) (unat s + unat n))"
    by (simp add: word_le_nat_alt j)
  then have "unat ?w < 65536" using G(4) by auto
  from cells_setWritePos [OF g3 this]
  have "cells_of r3 = (cells_of r2)\<lparr>c_wp := unat ?w\<rparr>" by (simp add: r3)
  moreover have "length (rg_buf r3) = length (rg_buf r)"
    using sh g3 lbuf by (simp add: r3 same_shape_def)
  moreover have "(ucast sz :: u16) = word_of_nat (length (concat bs))"
    using sz by (simp add: word_unat_eq_iff unat_ucast_small unat_of_nat)
  ultimately show ?thesis
    using sh g3 c3 c2 c1 w by (simp add: c_store_def same_shape_def r3 shape1)
qed

text \<open>
  \<open>push\<close> acts on the cells like \<open>c_push\<close> with the concatenated buffers, and never runs out of
  the data range: the panic outcome is not reached.
\<close>

lemma push_cells:
  assumes g: "ring_geom r" and pos: "c_rp (cells_of r) < unat (rg_numSegs r)"
    "c_wp (cells_of r) < unat (rg_numSegs r)"
    and small: "\<forall>b \<in> set bs. length b < 4294901760"
    and push: "push bs r = (e, r')"
  shows "ring_geom r' \<and> same_shape r r' \<and> c_push (concat bs) (cells_of r) = (e, cells_of r')"
proof (cases "length (concat bs) > 65532")
  case True
  then have "totalSize 0 bs = None"
    using small by (intro totalSize_large) (auto simp: length_concat)
  with push True g show ?thesis by (auto simp: push_def c_push_def same_shape_def)
next
  case False
  note G = ring_geomD [OF g]
  let ?N = "rg_numSegs r" and ?w = "r_writePos r" and ?rd = "r_readPos r"
  define sz :: u32 where "sz = of_nat (length (concat bs))"
  define n where "n = (sz + rg_segSize r - 1) div rg_segSize r"
  have sz: "unat sz = length (concat bs)" "unat sz \<le> 65532"
    using False by (auto simp: sz_def unat_of_nat)
  have tot: "totalSize 0 bs = Some sz"
    using False by (simp add: totalSize_small length_concat sz_def)
  have n: "unat n = segs (unat (rg_segSize r)) (unat sz)" "unat n \<le> 64"
    using sz(2) G(1) unat_segs [of sz "rg_segSize r"] segs_le_64 by (auto simp: n_def)
  have nl: "segs (unat (rg_segSize r)) (length (concat bs)) = unat n"
    using n(1) sz(1) by simp
  have p: "unat ?rd < unat ?N" "unat ?w < unat ?N"
    using pos by (simp_all add: cells_of_rp cells_of_wp)
  then have in_range: "\<not> (?rd > ?N \<or> ?w > ?N)" by (auto simp: word_less_nat_alt)
  have en: "enoughMemory ?w ?rd n r = c_enough (unat ?N) (unat ?w) (unat ?rd) (unat n)"
    using p n(2) G(4) by (intro enoughMemory_cells) auto
  have wn: "unat (?w + n) = unat ?w + unat n"
    using p n(2) G(4) by (intro unat_add_small) auto
  show ?thesis
  proof (cases "enoughMemory ?w ?rd n r")
    case full: False
    then have "push bs r = (Some RingFull, r)"
      using in_range by (simp add: push_def tot Let_def n_def)
    moreover have "\<not> c_enough (unat ?N) (unat ?w) (unat ?rd) (unat n)" using full en by simp
    ultimately show ?thesis
      using push g False
      by (simp add: c_push_def Let_def same_shape_def cells_of_rp cells_of_wp nl)
  next
    case room: True
    then have lt: "unat n < unat ?N" using en by (auto simp: c_enough_def split: if_splits)
    define s where "s = (if ?w + n > ?N then 0 else ?w)"
    define r0 where "r0 = (if ?w + n > ?N then snd (fillMgmt ?w ?N MagicSkipSegment r) else r)"
    let ?r1 = "setMgmt s (ucast sz) r0"
    have s_fits: "unat s < unat ?N" "unat s + unat n \<le> unat ?N"
      using p lt by (auto simp: s_def word_less_nat_alt wn)
    obtain jj rr where jr: "fillMgmt ?w ?N MagicSkipSegment r = (jj, rr)"
      by (cases "fillMgmt ?w ?N MagicSkipSegment r")
    have g0: "ring_geom r0" and sh0: "same_shape r r0"
      and c0: "cells_of r0 = (if unat ?w + unat n > unat ?N
        then (cells_of r)\<lparr>c_mg := fill (unat ?w) (unat ?N) MagicSkipSegment (c_mg (cells_of r))\<rparr>
        else cells_of r)"
      using fillMgmt_cells [OF jr g] g
      by (auto simp: r0_def jr same_shape_def word_less_nat_alt wn)
    have shape0: "rg_numSegs r0 = ?N" "rg_segSize r0 = rg_segSize r" "rg_dataBase r0 = rg_dataBase r"
      using sh0 by (simp_all add: same_shape_def)
    have "\<exists>buf. copyBuffers (unat (rg_dataBase r0) + unat s * unat (rg_segSize r0)) (unat sz) bs (rg_buf ?r1)
        = Some buf"
    proof -
      have "length (concat bs) \<le> unat n * unat (rg_segSize r)"
        using segs_fits [of "unat (rg_segSize r)" "unat sz"] G(1) n sz by auto
      moreover have "(unat s + unat n) * unat (rg_segSize r) \<le> unat ?N * unat (rg_segSize r)"
        using s_fits(2) by (rule mult_right_mono) simp
      moreover have "ring_geom ?r1" using g0 s_fits(1) shape0 by simp
      ultimately have "copyBuffers (unat (rg_dataBase r0) + unat s * unat (rg_segSize r0)) (unat sz) bs
          (rg_buf ?r1) = Some (overwrite (unat (rg_dataBase r0) + unat s * unat (rg_segSize r0))
            (concat bs) (rg_buf ?r1))"
        using sz(1) ring_geomD(2,6) [of ?r1]
        by (intro copyBuffers_fits) (auto simp: length_concat shape0 add_mult_distrib)
      then show ?thesis by blast
    qed
    then obtain buf where buf: "copyBuffers (unat (rg_dataBase r0) + unat s * unat (rg_segSize r0))
        (unat sz) bs (rg_buf ?r1) = Some buf" by blast
    obtain j r2 where f: "fillMgmt (s + 1) (s + 1 + n - 1) MagicSkipSegment (?r1\<lparr>rg_buf := buf\<rparr>) = (j, r2)"
      by (cases "fillMgmt (s + 1) (s + 1 + n - 1) MagicSkipSegment (?r1\<lparr>rg_buf := buf\<rparr>)")
    let ?r3 = "setWritePos (if j \<ge> rg_numSegs r0 then 0 else j) r2"
    have "(if ?w + n > ?N then (0, snd (fillMgmt ?w ?N MagicSkipSegment r)) else (?w, r)) = (s, r0)"
      by (simp add: s_def r0_def)
    then have "push bs r = (None, ?r3)"
      using room in_range buf f by (simp add: push_def tot Let_def n_def [symmetric] shape0)
    with push have e: "e = None" "r' = ?r3" by simp_all
    have "ring_geom ?r3 \<and> same_shape r0 ?r3 \<and>
        cells_of ?r3 = c_store (unat s) (unat n) (concat bs) (cells_of r0)"
      using store_cells [OF g0 sz, of n s, OF _ _ _ refl buf f refl] n s_fits
      by (simp add: shape0)
    moreover have "c_enough (unat ?N) (unat ?w) (unat ?rd) (unat n)" using room en by simp
    ultimately show ?thesis
      using sh0 False
      by (auto simp: e c_push_def Let_def same_shape_def cells_of_rp cells_of_wp nl c0 s_def
          word_less_nat_alt wn)
  qed
qed

text \<open>
  \<open>peek\<close> and \<open>pop\<close> act on the cells like \<open>c_peek\<close> and \<open>c_pop\<close>; a segment index \<open>p\<close> stands for the
  byte offset of segment \<open>p\<close>.
\<close>

definition seg_off :: "ring \<Rightarrow> nat \<Rightarrow> nat" where
  "seg_off r p = 82 + unat (rg_segSize r) + p * unat (rg_segSize r)"

lemma unat_eq_iff: "unat (a :: 'a::len word) = unat b \<longleftrightarrow> a = b"
  by (simp add: word_unat_eq_iff)

lemma peek_cells:
  assumes g: "ring_geom r" and pos: "c_rp (cells_of r) < unat (rg_numSegs r)"
    "c_wp (cells_of r) < unat (rg_numSegs r)"
    and fits: "\<And>sz p. fst (c_peek (cells_of r)) = Inr (sz, p) \<Longrightarrow> seg_off r p + sz \<le> length (rg_buf r)"
    and peek: "peek r = (x, r')"
  shows "ring_geom r' \<and> same_shape r r' \<and>
    c_peek (cells_of r) =
      (case x of Inl e \<Rightarrow> Inl e
       | Inr (sz, off) \<Rightarrow> Inr (unat sz, c_rp (cells_of r')), cells_of r') \<and>
    (\<forall>sz off. x = Inr (sz, off) \<longrightarrow> off = seg_off r (c_rp (cells_of r')))"
proof (cases "r_readPos r = r_writePos r")
  case True
  then show ?thesis
    using peek g by (auto simp: peek_def c_peek_def same_shape_def cells_of_rp cells_of_wp)
next
  case False
  note G = ring_geomD [OF g]
  let ?N = "rg_numSegs r" and ?rd = "r_readPos r"
  let ?mg = "c_mg (cells_of r)"
  have p: "unat ?rd < unat ?N" "unat (r_writePos r) < unat ?N"
    using pos by (simp_all add: cells_of_rp cells_of_wp)
  have ne: "c_rp (cells_of r) \<noteq> c_wp (cells_of r)"
    using False by (simp add: cells_of_rp cells_of_wp unat_eq_iff)
  obtain j r1 where jr: "freeSkip ?rd r = (j, r1)" by (cases "freeSkip ?rd r")
  from freeSkip_cells [OF jr g] p(1)
  have j: "unat j = skip_end (unat ?rd) ?mg" and g1: "ring_geom r1" and sh: "same_shape r r1"
    and c1: "cells_of r1 = (cells_of r)\<lparr>c_mg := fill (unat ?rd) (unat j) MagicEmptySegment ?mg\<rparr>"
    by auto
  have guarded: "(if r_mgmt ?rd r = MagicSkipSegment then freeSkip ?rd r else (?rd, r)) = (j, r1)"
    using jr by (auto simp: freeSkip.simps [of ?rd] split: if_splits)
  define q where "q = (if j = ?N then 0 else j)"
  have jN: "unat j \<le> unat ?N" using j p(1) skip_end_le [of "unat ?rd" ?mg] by simp
  then have q: "unat q < unat ?N" "unat q = (if unat j = unat ?N then 0 else unat j)"
    using G(3) by (auto simp: q_def unat_eq_iff le_neq_implies_less)
  have shape: "rg_numSegs r1 = ?N" "rg_segSize r1 = rg_segSize r" "rg_dataBase r1 = rg_dataBase r"
    using sh by (simp_all add: same_shape_def)
  have m: "r_mgmt q r1 = c_mg (cells_of r1) ! unat q"
    using q(1) by (intro r_mgmt_cells) (simp add: shape)
  let ?m = "r_mgmt q r1"
  have cpeek: "c_peek (cells_of r) =
      (if ?m \<in> {MagicEmptySegment, MagicSkipSegment} \<or> unat ?m > 65532
       then (Inl RingCorrupt, cells_of r1)
       else (Inr (unat ?m, unat q), (cells_of r1)\<lparr>c_rp := unat q\<rparr>))"
    using ne
    by (simp add: c_peek_def Let_def cells_of_rp j [symmetric] q(2) [symmetric] m c1 del: nth_fill)
  let ?off = "unat (rg_dataBase r1) + unat q * unat (rg_segSize r1)"
  have off: "?off = seg_off r (unat q)" by (simp add: seg_off_def shape G(2))
  have run: "peek r = (if ?m = MagicEmptySegment \<or> ?m = MagicSkipSegment \<or> unat ?m > 65532
       then (Inl RingCorrupt, r1)
       else if ?off + unat ?m > length (rg_buf r) then (Inl RingCorrupt, r1)
       else (Inr (ucast ?m, ?off), setReadPos q r1))"
    using False p sh
    by (simp add: peek_def Let_def guarded q_def [symmetric] word_less_nat_alt MaxWriteSize_def
        same_shape_def)
  show ?thesis
  proof (cases "?m = MagicEmptySegment \<or> ?m = MagicSkipSegment \<or> unat ?m > 65532")
    case True
    with run cpeek peek g1 sh show ?thesis by auto
  next
    case ok: False
    then have "?off + unat ?m \<le> length (rg_buf r)" using fits [of "unat ?m" "unat q"] cpeek off by simp
    with ok run peek have x: "x = Inr (ucast ?m, ?off)" "r' = setReadPos q r1" by auto
    have "unat q < 65536" using q(1) G(4) by simp
    from cells_setReadPos [OF g1 this] g1 sh ok cpeek off show ?thesis
      by (auto simp: x same_shape_def)
  qed
qed

lemma pop_cells:
  assumes g: "ring_geom r" and pos: "c_rp (cells_of r) < unat (rg_numSegs r)"
    "c_wp (cells_of r) < unat (rg_numSegs r)"
    and fits: "c_rp (cells_of r) +
      segs (unat (rg_segSize r)) (unat (c_mg (cells_of r) ! c_rp (cells_of r))) \<le> unat (rg_numSegs r)"
    and pop: "pop r = (e, r')"
  shows "ring_geom r' \<and> same_shape r r' \<and> c_pop (cells_of r) = (e, cells_of r')"
proof (cases "r_readPos r = r_writePos r")
  case True
  then show ?thesis
    using pop g by (auto simp: pop_def c_pop_def same_shape_def cells_of_rp cells_of_wp)
next
  case False
  note G = ring_geomD [OF g]
  let ?N = "rg_numSegs r" and ?rd = "r_readPos r"
  let ?mg = "c_mg (cells_of r)" and ?n = "(ucast (r_mgmt (r_readPos r) r) + rg_segSize r - 1) div rg_segSize r"
  have p: "unat ?rd < unat ?N" "unat (r_writePos r) < unat ?N"
    using pos by (simp_all add: cells_of_rp cells_of_wp)
  have ne: "c_rp (cells_of r) \<noteq> c_wp (cells_of r)"
    using False by (simp add: cells_of_rp cells_of_wp unat_eq_iff)
  have n: "unat ?n = segs (unat (rg_segSize r)) (unat (?mg ! unat ?rd))"
    using u16_bound [of "r_mgmt ?rd r"] G(1) unat_segs [of "ucast (r_mgmt ?rd r)" "rg_segSize r"]
      r_mgmt_cells [OF p(1)] by simp
  have e: "unat (?rd + ?n) = unat ?rd + unat ?n" "unat ?rd + unat ?n \<le> unat ?N"
    using fits n G(4) unat_add_small [of ?rd ?n] by (simp_all add: cells_of_rp)
  obtain j r1 where jr: "fillMgmt ?rd (?rd + ?n) MagicEmptySegment r = (j, r1)"
    by (cases "fillMgmt ?rd (?rd + ?n) MagicEmptySegment r")
  from fillMgmt_cells [OF jr g] e
  have j: "unat j = unat ?rd + unat ?n" and g1: "ring_geom r1" and sh: "same_shape r r1"
    and c1: "cells_of r1 = (cells_of r)\<lparr>c_mg := fill (unat ?rd) (unat j) MagicEmptySegment ?mg\<rparr>"
    by auto
  have shape: "rg_numSegs r1 = ?N" using sh by (simp add: same_shape_def)
  obtain k r2 where kr: "fillMgmt j ?N MagicEmptySegment r1 = (k, r2)"
    by (cases "fillMgmt j ?N MagicEmptySegment r1")
  from fillMgmt_cells [OF kr g1] e(2) j
  have k: "unat k = unat ?N" and g2: "ring_geom r2" and sh2: "same_shape r r2"
    and c2: "cells_of r2 = (cells_of r1)\<lparr>c_mg := fill (unat j) (unat ?N) MagicEmptySegment (c_mg (cells_of r1))\<rparr>"
    using sh by (auto simp: shape same_shape_def)
  have no_wrap: "\<not> ?rd + ?n > ?N" using e by (simp add: word_less_nat_alt)
  let ?skip = "j < ?N \<and> r_mgmt j r1 = MagicSkipSegment"
  have skip: "?skip \<longleftrightarrow> unat j < unat ?N \<and> c_mg (cells_of r1) ! unat j = MagicSkipSegment"
    using r_mgmt_cells [of j r1] by (auto simp: word_less_nat_alt shape)
  have in_range: "\<not> (?rd > ?N \<or> r_writePos r > ?N)" using p by (auto simp: word_less_nat_alt)
  have run: "pop r = (None, if ?skip then setReadPos 0 r2 else setReadPos (if j = ?N then 0 else j) r1)"
    using False in_range no_wrap jr kr k
    by (simp add: pop_def Let_def unat_eq_iff)
  have cpop: "c_pop (cells_of r) = (None, if ?skip then (cells_of r2)\<lparr>c_rp := 0\<rparr>
      else (cells_of r1)\<lparr>c_rp := (if unat j = unat ?N then 0 else unat j)\<rparr>)"
    using ne unfolding skip c2
    by (simp add: c_pop_def Let_def cells_of_rp n [symmetric] j [symmetric] c1 del: nth_fill)
  have small: "unat (if j = ?N then 0 else j) < 65536" using j e(2) G(4) by simp
  have "cells_of (setReadPos (if j = ?N then 0 else j) r1) =
      (cells_of r1)\<lparr>c_rp := (if unat j = unat ?N then 0 else unat j)\<rparr>"
    unfolding cells_setReadPos [OF g1 small] by (simp add: unat_eq_iff)
  moreover have "cells_of (setReadPos 0 r2) = (cells_of r2)\<lparr>c_rp := 0\<rparr>"
    using cells_setReadPos [OF g2, of 0] by simp
  ultimately show ?thesis
    using pop run cpop g1 g2 sh sh2 by (auto simp: same_shape_def)
qed

end
