(* ===== verification/Ring_Fifo.thy ===== *)
theory Ring_Fifo
  imports Ring_Cells
begin

text \<open>
  The ring queue as a first-in first-out queue of byte strings. \<open>fifo_rel\<close> relates the cells of a
  ring to the list of messages it holds, oldest first; it is preserved by \<open>push\<close>, \<open>peek\<close> and
  \<open>pop\<close>, which append to the list, return its head and remove its head. Positions are counted
  without wrap-around (a position \<open>v\<close> of at least \<open>N\<close> stands for segment \<open>v - N\<close>), starting at
  the read position.
\<close>

section \<open>Messages in the segments\<close>

definition vpos :: "nat \<Rightarrow> nat \<Rightarrow> nat" where
  "vpos N v = (if v < N then v else v - N)"

definition msg_at :: "cells \<Rightarrow> nat \<Rightarrow> bytes \<Rightarrow> bool" where
  "msg_at c p m \<longleftrightarrow>
     0 < length m \<and> length m \<le> 65532 \<and> p + segs (c_S c) (length m) \<le> c_N c \<and>
     c_mg c ! p = word_of_nat (length m) \<and>
     (\<forall>i. p < i \<and> i < p + segs (c_S c) (length m) \<longrightarrow> c_mg c ! i = MagicSkipSegment) \<and>
     slice (p * c_S c) (length m) (c_data c) = m"

definition filler :: "cells \<Rightarrow> nat \<Rightarrow> bool" where
  "filler c p \<longleftrightarrow> p < c_N c \<and> (\<forall>i. p \<le> i \<and> i < c_N c \<longrightarrow> c_mg c ! i = MagicSkipSegment)"

lemma vpos_0 [simp]: "vpos N 0 = 0"
  by (simp add: vpos_def)

text \<open>
  From position \<open>v\<close> up to \<open>w\<close> lie exactly the messages of the list, one after the other, except
  that a message that did not fit before the end is preceded by skip entries up to the end.
\<close>

fun chain :: "cells \<Rightarrow> nat \<Rightarrow> bytes list \<Rightarrow> nat \<Rightarrow> bool" where
  "chain c v [] w \<longleftrightarrow> v = w"
| "chain c v (m # ms) w \<longleftrightarrow>
     msg_at c (vpos (c_N c) v) m \<and> chain c (v + segs (c_S c) (length m)) ms w \<or>
     filler c v \<and> msg_at c 0 m \<and> chain c (c_N c + segs (c_S c) (length m)) ms w"

definition all_free :: "cells \<Rightarrow> nat \<Rightarrow> nat \<Rightarrow> bool" where
  "all_free c v w \<longleftrightarrow> (\<forall>u. v \<le> u \<and> u < w \<longrightarrow> c_mg c ! vpos (c_N c) u = MagicEmptySegment)"

definition cells_ok :: "cells \<Rightarrow> bool" where
  "cells_ok c \<longleftrightarrow> 0 < c_S c \<and> length (c_data c) = c_N c * c_S c \<and> c_rp c < c_N c \<and> c_wp c < c_N c"

definition vend :: "cells \<Rightarrow> nat" where
  "vend c = (if c_rp c \<le> c_wp c then c_wp c else c_wp c + c_N c)"

definition fifo_rel :: "cells \<Rightarrow> bytes list \<Rightarrow> bool" where
  "fifo_rel c ms \<longleftrightarrow>
     cells_ok c \<and> chain c (c_rp c) ms (vend c) \<and> all_free c (vend c) (c_rp c + c_N c)"

lemma segs_pos: "0 < k \<Longrightarrow> 0 < S \<Longrightarrow> 0 < segs S k"
  by (simp add: segs_def div_greater_zero_iff)

lemma msg_at_pos: "msg_at c p m \<Longrightarrow> 0 < c_S c \<Longrightarrow> 0 < segs (c_S c) (length m)"
  by (simp add: msg_at_def segs_pos)

lemma size_not_skip: "k \<le> 65532 \<Longrightarrow> word_of_nat k \<noteq> MagicSkipSegment"
proof
  assume "k \<le> 65532" and "word_of_nat k = MagicSkipSegment"
  then have "unat (word_of_nat k :: u16) = 65533" by (simp add: go_consts)
  with \<open>k \<le> 65532\<close> show False by (simp add: unat_of_nat)
qed

lemma size_not_empty: "k \<le> 65532 \<Longrightarrow> word_of_nat k \<noteq> MagicEmptySegment"
proof
  assume "k \<le> 65532" and "word_of_nat k = MagicEmptySegment"
  then have "unat (word_of_nat k :: u16) = 65534" by (simp add: go_consts)
  with \<open>k \<le> 65532\<close> show False by (simp add: unat_of_nat)
qed

lemma msg_at_entry:
  assumes "msg_at c p m"
  shows "c_mg c ! p \<noteq> MagicSkipSegment" and "c_mg c ! p \<noteq> MagicEmptySegment"
    and "unat (c_mg c ! p) = length m"
  using assms size_not_skip [of "length m"] size_not_empty [of "length m"]
  by (auto simp: msg_at_def unat_of_nat)

lemma chain_le: "chain c v ms w \<Longrightarrow> v \<le> w"
proof (induction ms arbitrary: v)
  case (Cons m ms)
  then show ?case using Cons.IH by (fastforce simp: filler_def)
qed simp

lemma chain_less: "chain c v (m # ms) w \<Longrightarrow> 0 < c_S c \<Longrightarrow> v < w"
  using chain_le [of c _ ms w] msg_at_pos [of c _ m] by (fastforce simp: filler_def)

lemma chain_snoc:
  "chain c v ms w \<Longrightarrow> msg_at c (vpos (c_N c) w) m \<Longrightarrow>
     chain c v (ms @ [m]) (w + segs (c_S c) (length m))"
  by (induction ms arbitrary: v) auto

lemma chain_snoc_wrap:
  "chain c v ms w \<Longrightarrow> filler c w \<Longrightarrow> msg_at c 0 m \<Longrightarrow>
     chain c v (ms @ [m]) (c_N c + segs (c_S c) (length m))"
  by (induction ms arbitrary: v) auto

text \<open>A chain that starts past the end is a chain that starts at the beginning.\<close>

lemma chain_shift:
  "chain c (c_N c + v) ms w \<Longrightarrow> 0 < c_S c \<Longrightarrow> chain c v ms (w - c_N c)"
proof (induction ms arbitrary: v)
  case (Cons m ms)
  then have m: "msg_at c v m" and rest: "chain c (c_N c + (v + segs (c_S c) (length m))) ms w"
    by (auto simp: vpos_def filler_def add.assoc)
  then have "v < c_N c" using msg_at_pos [OF m Cons.prems(2)] by (simp add: msg_at_def)
  with m Cons.IH [OF rest] Cons.prems(2) show ?case by (simp add: vpos_def)
qed auto

section \<open>Framing\<close>

text \<open>Segment \<open>i\<close> and its management entry are the same in two rings.\<close>

definition same_at :: "cells \<Rightarrow> cells \<Rightarrow> nat \<Rightarrow> bool" where
  "same_at c c' i \<longleftrightarrow> c_mg c' ! i = c_mg c ! i \<and>
     (\<forall>k < c_S c. c_data c' ! (i * c_S c + k) = c_data c ! (i * c_S c + k))"

definition same_size :: "cells \<Rightarrow> cells \<Rightarrow> bool" where
  "same_size c c' \<longleftrightarrow> c_S c' = c_S c \<and> c_N c' = c_N c \<and> length (c_data c') = length (c_data c)"

lemma seg_index:
  fixes S :: nat
  assumes "p * S \<le> k" and "k < p * S + n * S" and "0 < S"
  shows "p \<le> k div S" and "k div S < p + n"
proof -
  show "p \<le> k div S" using assms by (simp add: less_eq_div_iff_mult_less_eq)
  have "k < (p + n) * S" using assms by (simp add: add_mult_distrib)
  then show "k div S < p + n" using assms(3) by (simp add: less_mult_imp_div_less)
qed

lemma msg_at_frame:
  assumes m: "msg_at c p m" and size: "same_size c c'" and len: "length (c_data c) = c_N c * c_S c"
    and S: "0 < c_S c"
    and same: "\<And>i. p \<le> i \<Longrightarrow> i < p + segs (c_S c) (length m) \<Longrightarrow> same_at c c' i"
  shows "msg_at c' p m"
proof -
  let ?S = "c_S c" and ?n = "segs (c_S c) (length m)"
  have fit: "length m \<le> ?n * ?S" using segs_fits [OF S] .
  have "(p + ?n) * ?S \<le> c_N c * ?S" using m by (intro mult_right_mono) (simp_all add: msg_at_def)
  with fit len have len': "p * ?S + length m \<le> length (c_data c)" by (simp add: add_mult_distrib)
  have "slice (p * ?S) (length m) (c_data c') = slice (p * ?S) (length m) (c_data c)"
  proof (rule slice_eqI)
    fix k assume k: "p * ?S \<le> k" "k < p * ?S + length m"
    then have "p \<le> k div ?S" "k div ?S < p + ?n"
      using seg_index [of p ?S k ?n] fit S by auto
    then have "same_at c c' (k div ?S)" by (rule same)
    then have "c_data c' ! (k div ?S * ?S + k mod ?S) = c_data c ! (k div ?S * ?S + k mod ?S)"
      unfolding same_at_def using mod_less_divisor [OF S] by blast
    then show "c_data c' ! k = c_data c ! k" by simp
  qed (use len' size in \<open>simp_all add: same_size_def\<close>)
  moreover have "c_mg c' ! i = c_mg c ! i" if "p \<le> i" "i < p + ?n" for i
    using same that by (simp add: same_at_def)
  ultimately show ?thesis
    using m size msg_at_pos [OF m S] by (auto simp: msg_at_def same_size_def)
qed

lemma chain_frame:
  assumes "chain c v ms w" and size: "same_size c c'" and len: "length (c_data c) = c_N c * c_S c"
    and S: "0 < c_S c"
    and same: "\<And>u. v \<le> u \<Longrightarrow> u < w \<Longrightarrow> same_at c c' (vpos (c_N c) u)"
  shows "chain c' v ms w"
  using assms(1) same
proof (induction ms arbitrary: v)
  case (Cons m ms)
  let ?n = "segs (c_S c) (length m)" and ?N = "c_N c"
  from Cons.prems(1) consider
      (here) "msg_at c (vpos ?N v) m" "chain c (v + ?n) ms w"
    | (wrap) "filler c v" "msg_at c 0 m" "chain c (?N + ?n) ms w" by auto
  then show ?case
  proof cases
    case here
    have "same_at c c' i" if "vpos ?N v \<le> i" "i < vpos ?N v + ?n" for i
    proof -
      let ?u = "if v < ?N then i else i + ?N"
      have "i < ?N" using here(1) that by (simp add: msg_at_def)
      then have "vpos ?N ?u = i" "v \<le> ?u" "?u < v + ?n"
        using that by (auto simp: vpos_def split: if_splits)
      then show ?thesis using Cons.prems(2) [of ?u] chain_le [OF here(2)] by simp
    qed
    then have "msg_at c' (vpos ?N v) m" by (rule msg_at_frame [OF here(1) size len S])
    moreover have "chain c' (v + ?n) ms w" using here(2) Cons.prems(2) by (intro Cons.IH) auto
    ultimately show ?thesis using size by (simp add: same_size_def)
  next
    case wrap
    have v: "v < ?N" using wrap(1) by (simp add: filler_def)
    have w: "?N + ?n \<le> w" using chain_le [OF wrap(3)] .
    have "same_at c c' i" if "i < ?n" for i
      using Cons.prems(2) [of "?N + i"] that v w by (simp add: vpos_def)
    then have "msg_at c' 0 m" using msg_at_frame [OF wrap(2) size len S] by simp
    moreover have "filler c' v"
      unfolding filler_def
    proof (intro conjI allI impI)
      fix i assume "v \<le> i \<and> i < c_N c'"
      then show "c_mg c' ! i = MagicSkipSegment"
        using Cons.prems(2) [of i] w wrap(1) size
        by (simp add: vpos_def same_at_def filler_def same_size_def)
    qed (use v size in \<open>simp add: same_size_def\<close>)
    moreover have "chain c' (?N + ?n) ms w" using wrap(3) Cons.prems(2) v by (intro Cons.IH) auto
    ultimately show ?thesis using size by (simp add: same_size_def)
  qed
qed simp

section \<open>Sending\<close>

lemma store_size:
  "length m \<le> n * c_S c \<Longrightarrow> s + n \<le> c_N c \<Longrightarrow> length (c_data c) = c_N c * c_S c \<Longrightarrow>
     same_size c (c_store s n m c)"
proof -
  assume "length m \<le> n * c_S c" and "s + n \<le> c_N c" and "length (c_data c) = c_N c * c_S c"
  moreover from this have "(s + n) * c_S c \<le> c_N c * c_S c" by (intro mult_right_mono) simp_all
  ultimately show ?thesis by (simp add: same_size_def c_store_def add_mult_distrib)
qed

lemma store_same_at:
  assumes len: "length m \<le> n * c_S c" and fit: "s + n \<le> c_N c"
    and data: "length (c_data c) = c_N c * c_S c" and S: "0 < c_S c"
    and i: "i < c_N c" "i < s \<or> s + n \<le> i" and n: "0 < n"
  shows "same_at c (c_store s n m c) i"
  unfolding same_at_def
proof (intro conjI allI impI)
  show "c_mg (c_store s n m c) ! i = c_mg c ! i"
    using i n by (auto simp: c_store_def nth_list_update)
next
  fix k assume k: "k < c_S c"
  let ?o = "s * c_S c"
  have "(s + n) * c_S c \<le> c_N c * c_S c" using fit by (rule mult_right_mono) simp
  then have fit': "?o + length m \<le> length (c_data c)" using len data by (simp add: add_mult_distrib)
  have "(i + 1) * c_S c \<le> c_N c * c_S c" using i(1) by (intro mult_right_mono) simp_all
  then have "i * c_S c + k < length (c_data c)" using k data by simp
  moreover have "i * c_S c + k < ?o \<or> ?o + length m \<le> i * c_S c + k"
  proof (cases "i < s")
    case True
    then have "(i + 1) * c_S c \<le> s * c_S c" by (intro mult_right_mono) simp_all
    with k show ?thesis by simp
  next
    case False
    with i(2) have "(s + n) * c_S c \<le> i * c_S c" by (intro mult_right_mono) simp_all
    with len show ?thesis by (simp add: add_mult_distrib)
  qed
  ultimately show "c_data (c_store s n m c) ! (i * c_S c + k) = c_data c ! (i * c_S c + k)"
    using fit' by (auto simp: c_store_def nth_overwrite)
qed

lemma store_msg_at:
  assumes m: "0 < length m" "length m \<le> 65532" and n: "n = segs (c_S c) (length m)"
    and fit: "s + n \<le> c_N c" and data: "length (c_data c) = c_N c * c_S c" and S: "0 < c_S c"
  shows "msg_at (c_store s n m c) s m"
proof -
  have "length m \<le> n * c_S c" using segs_fits [OF S] n by simp
  moreover have "(s + n) * c_S c \<le> c_N c * c_S c" using fit by (rule mult_right_mono) simp
  ultimately have "s * c_S c + length m \<le> length (c_data c)" using data by (simp add: add_mult_distrib)
  moreover have "0 < n" using segs_pos [OF m(1) S] n by simp
  ultimately show ?thesis
    using m fit by (simp add: msg_at_def c_store_def n [symmetric] slice_overwrite_same)
qed

text \<open>
  The write position must not overtake the read position: \<open>push\<close> checks less than this when the
  free space does not wrap around and the message would reach the end of the queue.
\<close>

definition push_safe :: "cells \<Rightarrow> nat \<Rightarrow> bool" where
  "push_safe c k \<longleftrightarrow> c_rp c \<le> c_wp c \<or> c_wp c + segs (c_S c) k < c_N c"

lemma fits_safely:
  assumes ok: "cells_ok c" and room: "c_enough (c_N c) (c_wp c) (c_rp c) n"
    and safe: "c_rp c \<le> c_wp c \<or> c_wp c + n < c_N c"
  shows "if c_wp c + n > c_N c then c_rp c \<le> c_wp c \<and> n < c_rp c
         else vend c + n < c_rp c + c_N c"
  using assms by (auto simp: c_enough_def vend_def cells_ok_def Let_def split: if_splits)

lemma push_here:
  assumes rel: "fifo_rel c ms" and m: "0 < length m" "length m \<le> 65532"
    and n: "n = segs (c_S c) (length m)"
    and fit: "c_wp c + n \<le> c_N c" "vend c + n < c_rp c + c_N c"
  shows "fifo_rel (c_store (c_wp c) n m c) (ms @ [m])"
proof -
  let ?c = "c_store (c_wp c) n m c" and ?w = "c_wp c" and ?N = "c_N c"
  have ok: "0 < c_S c" "length (c_data c) = ?N * c_S c" "c_rp c < ?N" "?w < ?N"
    using rel by (auto simp: fifo_rel_def cells_ok_def)
  have n0: "0 < n" using segs_pos [OF m(1) ok(1)] n by simp
  have len: "length m \<le> n * c_S c" using segs_fits [OF ok(1)] n by simp
  have size: "same_size c ?c" using store_size [OF len fit(1) ok(2)] .
  then have sz: "c_S ?c = c_S c" "c_N ?c = ?N" "length (c_data ?c) = length (c_data c)"
    by (simp_all add: same_size_def)
  have same: "same_at c ?c i" if "i < ?N" "i < ?w \<or> ?w + n \<le> i" for i
    using store_same_at [OF len fit(1) ok(2,1) that n0] .
  have rp: "c_rp ?c = c_rp c" by (simp add: c_store_def)
  have wp: "c_wp ?c = (if ?w + n = ?N then 0 else ?w + n)"
    using n0 fit(1) by (auto simp: c_store_def)
  have vend: "vend ?c = vend c + n"
    using fit ok(3,4) n0 by (auto simp: vend_def rp wp sz split: if_splits)
  have vp: "vpos ?N (vend c) = ?w" using ok(4) by (auto simp: vend_def vpos_def)
  have "chain ?c (c_rp c) ms (vend c)"
  proof (rule chain_frame [OF _ size ok(2,1)])
    fix u assume "c_rp c \<le> u" "u < vend c"
    then show "same_at c ?c (vpos ?N u)"
      using fit ok(3,4) by (intro same) (auto simp: vpos_def vend_def split: if_splits)
  qed (use rel in \<open>simp add: fifo_rel_def\<close>)
  moreover have "msg_at ?c ?w m" using store_msg_at [OF m n fit(1) ok(2,1)] .
  ultimately have "chain ?c (c_rp c) (ms @ [m]) (vend c + segs (c_S ?c) (length m))"
    by (intro chain_snoc) (simp_all add: sz vp)
  then have "chain ?c (c_rp ?c) (ms @ [m]) (vend ?c)"
    by (simp add: sz rp vend n [symmetric])
  moreover have "all_free ?c (vend ?c) (c_rp ?c + c_N ?c)"
    unfolding all_free_def
  proof (intro allI impI)
    fix u assume u: "vend ?c \<le> u \<and> u < c_rp ?c + c_N ?c"
    then have "same_at c ?c (vpos ?N u)"
      using fit ok(3,4) n0
      by (intro same) (auto simp: vpos_def vend_def rp wp sz split: if_splits)
    moreover have "c_mg c ! vpos ?N u = MagicEmptySegment"
      using rel u vend by (simp add: fifo_rel_def all_free_def rp sz)
    ultimately show "c_mg ?c ! vpos (c_N ?c) u = MagicEmptySegment" by (simp add: same_at_def sz)
  qed
  moreover have "cells_ok ?c" using ok fit(1) by (auto simp: cells_ok_def rp wp sz)
  ultimately show ?thesis by (simp add: fifo_rel_def)
qed

lemma push_wrapped:
  assumes rel: "fifo_rel c ms" and m: "0 < length m" "length m \<le> 65532"
    and n: "n = segs (c_S c) (length m)"
    and fit: "c_rp c \<le> c_wp c" "n < c_rp c"
  shows "fifo_rel (c_store 0 n m (c\<lparr>c_mg := fill (c_wp c) (c_N c) MagicSkipSegment (c_mg c)\<rparr>))
    (ms @ [m])"
proof -
  let ?d = "c\<lparr>c_mg := fill (c_wp c) (c_N c) MagicSkipSegment (c_mg c)\<rparr>"
  let ?c = "c_store 0 n m ?d" and ?w = "c_wp c" and ?N = "c_N c"
  have ok: "0 < c_S c" "length (c_data c) = ?N * c_S c" "c_rp c < ?N" "?w < ?N"
    using rel by (auto simp: fifo_rel_def cells_ok_def)
  have n0: "0 < n" using segs_pos [OF m(1) ok(1)] n by simp
  have len: "length m \<le> n * c_S ?d" using segs_fits [OF ok(1)] n by simp
  have fitN: "0 + n \<le> c_N ?d" and data: "length (c_data ?d) = c_N ?d * c_S ?d" and S: "0 < c_S ?d"
    using fit ok by simp_all
  have size: "same_size c ?c"
    using store_size [OF len fitN data] by (simp add: same_size_def)
  then have sz: "c_S ?c = c_S c" "c_N ?c = ?N" "length (c_data ?c) = length (c_data c)"
    by (simp_all add: same_size_def)
  have same0: "same_at ?d ?c i" if "i < ?N" "n \<le> i" for i
    using store_same_at [OF len fitN data S, of i] that n0 by simp
  have same: "same_at c ?c i" if "i < ?w" "n \<le> i" for i
    using same0 [of i] that ok(4) by (simp add: same_at_def)
  have rp: "c_rp ?c = c_rp c" and wp: "c_wp ?c = n"
    using n0 fit ok(3) by (auto simp: c_store_def)
  have vend: "vend c = ?w" "vend ?c = ?N + n"
    using fit ok(3) by (simp_all add: vend_def rp wp sz)
  have "chain ?c (c_rp c) ms ?w"
  proof (rule chain_frame [OF _ size ok(2,1)])
    fix u assume "c_rp c \<le> u" "u < ?w"
    then show "same_at c ?c (vpos ?N u)"
      using fit ok(4) by (intro same) (auto simp: vpos_def)
  qed (use rel vend in \<open>simp add: fifo_rel_def\<close>)
  moreover have "filler ?c ?w"
    using same0 fit ok(4) by (auto simp: filler_def sz same_at_def)
  moreover have "msg_at ?c 0 m"
    using store_msg_at [of m n ?d 0, OF m _ fitN data S] n by simp
  ultimately have "chain ?c (c_rp ?c) (ms @ [m]) (vend ?c)"
    using chain_snoc_wrap [of ?c "c_rp c" ms ?w m] by (simp add: sz rp vend n [symmetric])
  moreover have "all_free ?c (vend ?c) (c_rp ?c + c_N ?c)"
    unfolding all_free_def
  proof (intro allI impI)
    fix u assume u: "vend ?c \<le> u \<and> u < c_rp ?c + c_N ?c"
    then have "same_at c ?c (vpos ?N u)"
      using fit ok(3,4) by (intro same) (auto simp: vpos_def vend rp sz)
    moreover have "c_mg c ! vpos ?N u = MagicEmptySegment"
      using rel u vend ok(4) by (simp add: fifo_rel_def all_free_def rp sz)
    ultimately show "c_mg ?c ! vpos (c_N ?c) u = MagicEmptySegment" by (simp add: same_at_def sz)
  qed
  moreover have "cells_ok ?c" using ok fit by (simp add: cells_ok_def rp wp sz)
  ultimately show ?thesis by (simp add: fifo_rel_def)
qed

lemma c_push_fifo:
  assumes rel: "fifo_rel c ms" and m: "0 < length m" and safe: "push_safe c (length m)"
    and push: "c_push m c = (e, c')"
  shows "case e of None \<Rightarrow> fifo_rel c' (ms @ [m])
    | Some x \<Rightarrow> c' = c \<and> x = (if length m > 65532 then RingTooLarge else RingFull)"
proof -
  let ?n = "segs (c_S c) (length m)"
  have ok: "cells_ok c" using rel by (simp add: fifo_rel_def)
  show ?thesis
  proof (cases "length m > 65532 \<or> \<not> c_enough (c_N c) (c_wp c) (c_rp c) ?n")
    case True
    with push show ?thesis by (auto simp: c_push_def Let_def split: if_splits)
  next
    case False
    with fits_safely [OF ok, of ?n] safe
    have fit: "if c_wp c + ?n > c_N c then c_rp c \<le> c_wp c \<and> ?n < c_rp c
        else vend c + ?n < c_rp c + c_N c" by (simp add: push_safe_def)
    show ?thesis
      using False fit push push_here [OF rel m _ refl] push_wrapped [OF rel m _ refl]
      by (auto simp: c_push_def Let_def split: if_splits)
  qed
qed

section \<open>Receiving\<close>

lemma fifo_rel_empty_iff: "fifo_rel c ms \<Longrightarrow> ms = [] \<longleftrightarrow> c_rp c = c_wp c"
proof (cases ms)
  case Nil
  assume "fifo_rel c ms"
  with Nil show ?thesis by (auto simp: fifo_rel_def vend_def cells_ok_def split: if_splits)
next
  case (Cons m ms')
  assume rel: "fifo_rel c ms"
  then have "c_rp c < vend c"
    using chain_less [of c "c_rp c" m ms' "vend c"] Cons by (simp add: fifo_rel_def cells_ok_def)
  with Cons show ?thesis by (auto simp: vend_def)
qed

text \<open>Freeing the segments up to the end moves the read position to the beginning.\<close>

lemma advance_wrap:
  assumes ok: "cells_ok c" and ch: "chain c (c_N c) ms (vend c)"
    and free: "all_free c (vend c) (c_rp c + c_N c)"
    and c': "c' = c\<lparr>c_mg := fill (c_rp c) (c_N c) MagicEmptySegment (c_mg c), c_rp := 0\<rparr>"
  shows "fifo_rel c' ms"
proof -
  let ?N = "c_N c"
  have N: "0 < c_S c" "length (c_data c) = ?N * c_S c" "c_rp c < ?N" "c_wp c < ?N"
    using ok by (auto simp: cells_ok_def)
  have "?N \<le> vend c" using chain_le [OF ch] .
  then have v: "vend c = c_wp c + ?N" "c_wp c < c_rp c" using N by (auto simp: vend_def split: if_splits)
  have size: "same_size c c'" by (simp add: same_size_def c')
  have v': "vend c' = c_wp c" by (simp add: vend_def c')
  have same: "same_at c c' i" if "i < c_rp c" for i
    using that N(3) by (simp add: same_at_def c')
  have "chain c' (?N + 0) ms (vend c)"
  proof (rule chain_frame [OF _ size N(2,1)])
    fix u assume "?N + 0 \<le> u" "u < vend c"
    then show "same_at c c' (vpos ?N u)" using v by (intro same) (simp add: vpos_def)
  qed (use ch in simp)
  then have "chain c' 0 ms (vend c')"
    using chain_shift [of c' 0 ms "vend c"] v v' N(1) by (simp add: c')
  moreover have "all_free c' (vend c') (c_rp c' + c_N c')"
    unfolding all_free_def
  proof (intro allI impI)
    fix u assume u: "vend c' \<le> u \<and> u < c_rp c' + c_N c'"
    show "c_mg c' ! vpos (c_N c') u = MagicEmptySegment"
    proof (cases "u < c_rp c")
      case True
      then have "c_mg c ! vpos ?N (?N + u) = MagicEmptySegment"
        using free u v v' N(3) by (simp add: all_free_def)
      with True N(3) show ?thesis by (simp add: vpos_def c')
    next
      case False
      with u show ?thesis by (simp add: vpos_def c')
    qed
  qed
  moreover have "cells_ok c'" using ok N by (auto simp: cells_ok_def c')
  ultimately show ?thesis by (simp add: fifo_rel_def c')
qed

lemma fill_fill:
  "a \<le> b \<Longrightarrow> b \<le> d \<Longrightarrow> fill b d v (fill a b v xs) = fill a d v xs"
  by (rule nth_equalityI) auto

lemma skip_end_filler: "filler c p \<Longrightarrow> skip_end p (c_mg c) = c_N c"
proof (induction "c_N c - p" arbitrary: p)
  case 0
  then show ?case by (simp add: filler_def)
next
  case (Suc k)
  then have p: "p < c_N c" "c_mg c ! p = MagicSkipSegment" by (auto simp: filler_def)
  show ?case
  proof (cases "Suc p = c_N c")
    case True
    with p show ?thesis by (simp add: skip_end.simps [of p] skip_end.simps [of "c_N c"])
  next
    case False
    then have "filler c (Suc p)" using Suc.prems p by (auto simp: filler_def)
    then have "skip_end (Suc p) (c_mg c) = c_N c" using Suc.hyps by (intro Suc.hyps(1)) auto
    with p show ?thesis by (simp add: skip_end.simps [of p])
  qed
qed

lemma c_peek_empty: "fifo_rel c [] \<Longrightarrow> c_peek c = (Inl RingEmpty, c)"
  using fifo_rel_empty_iff [of c "[]"] by (simp add: c_peek_def)

lemma c_peek_fifo:
  assumes rel: "fifo_rel c (m # ms)"
  shows "\<exists>c'. c_peek c = (Inr (length m, c_rp c'), c') \<and> fifo_rel c' (m # ms) \<and>
    msg_at c' (c_rp c') m \<and> c_S c' = c_S c \<and> c_data c' = c_data c \<and> c_wp c' = c_wp c"
proof -
  let ?N = "c_N c" and ?r = "c_rp c"
  have ne: "?r \<noteq> c_wp c" using fifo_rel_empty_iff [OF rel] by simp
  have ok: "cells_ok c" "?r < ?N" using rel by (auto simp: fifo_rel_def cells_ok_def)
  have ch: "chain c ?r (m # ms) (vend c)" and free: "all_free c (vend c) (?r + ?N)"
    using rel by (simp_all add: fifo_rel_def)
  from ch ok(2) consider (here) "msg_at c ?r m"
    | (wrap) "filler c ?r" "msg_at c 0 m" "chain c (?N + segs (c_S c) (length m)) ms (vend c)"
    by (auto simp: vpos_def)
  then show ?thesis
  proof cases
    case here
    then have "skip_end ?r (c_mg c) = ?r"
      using msg_at_entry(1) [OF here] by (simp add: skip_end.simps [of ?r])
    moreover have "c_mg c ! ?r \<noteq> MagicEmptySegment" "c_mg c ! ?r \<noteq> MagicSkipSegment"
        "unat (c_mg c ! ?r) = length m"
      using msg_at_entry [OF here] by auto
    moreover have "length m \<le> 65532" using here by (simp add: msg_at_def)
    ultimately have "c_peek c = (Inr (length m, ?r), c)"
      using ne ok(2) by (simp add: c_peek_def Let_def)
    with rel here show ?thesis by auto
  next
    case wrap
    let ?c = "c\<lparr>c_mg := fill ?r ?N MagicEmptySegment (c_mg c), c_rp := 0\<rparr>"
    have "chain c ?N (m # ms) (vend c)" using wrap(2,3) by (simp add: vpos_def)
    then have rel': "fifo_rel ?c (m # ms)" by (rule advance_wrap [OF ok(1) _ free refl])
    have "?N \<le> vend c" using chain_le [OF wrap(3)] by simp
    then have "0 < ?r" using ok by (auto simp: vend_def cells_ok_def split: if_splits)
    moreover have "0 < ?N" using ok(2) by linarith
    ultimately have at0: "c_mg ?c ! 0 = c_mg c ! 0" by simp
    then have big: "\<not> (c_mg ?c ! 0 = MagicEmptySegment \<or> c_mg ?c ! 0 = MagicSkipSegment)"
        "unat (c_mg ?c ! 0) = length m"
      using msg_at_entry [OF wrap(2)] by simp_all
    have "length m \<le> 65532" using wrap(2) by (simp add: msg_at_def)
    with big have "c_peek c = (Inr (length m, 0), ?c)"
      using ne skip_end_filler [OF wrap(1)] by (simp add: c_peek_def Let_def)
    moreover have "msg_at ?c 0 m"
    proof -
      have "chain ?c 0 (m # ms) (vend ?c)" using rel' by (simp add: fifo_rel_def)
      moreover have "\<not> filler ?c 0" using big by (auto simp: filler_def)
      ultimately show ?thesis by simp
    qed
    ultimately show ?thesis using rel' by auto
  qed
qed

lemma c_pop_fifo:
  assumes rel: "fifo_rel c (m # ms)" and head: "msg_at c (c_rp c) m"
  shows "\<exists>c'. c_pop c = (None, c') \<and> fifo_rel c' ms \<and> c_data c' = c_data c"
proof -
  let ?N = "c_N c" and ?r = "c_rp c" and ?n = "segs (c_S c) (length m)"
  let ?e = "?r + ?n"
  let ?c = "c\<lparr>c_mg := fill ?r ?e MagicEmptySegment (c_mg c)\<rparr>"
  have ne: "?r \<noteq> c_wp c" using fifo_rel_empty_iff [OF rel] by simp
  have ok: "cells_ok c" "?r < ?N" "0 < c_S c" "length (c_data c) = ?N * c_S c" "c_wp c < ?N"
    using rel by (auto simp: fifo_rel_def cells_ok_def)
  have e: "?e \<le> ?N" "?r < ?e" using head msg_at_pos [OF head ok(3)] by (auto simp: msg_at_def)
  have "\<not> filler c ?r" using msg_at_entry(1) [OF head] by (auto simp: filler_def)
  then have ch: "chain c ?e ms (vend c)" and free: "all_free c (vend c) (?r + ?N)"
    using rel by (auto simp: fifo_rel_def)
  let ?skip = "?e < ?N \<and> c_mg c ! ?e = MagicSkipSegment"
  have entry: "c_mg ?c ! ?e = c_mg c ! ?e" if "?e < ?N" using that by simp
  have run: "c_pop c = (None, if ?skip then ?c\<lparr>c_mg := fill ?e ?N MagicEmptySegment (c_mg ?c), c_rp := 0\<rparr>
      else ?c\<lparr>c_rp := (if ?e = ?N then 0 else ?e)\<rparr>)"
    using ne entry msg_at_entry(3) [OF head] by (auto simp: c_pop_def Let_def)
  show ?thesis
  proof (cases "?skip \<or> ?e = ?N")
    case True
    have "chain c ?N ms (vend c)"
    proof (cases "?e = ?N")
      case False
      with True have skip: ?skip by simp
      show ?thesis
      proof (cases ms)
        case Nil
        with ch have "vend c = ?e" by simp
        then have "c_mg c ! ?e = MagicEmptySegment"
          using free skip e by (auto simp: all_free_def vpos_def)
        with skip show ?thesis by (simp add: go_consts)
      next
        case (Cons m' ms')
        have "\<not> msg_at c ?e m'" using skip msg_at_entry(1) by blast
        with ch Cons skip show ?thesis by (auto simp: vpos_def)
      qed
    qed (use ch in simp)
    moreover have "snd (c_pop c) = c\<lparr>c_mg := fill ?r ?N MagicEmptySegment (c_mg c), c_rp := 0\<rparr>"
      using True e run by (auto simp: fill_fill)
    ultimately have "fifo_rel (snd (c_pop c)) ms" by (rule advance_wrap [OF ok(1) _ free])
    then show ?thesis using run True by (cases "?skip") auto
  next
    case False
    let ?c' = "?c\<lparr>c_rp := ?e\<rparr>"
    have lt: "?e < ?N" using False e(1) by simp
    have v: "?e \<le> vend c" using chain_le [OF ch] .
    then have v': "vend ?c' = vend c" using e ok(2,5) by (auto simp: vend_def split: if_splits)
    have size: "same_size c ?c'" by (simp add: same_size_def)
    have same: "same_at c ?c' i" if "i < ?N" "i < ?r \<or> ?e \<le> i" for i
      using that by (auto simp: same_at_def)
    have "chain ?c' ?e ms (vend c)"
    proof (rule chain_frame [OF ch size ok(4,3)])
      fix u assume "?e \<le> u" "u < vend c"
      then show "same_at c ?c' (vpos ?N u)"
        using ok(2,5) by (intro same) (auto simp: vpos_def vend_def split: if_splits)
    qed
    moreover have "all_free ?c' (vend c) (?e + ?N)"
      unfolding all_free_def
    proof (intro allI impI)
      fix u assume u: "vend c \<le> u \<and> u < ?e + ?N"
      show "c_mg ?c' ! vpos (c_N ?c') u = MagicEmptySegment"
      proof (cases "u < ?r + ?N")
        case True
        then have "c_mg c ! vpos ?N u = MagicEmptySegment" using free u by (simp add: all_free_def)
        then show ?thesis using True u ok(2) lt by (auto simp: vpos_def)
      next
        case False
        then show ?thesis using u lt by (auto simp: vpos_def)
      qed
    qed
    moreover have "cells_ok ?c'" using ok lt by (simp add: cells_ok_def)
    ultimately have "fifo_rel ?c' ms" by (simp add: fifo_rel_def v')
    moreover have "c_pop c = (None, ?c')" using run False by auto
    ultimately show ?thesis by simp
  qed
qed

end
