(* ===== verification/Ring_Queue.thy ===== *)
theory Ring_Queue
  imports Ring_Fifo Queue
begin

text \<open>
  The ring queue on its bytes: \<open>ring_rel\<close> relates a mapped ring to the messages it holds, through
  the cells of theory Ring_Cells. The behaviour of \<open>push\<close>, \<open>peek\<close> and \<open>pop\<close> on the mapped bytes is
  stated here, the receiving step of a ring connection included, and the limits of the space
  check of \<open>push\<close>.
\<close>

definition ring_rel :: "ring \<Rightarrow> bytes list \<Rightarrow> bool" where
  "ring_rel r ms \<longleftrightarrow> ring_geom r \<and> fifo_rel (cells_of r) ms"

text \<open>
  The receiving step of \<open>ringConn\<close> (ring_linux.go): peek, copy the message out of the mapped
  bytes, free its segments.
\<close>

definition take_message :: "ring \<Rightarrow> (ring_err + bytes) \<times> ring" where
  "take_message r =
     (case peek r of
        (Inl e, r) \<Rightarrow> (Inl e, r)
      | (Inr (sz, off), r) \<Rightarrow>
          let msg = slice off (unat sz) (rg_buf r) in (Inr msg, snd (pop r)))"

section \<open>Building a ring from its cells\<close>

text \<open>The mapped file that has the given cells; the first 72 bytes are not used by the ring.\<close>

definition ring_of_cells :: "cells \<Rightarrow> ring" where
  "ring_of_cells c = \<lparr>
     rg_buf = replicate 72 0 @ le_bytes 4 (82 + c_S c * (1 + c_N c)) @ le_bytes 2 (c_wp c) @
       le_bytes 2 (c_rp c) @ le_bytes 2 (c_N c) @ concat (map (\<lambda>m. le_bytes 2 (unat m)) (c_mg c)) @
       replicate (c_S c - 2 * c_N c) 0 @ c_data c,
     rg_segSize = word_of_nat (c_S c),
     rg_numSegs = word_of_nat (c_N c),
     rg_dataBase = word_of_nat (82 + c_S c)\<rparr>"

lemma slice_append:
  "off = length a \<Longrightarrow> n = length b \<Longrightarrow> slice off n (a @ b @ d) = b"
  by (simp add: slice_def)

lemma length_entries: "length (concat (map (\<lambda>m. le_bytes 2 (unat m)) ms)) = 2 * length ms"
  by (induction ms) simp_all

lemma slice_entry:
  "i < length ms \<Longrightarrow>
     slice (2 * i) 2 (concat (map (\<lambda>m. le_bytes 2 (unat m)) ms) @ t) = le_bytes 2 (unat (ms ! i))"
proof (induction ms arbitrary: i)
  case (Cons m ms)
  then show ?case by (cases i) (auto simp: slice_def)
qed simp

lemma slice_shift: "slice (length a + off) n (a @ b) = slice off n b"
  by (simp add: slice_def)

lemma get16_le_bytes: "slice off 2 b = le_bytes 2 (unat (v :: u16)) \<Longrightarrow> get16 off b = v"
  by (simp add: get16_def word_of_le_nat)

definition cells_fit :: "cells \<Rightarrow> bool" where
  "cells_fit c \<longleftrightarrow> cells_ok c \<and> (c_S c = 1024 \<or> c_S c = 4096) \<and> c_N c \<le> 2048 \<and> 2 * c_N c \<le> c_S c"

lemma get16_at:
  assumes "b = a @ le_bytes 2 v @ t" and "off = length a" and "v < 65536"
  shows "unat (get16 off b) = v"
proof -
  have "slice off 2 b = le_bytes 2 v" using assms(1,2) by (simp add: slice_def)
  then show ?thesis using assms(3) by (simp add: get16_def le_nat_le_bytes unat_of_nat)
qed

lemma ring_of_cells:
  assumes "cells_fit c"
  shows "ring_geom (ring_of_cells c)" and "cells_of (ring_of_cells c) = c"
proof -
  let ?r = "ring_of_cells c" and ?b = "rg_buf (ring_of_cells c)"
  have S: "c_S c = 1024 \<or> c_S c = 4096" and N: "c_N c \<le> 2048" "2 * c_N c \<le> c_S c"
    and ok: "length (c_data c) = c_N c * c_S c" "c_rp c < c_N c" "c_wp c < c_N c"
    using assms by (auto simp: cells_fit_def cells_ok_def)
  have geo: "unat (rg_segSize ?r) = c_S c" "unat (rg_numSegs ?r) = c_N c"
      "unat (rg_dataBase ?r) = 82 + c_S c"
    using S N by (auto simp: ring_of_cells_def unat_of_nat)
  have len: "length ?b = 82 + c_S c + c_N c * c_S c"
    using S N ok(1) by (simp add: ring_of_cells_def length_entries)
  have N0: "1 \<le> c_N c" using ok(2) by linarith
  show "ring_geom ?r" using S N N0 len by (simp add: ring_geom_def geo)
  have rp: "unat (get16 78 ?b) = c_rp c"
    by (rule get16_at [where a = "replicate 72 0 @ le_bytes 4 (82 + c_S c * (1 + c_N c)) @
        le_bytes 2 (c_wp c)"]) (use ok(2) N in \<open>simp_all add: ring_of_cells_def\<close>)
  have wp: "unat (get16 76 ?b) = c_wp c"
    by (rule get16_at [where a = "replicate 72 0 @ le_bytes 4 (82 + c_S c * (1 + c_N c))"])
      (use ok(3) N in \<open>simp_all add: ring_of_cells_def\<close>)
  obtain h t where b: "?b = h @ concat (map (\<lambda>m. le_bytes 2 (unat m)) (c_mg c)) @ t"
      and h: "length h = 82" and t: "t = replicate (c_S c - 2 * c_N c) 0 @ c_data c"
    by (simp add: ring_of_cells_def)
  have "get16 (82 + i * 2) ?b = c_mg c ! i" if "i < c_N c" for i
  proof (rule get16_le_bytes)
    have "slice (length h + 2 * i) 2 ?b = le_bytes 2 (unat (c_mg c ! i))"
      using that unfolding b slice_shift by (rule slice_entry)
    then show "slice (82 + i * 2) 2 ?b = le_bytes 2 (unat (c_mg c ! i))"
      by (simp add: h mult.commute)
  qed
  then have mg: "map (\<lambda>i. get16 (82 + i * 2) ?b) [0..<c_N c] = c_mg c"
    by (intro nth_equalityI) simp_all
  have "slice (82 + c_S c) (c_N c * c_S c) ?b = c_data c"
    using N(2) ok(1) by (simp add: slice_def b h t length_entries)
  with rp wp mg show "cells_of ?r = c"
    by (simp add: cells_of_def geo r_readPos_def r_writePos_def go_consts)
qed

section \<open>The operations on the bytes\<close>

lemma ring_relD:
  assumes "ring_rel r ms"
  shows "ring_geom r" and "fifo_rel (cells_of r) ms" and "cells_ok (cells_of r)"
    and "c_rp (cells_of r) < unat (rg_numSegs r)" and "c_wp (cells_of r) < unat (rg_numSegs r)"
  using assms by (simp_all add: ring_rel_def fifo_rel_def cells_ok_def)

lemma push_ring_rel:
  assumes rel: "ring_rel r ms" and m: "0 < length (concat bs)"
    and small: "\<forall>b \<in> set bs. length b < 4294901760"
    and safe: "push_safe (cells_of r) (length (concat bs))" and push: "push bs r = (e, r')"
  shows "case e of None \<Rightarrow> ring_rel r' (ms @ [concat bs])
    | Some x \<Rightarrow> r' = r \<and> x = (if length (concat bs) > 65532 then RingTooLarge else RingFull)"
proof -
  note D = ring_relD [OF rel]
  from push_cells [OF D(1,4,5) small push]
  have c: "c_push (concat bs) (cells_of r) = (e, cells_of r')" and g: "ring_geom r'" by auto
  from c_push_fifo [OF D(2) m safe c]
  have fifo: "case e of None \<Rightarrow> fifo_rel (cells_of r') (ms @ [concat bs])
    | Some x \<Rightarrow> cells_of r' = cells_of r \<and> x = (if length (concat bs) > 65532 then RingTooLarge else RingFull)" .
  show ?thesis
  proof (cases e)
    case None
    with fifo g show ?thesis by (simp add: ring_rel_def)
  next
    case (Some x)
    then have "x \<noteq> RingPanic" using fifo by auto
    with Some have "r' = r" using push by (auto simp: push_def Let_def split: option.splits prod.splits if_splits)
    with Some fifo show ?thesis by simp
  qed
qed

lemma msg_at_in_buffer:
  assumes g: "ring_geom r" and m: "msg_at (cells_of r) p m"
  shows "seg_off r p + length m \<le> length (rg_buf r)"
    and "slice (seg_off r p) (length m) (rg_buf r) = m"
proof -
  let ?S = "unat (rg_segSize r)" and ?N = "unat (rg_numSegs r)"
  have S: "0 < ?S" using ring_geomD(1) [OF g] by auto
  have "length m \<le> segs ?S (length m) * ?S" using segs_fits [OF S] .
  moreover have "(p + segs ?S (length m)) * ?S \<le> ?N * ?S"
    using m by (intro mult_right_mono) (simp_all add: msg_at_def)
  ultimately have fit: "p * ?S + length m \<le> ?N * ?S" by (simp add: add_mult_distrib)
  then show "seg_off r p + length m \<le> length (rg_buf r)"
    using ring_geomD(6) [OF g] by (simp add: seg_off_def)
  have "slice (p * ?S) (length m) (slice (82 + ?S) (?N * ?S) (rg_buf r)) = m"
    using m by (simp add: msg_at_def cells_of_def)
  then show "slice (seg_off r p) (length m) (rg_buf r) = m"
    using fit by (simp add: slice_def seg_off_def drop_take min_absorb1 le_diff_conv2
        add.commute add.left_commute)
qed

lemma peek_ring_rel:
  assumes rel: "ring_rel r (m # ms)"
  shows "\<exists>sz off r'. peek r = (Inr (sz, off), r') \<and> unat sz = length m \<and>
    off = seg_off r' (c_rp (cells_of r')) \<and> ring_rel r' (m # ms) \<and>
    msg_at (cells_of r') (c_rp (cells_of r')) m \<and> same_shape r r'"
proof -
  note D = ring_relD [OF rel]
  from c_peek_fifo [OF D(2)] obtain c' where c': "c_peek (cells_of r) = (Inr (length m, c_rp c'), c')"
      "fifo_rel c' (m # ms)" "msg_at c' (c_rp c') m" "c_S c' = c_S (cells_of r)"
      "c_data c' = c_data (cells_of r)" by blast
  obtain x r' where peek: "peek r = (x, r')" by (cases "peek r")
  have fits: "seg_off r p + sz \<le> length (rg_buf r)"
    if "fst (c_peek (cells_of r)) = Inr (sz, p)" for sz p
  proof -
    let ?S = "unat (rg_segSize r)"
    have S: "0 < ?S" using ring_geomD(1) [OF D(1)] by auto
    have "c_N c' = unat (rg_numSegs r)"
      using c'(2,4,5) length_c_data [OF D(1)] S by (auto simp: fifo_rel_def cells_ok_def)
    moreover have "(c_rp c' + segs ?S (length m)) * ?S \<le> c_N c' * ?S"
      using c'(3,4) by (intro mult_right_mono) (simp_all add: msg_at_def)
    moreover have "length m \<le> segs ?S (length m) * ?S" using segs_fits [OF S] .
    ultimately have "c_rp c' * ?S + length m \<le> unat (rg_numSegs r) * ?S"
      by (simp add: add_mult_distrib)
    then show ?thesis using that c'(1) ring_geomD(6) [OF D(1)] by (simp add: seg_off_def)
  qed
  from peek_cells [OF D(1,4,5) fits peek]
  have g: "ring_geom r'" "same_shape r r'"
    and cp: "c_peek (cells_of r) = (case x of Inl e \<Rightarrow> Inl e
       | Inr (sz, off) \<Rightarrow> Inr (unat sz, c_rp (cells_of r')), cells_of r')"
    and off: "\<forall>sz off. x = Inr (sz, off) \<longrightarrow> off = seg_off r (c_rp (cells_of r'))" by auto
  from cp c'(1) obtain sz off where x: "x = Inr (sz, off)" "unat sz = length m" "cells_of r' = c'"
    by (cases x) auto
  moreover have "seg_off r' p = seg_off r p" for p using g(2) by (simp add: seg_off_def same_shape_def)
  ultimately show ?thesis
    using peek off g c'(2,3) by (auto simp: ring_rel_def)
qed

lemma take_message_rel:
  assumes rel: "ring_rel r (m # ms)"
  shows "\<exists>r'. take_message r = (Inr m, r') \<and> ring_rel r' ms \<and> rg_segSize r' = rg_segSize r"
proof -
  from peek_ring_rel [OF rel] obtain sz off r1 where peek: "peek r = (Inr (sz, off), r1)" and sh: "same_shape r r1"
      and sz: "unat sz = length m" and off: "off = seg_off r1 (c_rp (cells_of r1))"
      and rel1: "ring_rel r1 (m # ms)" and m: "msg_at (cells_of r1) (c_rp (cells_of r1)) m" by blast
  note D = ring_relD [OF rel1]
  obtain e r2 where pop: "pop r1 = (e, r2)" by (cases "pop r1")
  have fits: "c_rp (cells_of r1) + segs (unat (rg_segSize r1))
      (unat (c_mg (cells_of r1) ! c_rp (cells_of r1))) \<le> unat (rg_numSegs r1)"
    using m msg_at_entry(3) [OF m] by (simp add: msg_at_def)
  from pop_cells [OF D(1,4,5) fits pop]
  have g2: "ring_geom r2" "same_shape r1 r2" and c2: "c_pop (cells_of r1) = (e, cells_of r2)" by auto
  from c_pop_fifo [OF D(2) m] c2 have "fifo_rel (cells_of r2) ms" by auto
  then have "ring_rel r2 ms" using g2 by (simp add: ring_rel_def)
  moreover have "slice off (unat sz) (rg_buf r1) = m"
    using msg_at_in_buffer(2) [OF D(1) m] by (simp add: sz off)
  ultimately show ?thesis using sh g2(2) by (simp add: take_message_def peek pop same_shape_def)
qed

lemma take_message_empty: "ring_rel r [] \<Longrightarrow> take_message r = (Inl RingEmpty, r)"
proof -
  assume rel: "ring_rel r []"
  then have "r_readPos r = r_writePos r"
    using fifo_rel_empty_iff [of "cells_of r" "[]"]
    by (simp add: ring_rel_def cells_of_rp cells_of_wp unat_eq_iff)
  then show ?thesis by (simp add: take_message_def peek_def)
qed

section \<open>The ring is a queue\<close>

definition ring_snd :: "bytes \<Rightarrow> ring \<Rightarrow> bool \<times> ring" where
  "ring_snd m r = (case push [m] r of (e, r') \<Rightarrow> (e = None, r'))"

definition ring_rcv :: "ring \<Rightarrow> bytes option \<times> ring" where
  "ring_rcv r = (case take_message r of (Inl _, r') \<Rightarrow> (None, r') | (Inr m, r') \<Rightarrow> (Some m, r'))"

text \<open>
  A message that takes one segment of \<open>S\<close> bytes. The empty message is none: \<open>push\<close> asks for no space for
  it and the receiver never gets past it (\<open>empty_message_blocks\<close> below).
\<close>

definition one_segment :: "nat \<Rightarrow> bytes \<Rightarrow> bool" where
  "one_segment S m \<longleftrightarrow> 0 < length m \<and> length m \<le> S"

lemma one_segment_segs:
  assumes "ring_rel r ms" and "one_segment (unat (rg_segSize r)) m"
  shows "segs (unat (rg_segSize r)) (length m) = 1" and "length m \<le> 4096"
proof -
  have S: "unat (rg_segSize r) = 1024 \<or> unat (rg_segSize r) = 4096"
    using ring_geomD(1) [OF ring_relD(1) [OF assms(1)]] .
  then show "length m \<le> 4096" using assms(2) by (auto simp: one_segment_def)
  from S show "segs (unat (rg_segSize r)) (length m) = 1"
    using assms(2) by (auto simp: segs_def one_segment_def Suc_le_eq intro!: div_nat_eqI)
qed

lemma one_segment_safe:
  assumes "ring_rel r ms" and "one_segment (unat (rg_segSize r)) m"
  shows "push_safe (cells_of r) (length m)"
  using one_segment_segs [OF assms] ring_relD(4,5) [OF assms(1)] by (auto simp: push_safe_def)

lemma push_segSize:
  assumes "ring_rel r ms" and "\<forall>b \<in> set bs. length b < 4294901760" and "push bs r = (e, r')"
  shows "rg_segSize r' = rg_segSize r"
  using push_cells [OF ring_relD(1,4,5) [OF assms(1)] assms(2,3)] by (simp add: same_shape_def)

text \<open>A ring of segments of \<open>S\<close> bytes that holds the messages \<open>ms\<close>.\<close>

definition ring_holds :: "nat \<Rightarrow> ring \<Rightarrow> bytes list \<Rightarrow> bool" where
  "ring_holds S r ms \<longleftrightarrow> ring_rel r ms \<and> unat (rg_segSize r) = S"

interpretation ring_queue: fifo "ring_holds S" ring_snd ring_rcv "one_segment S" for S
proof
  fix r ms m ok r'
  assume "ring_holds S r ms" and "one_segment S m" and s: "ring_snd m r = (ok, r')"
  then have rel: "ring_rel r ms" and m: "one_segment (unat (rg_segSize r)) m" and S: "unat (rg_segSize r) = S"
    by (simp_all add: ring_holds_def)
  obtain e where push: "push [m] r = (e, r')" and ok: "ok = (e = None)"
    using s by (cases "push [m] r") (auto simp: ring_snd_def)
  have "case e of None \<Rightarrow> ring_rel r' (ms @ [concat [m]])
    | Some x \<Rightarrow> r' = r \<and> x = (if length (concat [m]) > 65532 then RingTooLarge else RingFull)"
    using m one_segment_safe [OF rel m] one_segment_segs(2) [OF rel m]
    by (intro push_ring_rel [OF rel _ _ _ push]) (auto simp: one_segment_def)
  moreover have "rg_segSize r' = rg_segSize r"
    using push_segSize [OF rel _ push] one_segment_segs(2) [OF rel m] by simp
  ultimately show "ring_holds S r' (if ok then ms @ [m] else ms)"
    using rel S by (auto simp: ok ring_holds_def split: option.splits)
next
  fix r ms x r'
  assume "ring_holds S r ms" and r: "ring_rcv r = (x, r')"
  then have rel: "ring_rel r ms" and S: "unat (rg_segSize r) = S" by (simp_all add: ring_holds_def)
  show "x = (case ms of [] \<Rightarrow> None | m # _ \<Rightarrow> Some m) \<and> ring_holds S r' (tl ms)"
  proof (cases ms)
    case Nil
    with rel r S take_message_empty [of r] show ?thesis by (auto simp: ring_rcv_def ring_holds_def)
  next
    case (Cons m ms')
    with rel obtain r1 where "take_message r = (Inr m, r1)" "ring_rel r1 ms'" "rg_segSize r1 = rg_segSize r"
      using take_message_rel [of r m ms'] by blast
    with r Cons S show ?thesis by (auto simp: ring_rcv_def ring_holds_def)
  qed
qed

section \<open>Example rings\<close>

text \<open>
  Rings of four 1024-byte segments for the witnesses: an empty one at segment 0, and one that
  holds three one-segment messages in segments 2, 3 and 0, with segment 1 free.
\<close>

definition zeros :: "nat \<Rightarrow> bytes" where
  "zeros k = replicate k 0"

definition empty_cells :: cells where
  "empty_cells = \<lparr>c_S = 1024, c_rp = 0, c_wp = 0, c_mg = replicate 4 MagicEmptySegment,
     c_data = zeros 4096\<rparr>"

definition full_cells :: cells where
  "full_cells = \<lparr>c_S = 1024, c_rp = 2, c_wp = 1, c_mg = [10, MagicEmptySegment, 10, 10],
     c_data = zeros 4096\<rparr>"

lemma slice_zeros: "off + n \<le> k \<Longrightarrow> slice off n (zeros k) = zeros n"
  by (simp add: slice_def zeros_def)

lemma empty_cells_rel: "fifo_rel empty_cells [] \<and> cells_fit empty_cells"
  by (auto simp: fifo_rel_def cells_ok_def cells_fit_def vend_def all_free_def empty_cells_def
      vpos_def zeros_def)

lemma full_cells_rel: "fifo_rel full_cells [zeros 10, zeros 10, zeros 10] \<and> cells_fit full_cells"
proof -
  have m: "msg_at full_cells p (zeros 10)" if "p \<in> {0, 2, 3}" for p
    using that slice_zeros [of "p * 1024" 10 4096]
    by (auto simp: msg_at_def full_cells_def segs_def zeros_def)
  have "chain full_cells 2 [zeros 10, zeros 10, zeros 10] 5"
    using m [of 0] m [of 2] m [of 3] by (simp add: vpos_def full_cells_def segs_def zeros_def)
  moreover have "all_free full_cells 5 6"
    unfolding all_free_def
  proof (intro allI impI)
    fix u :: nat assume "5 \<le> u \<and> u < 6"
    then have "u = 5" by linarith
    then show "c_mg full_cells ! vpos (c_N full_cells) u = MagicEmptySegment"
      by (simp add: vpos_def full_cells_def)
  qed
  moreover have "cells_fit full_cells" by (simp add: cells_fit_def cells_ok_def full_cells_def zeros_def)
  moreover have "vend full_cells = 5" "c_rp full_cells = 2" "c_N full_cells = 4"
    by (simp_all add: vend_def full_cells_def)
  ultimately show ?thesis by (simp add: fifo_rel_def cells_fit_def)
qed

definition empty_ring :: ring where
  "empty_ring = ring_of_cells empty_cells"

definition full_ring :: ring where
  "full_ring = ring_of_cells full_cells"

lemma empty_ring_rel: "ring_rel empty_ring []" and cells_empty_ring: "cells_of empty_ring = empty_cells"
  using empty_cells_rel ring_of_cells [of empty_cells] by (simp_all add: ring_rel_def empty_ring_def)

lemma full_ring_rel: "ring_rel full_ring [zeros 10, zeros 10, zeros 10]"
  and cells_full_ring: "cells_of full_ring = full_cells"
  using full_cells_rel ring_of_cells [of full_cells] by (simp_all add: ring_rel_def full_ring_def)

section \<open>Properties\<close>

text \<open>
  C11: \<open>push\<close> of a message that is not empty, from buffers of fewer than 4294901760 bytes each, on a
  ring that holds the messages \<open>ms\<close> either appends the concatenation of its buffers as the newest
  message, or reports that the message exceeds the maximal write size or that the queue is full
  and leaves every byte of the ring as it was. Excluded is the case in which the message would
  reach the end of the queue while the free space lies before unread messages (\<open>push_safe\<close>):
  there the space check fails and unread messages are overwritten (\<open>push_overruns\<close>).
\<close>

theorem ring_push_appends:
  assumes "ring_rel r ms" and "concat bs \<noteq> []" and "\<forall>b \<in> set bs. length b < 4294901760"
    and "push_safe (cells_of r) (length (concat bs))"
  shows "\<exists>r'. push bs r = (None, r') \<and> ring_rel r' (ms @ [concat bs]) \<or>
    push bs r = (Some RingFull, r) \<and> length (concat bs) \<le> 65532 \<or>
    push bs r = (Some RingTooLarge, r) \<and> length (concat bs) > 65532"
proof -
  obtain e r' where push: "push bs r = (e, r')" by (cases "push bs r")
  have "0 < length (concat bs)" using assms(2) by blast
  from push_ring_rel [OF assms(1) this assms(3,4) push] push show ?thesis
    by (cases e) (auto split: if_splits)
qed

theorem ring_push_appends_witness:
  "\<exists>r'. push [zeros 3, zeros 5] empty_ring = (None, r') \<and> ring_rel r' [zeros 8] \<or>
    push [zeros 3, zeros 5] empty_ring = (Some RingFull, empty_ring)"
  using ring_push_appends [OF empty_ring_rel, of "[zeros 3, zeros 5]"]
  by (simp add: push_safe_def cells_empty_ring empty_cells_def zeros_def flip: replicate_add)

text \<open>
  C12: the receiving step (peek, copy out, pop) returns exactly the oldest message of the ring and
  leaves the ring holding the others, skip segments at the end of the queue included; on an
  empty ring it reports \<open>RingEmpty\<close> and changes nothing.
\<close>

theorem ring_take_oldest:
  assumes "ring_rel r ms"
  shows "case ms of [] \<Rightarrow> take_message r = (Inl RingEmpty, r)
    | m # rest \<Rightarrow> \<exists>r'. take_message r = (Inr m, r') \<and> ring_rel r' rest"
  using assms take_message_rel take_message_empty by (cases ms) (auto, blast)

theorem ring_take_oldest_witness:
  "\<exists>r'. take_message full_ring = (Inr (zeros 10), r') \<and> ring_rel r' [zeros 10, zeros 10]"
  using ring_take_oldest [OF full_ring_rel] by simp

text \<open>
  C13: any interleaving of sends and receives of messages of at least one byte that fit one segment
  of the ring, 1024 or 4096 bytes, from a ring that holds \<open>ms\<close>, delivers a prefix of \<open>ms\<close> followed by
  the accepted messages, in order, without loss or duplication, and the ring holds what was not
  delivered yet.
\<close>

theorem ring_history_fifo:
  assumes "ring_rel r ms" and "\<forall>m. Snd m \<in> set ops \<longrightarrow> one_segment (unat (rg_segSize r)) m"
    and "run_queue ring_snd ring_rcv ops r = (acc, del, r')"
  shows "\<exists>rest. ms @ acc = del @ rest \<and> ring_rel r' rest"
proof -
  have "ring_holds (unat (rg_segSize r)) r ms" using assms(1) by (simp add: ring_holds_def)
  from ring_queue.run_rel [OF this assms(2,3)] show ?thesis by (auto simp: ring_holds_def)
qed

theorem ring_history_fifo_witness:
  "\<exists>acc del r' rest. run_queue ring_snd ring_rcv [Snd [1, 2], Rcv, Snd [3], Rcv, Rcv] full_ring = (acc, del, r') \<and>
     [zeros 10, zeros 10, zeros 10] @ acc = del @ rest \<and> ring_rel r' rest"
proof -
  let ?ops = "[Snd [1, 2], Rcv, Snd [3], Rcv, Rcv] :: bytes queue_op list"
  obtain acc del r' where run: "run_queue ring_snd ring_rcv ?ops full_ring = (acc, del, r')"
    using prod_cases3 by blast
  have "unat (rg_segSize full_ring) = 1024" using cells_of_S [of full_ring] by (simp add: cells_full_ring full_cells_def)
  then have "\<forall>m. Snd m \<in> set ?ops \<longrightarrow> one_segment (unat (rg_segSize full_ring)) m" by (auto simp: one_segment_def)
  from ring_history_fifo [OF full_ring_rel this run] run show ?thesis by blast
qed

lemma push_one:
  assumes "ring_rel r ms" and "length m \<le> 65532"
  shows "\<exists>e r'. push [m] r = (e, r') \<and> ring_geom r' \<and> same_shape r r' \<and>
    c_push m (cells_of r) = (e, cells_of r')"
  using push_cells [OF ring_relD(1,4,5) [OF assms(1)], of "[m]"] assms(2)
  by (cases "push [m] r") auto

text \<open>
  C32: exactly when a message is accepted by an empty ring: it must need fewer segments than the
  queue has and either fit between the write position and the end, or fit strictly before the
  write position. A message of at most half the segments is therefore always accepted, while a
  larger one can be refused by an empty ring, whose positions no receiver will ever move.
\<close>

theorem empty_ring_accepts_iff:
  assumes "ring_rel r []" and "length m \<le> 65532"
    and n: "n = segs (unat (rg_segSize r)) (length m)"
  shows "(fst (push [m] r) = None \<longleftrightarrow>
      n < unat (rg_numSegs r) \<and>
      (unat (r_writePos r) + n \<le> unat (rg_numSegs r) \<or> n < unat (r_writePos r))) \<and>
    (0 < n \<and> 2 * n \<le> unat (rg_numSegs r) \<longrightarrow> fst (push [m] r) = None)"
proof -
  let ?c = "cells_of r"
  obtain e r' where push: "push [m] r = (e, r')" and cp: "c_push m ?c = (e, cells_of r')"
    using push_one [OF assms(1,2)] by blast
  have eq: "c_rp ?c = c_wp ?c" using assms(1) fifo_rel_empty_iff [of ?c "[]"] by (simp add: ring_rel_def)
  have lt: "c_wp ?c < unat (rg_numSegs r)" using ring_relD(5) [OF assms(1)] .
  have "e = None \<longleftrightarrow> c_enough (unat (rg_numSegs r)) (c_wp ?c) (c_wp ?c) n"
    using cp assms(2) eq by (auto simp: c_push_def Let_def n split: if_splits)
  moreover have "c_enough (unat (rg_numSegs r)) (c_wp ?c) (c_wp ?c) n \<longleftrightarrow>
      n < unat (rg_numSegs r) \<and> (c_wp ?c + n \<le> unat (rg_numSegs r) \<or> n < c_wp ?c)"
    using lt by (auto simp: c_enough_def Let_def)
  ultimately have iff: "fst (push [m] r) = None \<longleftrightarrow>
      n < unat (rg_numSegs r) \<and>
      (unat (r_writePos r) + n \<le> unat (rg_numSegs r) \<or> n < unat (r_writePos r))"
    by (simp add: push cells_of_wp)
  then show ?thesis by linarith
qed

theorem empty_ring_accepts_iff_witness: "fst (push [zeros 2000] empty_ring) = None"
proof -
  have geo: "unat (rg_segSize empty_ring) = 1024" "unat (rg_numSegs empty_ring) = 4"
    using cells_of_S [of empty_ring] cells_of_N [of empty_ring]
    by (simp_all add: cells_empty_ring empty_cells_def)
  then show ?thesis
    using empty_ring_accepts_iff [OF empty_ring_rel, of "zeros 2000" 2]
    by (simp add: segs_def zeros_def)
qed

section \<open>Opening a queue\<close>

lemma get32_at:
  assumes "b = a @ le_bytes 4 v @ t" and "off = length a" and "v < 4294967296"
  shows "unat (get32 off b) = v"
proof -
  have "slice off 4 b = le_bytes 4 v" using assms(1,2) by (simp add: slice_def)
  then show ?thesis using assms(3) by (simp add: get32_def le_nat_le_bytes unat_of_nat)
qed

lemma deriveGeometry_layout:
  fixes S N :: nat
  assumes S: "S = 1024 \<or> S = 4096" and N: "1 \<le> N" "N \<le> 2048"
    and sz: "unat sz = 82 + S * (1 + N)" and n: "unat n = N"
  shows "deriveGeometry sz n = Inr (word_of_nat S, word_of_nat (82 + S))"
proof -
  have n1: "unat (1 + n) = 1 + N"
    using N n unat_add_small [of 1 n] by simp
  have num: "unat (sz - 82) = S * (1 + N)"
    using sz unat_sub [of 82 sz] by (simp add: word_le_nat_alt)
  have "unat ((sz - 82) mod (1 + n)) = 0"
    unfolding unat_mod num n1 by (metis mod_mult_self2_is_0)
  then have "(sz - 82) mod (1 + n) = 0" by (simp add: unat_eq_0)
  moreover have "unat ((sz - 82) div (1 + n)) = S"
    unfolding unat_div num n1 by (rule nonzero_mult_div_cancel_right) simp
  then have "(sz - 82) div (1 + n) = word_of_nat S"
    using S by (auto simp: word_unat_eq_iff unat_of_nat)
  moreover have "n \<noteq> 0" "\<not> n > 2048" "\<not> sz \<le> 82"
    using N n sz S by (auto simp: word_less_nat_alt word_le_nat_alt)
  ultimately show ?thesis
    using S by (auto simp: deriveGeometry_def Let_def go_consts)
qed

text \<open>The owner's layout of a queue is opened with its geometry.\<close>

lemma newRing_layout:
  assumes S: "c_S c = 1024 \<or> c_S c = 4096" and N: "c_N c \<le> 2048"
    and ok: "length (c_data c) = c_N c * c_S c" "c_rp c < c_N c" "c_wp c < c_N c"
  shows "newRing (rg_buf (ring_of_cells c)) = Inr (ring_of_cells c)"
proof -
  let ?r = "ring_of_cells c" and ?b = "rg_buf (ring_of_cells c)"
  have N0: "1 \<le> c_N c" using ok(2) by linarith
  have len: "82 + c_S c + c_N c * c_S c \<le> length ?b"
    using ok(1) by (simp add: ring_of_cells_def length_entries)
  have rp: "unat (get16 78 ?b) = c_rp c"
    by (rule get16_at [where a = "replicate 72 0 @ le_bytes 4 (82 + c_S c * (1 + c_N c)) @
        le_bytes 2 (c_wp c)"]) (use ok(2) N in \<open>simp_all add: ring_of_cells_def\<close>)
  have wp: "unat (get16 76 ?b) = c_wp c"
    by (rule get16_at [where a = "replicate 72 0 @ le_bytes 4 (82 + c_S c * (1 + c_N c))"])
      (use ok(3) N in \<open>simp_all add: ring_of_cells_def\<close>)
  have num: "unat (get16 80 ?b) = c_N c"
    by (rule get16_at [where a = "replicate 72 0 @ le_bytes 4 (82 + c_S c * (1 + c_N c)) @
        le_bytes 2 (c_wp c) @ le_bytes 2 (c_rp c)"]) (use N in \<open>simp_all add: ring_of_cells_def\<close>)
  have "c_S c * (1 + c_N c) \<le> 4096 * 2049" using S N by (intro mult_le_mono) auto
  then have sz: "unat (get32 72 ?b) = 82 + c_S c * (1 + c_N c)"
    by (intro get32_at [where a = "replicate 72 0"]) (simp_all add: ring_of_cells_def)
  have "word_of_nat (c_N c) = (ucast (get16 80 ?b) :: u32)"
    using num N by (simp add: word_unat_eq_iff unat_of_nat)
  then have n: "rg_numSegs ?r = ucast (get16 80 ?b)" by (simp add: ring_of_cells_def)
  have "parseHeader ?b = Inr \<lparr>rh_numSegs = ucast (get16 80 ?b), rh_sizeOfMemory = get32 72 ?b,
      rh_readPos = ucast (get16 78 ?b), rh_writePos = ucast (get16 76 ?b)\<rparr>"
    using len num rp wp N N0 ok
    by (auto simp: parseHeader_def Let_def go_consts word_less_nat_alt unat_eq_0 [symmetric])
  moreover have "deriveGeometry (get32 72 ?b) (ucast (get16 80 ?b)) =
      Inr (word_of_nat (c_S c), word_of_nat (82 + c_S c))"
    using sz num by (intro deriveGeometry_layout [OF S N0 N]) simp_all
  moreover have "\<not> length ?b < unat (word_of_nat (82 + c_S c) :: u32) +
      unat (ucast (get16 80 ?b) :: u32) * unat (word_of_nat (c_S c) :: u32)"
    using len num S by (auto simp: unat_of_nat)
  ultimately show ?thesis
    by (simp add: newRing_def n [symmetric]) (simp add: ring_of_cells_def)
qed

text \<open>
  C36: a queue that \<open>newRing\<close> opens is the given buffer with a segment size of 1024 or 4096 bytes
  and 1 to 2048 segments that all lie inside the buffer, and positions of at most the number
  of segments. When the management entries fit their segment the geometry is sound.
\<close>

theorem newRing_geometry:
  assumes "newRing b = Inr r"
  shows "rg_buf r = b \<and> unat (rg_segSize r) \<in> {1024, 4096} \<and>
    unat (rg_numSegs r) \<in> {1..2048} \<and>
    unat (rg_dataBase r) + unat (rg_numSegs r) * unat (rg_segSize r) \<le> length b \<and>
    r_readPos r \<le> rg_numSegs r \<and> r_writePos r \<le> rg_numSegs r \<and>
    (ring_geom r \<longleftrightarrow> 2 * unat (rg_numSegs r) \<le> unat (rg_segSize r))"
proof -
  from assms obtain h segSize dataBase where h: "parseHeader b = Inr h"
      and g: "deriveGeometry (rh_sizeOfMemory h) (rh_numSegs h) = Inr (segSize, dataBase)"
      and len: "unat dataBase + unat (rh_numSegs h) * unat segSize \<le> length b"
      and r: "r = \<lparr>rg_buf = b, rg_segSize = segSize, rg_numSegs = rh_numSegs h, rg_dataBase = dataBase\<rparr>"
    by (auto simp: newRing_def split: if_splits)
  from h have "rh_numSegs h \<noteq> 0" "rh_numSegs h \<le> 2048" "r_readPos r \<le> rh_numSegs h"
      "r_writePos r \<le> rh_numSegs h"
    by (auto simp: parseHeader_def Let_def r_readPos_def r_writePos_def r go_consts split: if_splits)
  moreover from g have "segSize = 4096 \<or> segSize = 1024" "dataBase = 82 + segSize"
    by (auto simp: deriveGeometry_def Let_def go_consts split: if_splits)
  ultimately show ?thesis
    using len by (auto simp: ring_geom_def r word_le_nat_alt unat_eq_0 [symmetric] Suc_le_eq)
qed

theorem newRing_geometry_witness: "ring_geom empty_ring"
proof -
  have "newRing (rg_buf empty_ring) = Inr empty_ring"
    unfolding empty_ring_def
    by (rule newRing_layout) (simp_all add: empty_cells_def zeros_def)
  from newRing_geometry [OF this] show ?thesis
    using cells_of_S [of empty_ring] cells_of_N [of empty_ring]
    by (simp add: cells_empty_ring empty_cells_def)
qed

text \<open>
  in 1024-byte mode \<open>newRing\<close> accepts more segments than the management segment has room for:
  from 513 segments on, the entry of segment 512 is the first two bytes of data segment 0, so
  marking that segment overwrites message bytes.
\<close>

theorem newRing_entries_overlap_data:
  assumes "newRing b = Inr r" and "rg_segSize r = 1024" and "rg_numSegs r > 512"
  shows "take 2 (dataSeg 0 (setMgmt 512 v r)) = le_bytes 2 (unat v)"
proof -
  have len: "unat (rg_dataBase r) + unat (rg_numSegs r) * 1024 \<le> length (rg_buf r)"
    and base: "rg_dataBase r = 1106"
    using assms
    by (auto simp: newRing_def deriveGeometry_def Let_def go_consts split: if_splits)
  have "513 \<le> unat (rg_numSegs r)" using assms(3) by (simp add: word_less_nat_alt)
  then have "1106 + 513 * 1024 \<le> length (rg_buf r)" using len base by simp
  then show ?thesis
    by (simp add: dataSeg_def setMgmt_def put16_def go_consts assms(2) base slice_def overwrite_def)
qed

definition big_cells :: cells where
  "big_cells = \<lparr>c_S = 1024, c_rp = 0, c_wp = 0, c_mg = replicate 600 MagicEmptySegment,
     c_data = zeros (600 * 1024)\<rparr>"

theorem newRing_entries_overlap_data_witness:
  "newRing (rg_buf (ring_of_cells big_cells)) = Inr (ring_of_cells big_cells) \<and>
   take 2 (dataSeg 0 (setMgmt 512 MagicSkipSegment (ring_of_cells big_cells))) = le_bytes 2 65533"
proof -
  have new: "newRing (rg_buf (ring_of_cells big_cells)) = Inr (ring_of_cells big_cells)"
    by (rule newRing_layout) (simp_all add: big_cells_def zeros_def)
  have "rg_segSize (ring_of_cells big_cells) = 1024" "rg_numSegs (ring_of_cells big_cells) > 512"
    by (simp_all add: ring_of_cells_def big_cells_def)
  from newRing_entries_overlap_data [OF new this, of MagicSkipSegment] new
  show ?thesis by (simp add: go_consts)
qed

section \<open>Limits of the space check\<close>

text \<open>
  C33: \<open>push\<close> overruns unread messages. When the free space lies before the read position and the
  message reaches exactly the end of the queue, the space check accepts it although the space
  ends at the read position; the entry of the oldest unread message is then overwritten with
  the skip magic, and the write position moves to the beginning, where other unread messages lie.
\<close>

theorem push_overruns:
  assumes "ring_rel r ms" and "r_writePos r < r_readPos r"
    and "0 < length m" and "length m \<le> 65532"
    and "unat (r_writePos r) + segs (unat (rg_segSize r)) (length m) = unat (rg_numSegs r)"
    and "0 < r_writePos r"
  shows "\<exists>r'. push [m] r = (None, r') \<and> r_writePos r' = 0 \<and> r_readPos r' = r_readPos r \<and>
    r_mgmt (r_readPos r) r' = MagicSkipSegment"
proof -
  let ?c = "cells_of r" and ?n = "segs (unat (rg_segSize r)) (length m)" and ?w = "c_wp (cells_of r)"
  obtain e r' where push: "push [m] r = (e, r')" and g: "ring_geom r'" "same_shape r r'"
      and cp: "c_push m ?c = (e, cells_of r')"
    using push_one [OF assms(1,4)] by blast
  have pos: "?w < c_rp ?c" "c_rp ?c < unat (rg_numSegs r)" "0 < ?w"
    using assms(2,6) ring_relD(4) [OF assms(1)]
    by (simp_all add: cells_of_rp cells_of_wp word_less_nat_alt)
  have sum: "?w + ?n = unat (rg_numSegs r)" using assms(5) by (simp add: cells_of_wp)
  have n0: "0 < ?n" using sum pos by linarith
  have "c_enough (unat (rg_numSegs r)) ?w (c_rp ?c) ?n"
    using sum pos by (auto simp: c_enough_def Let_def)
  then have c': "e = None" "cells_of r' = c_store ?w ?n m ?c"
    using cp assms(4) sum by (auto simp: c_push_def Let_def)
  have wp: "c_wp (cells_of r') = 0" using sum n0 by (simp add: c' c_store_def)
  have rp: "c_rp (cells_of r') = c_rp ?c" by (simp add: c' c_store_def)
  have "c_mg (cells_of r') ! c_rp ?c = MagicSkipSegment"
    using pos sum by (simp add: c' c_store_def)
  moreover have "unat (r_readPos r) < unat (rg_numSegs r')"
    using pos(2) g(2) by (simp add: cells_of_rp same_shape_def)
  ultimately have "r_mgmt (r_readPos r) r' = MagicSkipSegment"
    by (simp add: r_mgmt_cells cells_of_rp)
  moreover have "r_writePos r' = 0" using wp by (simp add: cells_of_wp unat_eq_0)
  moreover have "r_readPos r' = r_readPos r" using rp by (simp add: cells_of_rp unat_eq_iff)
  ultimately show ?thesis using push c'(1) by simp
qed

theorem push_overruns_witness:
  "ring_rel full_ring [zeros 10, zeros 10, zeros 10] \<and>
   (\<exists>r'. push [zeros 3000] full_ring = (None, r') \<and> r_writePos r' = 0 \<and>
     r_mgmt 2 r' = MagicSkipSegment)"
proof -
  have pos: "unat (r_readPos full_ring) = 2" "unat (r_writePos full_ring) = 1"
    and geo: "unat (rg_segSize full_ring) = 1024" "unat (rg_numSegs full_ring) = 4"
    using cells_of_S [of full_ring] cells_of_N [of full_ring] cells_of_rp [of full_ring]
      cells_of_wp [of full_ring]
    by (simp_all add: cells_full_ring full_cells_def)
  have "r_readPos full_ring = 2" using pos(1) by (simp add: word_unat_eq_iff)
  moreover have "r_writePos full_ring < r_readPos full_ring" "0 < r_writePos full_ring"
    using pos by (simp_all add: word_less_nat_alt)
  ultimately show ?thesis
    using push_overruns [OF full_ring_rel, of "zeros 3000"] full_ring_rel pos geo
    by (auto simp: zeros_def segs_def)
qed

text \<open>
  An empty message gets a size entry of zero in one segment, but \<open>pop\<close> frees the zero segments
  that its size needs and so leaves the read position where it is.
\<close>

lemma take_zero_entry:
  assumes g: "ring_geom r" and pos: "c_rp (cells_of r) < unat (rg_numSegs r)"
    "c_wp (cells_of r) < unat (rg_numSegs r)"
    and ne: "c_rp (cells_of r) \<noteq> c_wp (cells_of r)"
    and z: "c_mg (cells_of r) ! c_rp (cells_of r) = 0"
  shows "\<exists>r'. take_message r = (Inr [], r') \<and> ring_geom r' \<and> same_shape r r' \<and>
    cells_of r' = cells_of r"
proof -
  let ?c = "cells_of r"
  obtain x r1 where peek: "peek r = (x, r1)" by (cases "peek r")
  have "skip_end (c_rp ?c) (c_mg ?c) = c_rp ?c"
    using z by (simp add: skip_end.simps [of "c_rp ?c"] go_consts)
  then have cp: "c_peek ?c = (Inr (0, c_rp ?c), ?c)"
    using ne z pos by (simp add: c_peek_def Let_def go_consts)
  have fits: "seg_off r p + sz \<le> length (rg_buf r)" if "fst (c_peek ?c) = Inr (sz, p)" for sz p
  proof -
    have "(c_rp ?c + 1) * unat (rg_segSize r) \<le> unat (rg_numSegs r) * unat (rg_segSize r)"
      using pos(1) by (intro mult_right_mono) simp_all
    then show ?thesis using that cp ring_geomD(6) [OF g] by (simp add: seg_off_def)
  qed
  from peek_cells [OF g pos fits peek] cp
  obtain sz off where x: "x = Inr (sz, off)" "unat sz = 0" "cells_of r1 = ?c"
      and g1: "ring_geom r1" "same_shape r r1" by (cases x) auto
  have sh: "rg_numSegs r1 = rg_numSegs r" "rg_segSize r1 = rg_segSize r"
    using g1(2) by (simp_all add: same_shape_def)
  obtain e r2 where pop: "pop r1 = (e, r2)" by (cases "pop r1")
  have S: "0 < unat (rg_segSize r)" using ring_geomD(1) [OF g] by auto
  have seg0: "segs (unat (rg_segSize r)) 0 = 0" using S by (simp add: segs_def)
  from pop_cells [OF g1(1) _ _ _ pop] pos z
  have g2: "ring_geom r2" "same_shape r1 r2" and c2: "c_pop ?c = (e, cells_of r2)"
    by (simp_all add: x(3) sh seg0)
  have "c_pop ?c = (None, ?c)"
    using ne z pos(1) by (simp add: c_pop_def Let_def seg0 go_consts)
  with c2 have "cells_of r2 = ?c" by simp
  then show ?thesis
    using peek pop x g2 g1 by (auto simp: take_message_def slice_def same_shape_def)
qed

text \<open>
  an empty message blocks the ring for ever. Pushed on an empty ring of at least two
  segments it is accepted, and every later receiving step returns an empty message again.
\<close>

theorem empty_message_blocks:
  assumes "ring_rel r []" and "2 \<le> rg_numSegs r"
  shows "fst (push [[]] r) = None \<and>
    fst (take_message (((snd \<circ> take_message) ^^ k) (snd (push [[]] r)))) = Inr []"
proof -
  let ?c = "cells_of r" and ?N = "unat (rg_numSegs r)"
  obtain e r' where push: "push [[]] r = (e, r')" and g: "ring_geom r'" "same_shape r r'"
      and cp: "c_push [] ?c = (e, cells_of r')"
    using push_one [OF assms(1), of "[]"] by auto
  have N: "2 \<le> ?N" using assms(2) by (simp add: word_le_nat_alt)
  have eq: "c_rp ?c = c_wp ?c" using assms(1) fifo_rel_empty_iff [of ?c "[]"] by (simp add: ring_rel_def)
  have lt: "c_wp ?c < ?N" using ring_relD(5) [OF assms(1)] .
  have "0 < unat (rg_segSize r)" using ring_geomD(1) [OF ring_relD(1) [OF assms(1)]] by auto
  then have seg0: "segs (unat (rg_segSize r)) 0 = 0" by (simp add: segs_def)
  have c': "e = None" "cells_of r' = c_store (c_wp ?c) 0 [] ?c"
    using cp lt N eq by (auto simp: c_push_def Let_def seg0 c_enough_def)
  have stuck: "c_rp (cells_of r') \<noteq> c_wp (cells_of r')" "c_rp (cells_of r') < ?N"
      "c_wp (cells_of r') < ?N" "c_mg (cells_of r') ! c_rp (cells_of r') = 0"
    using lt N eq by (auto simp: c' c_store_def)
  define P where "P r1 \<longleftrightarrow> ring_geom r1 \<and> same_shape r r1 \<and> cells_of r1 = cells_of r'" for r1
  have step: "P r1 \<Longrightarrow> \<exists>r2. take_message r1 = (Inr [], r2) \<and> P r2" for r1
    using take_zero_entry [of r1] stuck by (auto simp: P_def same_shape_def)
  have "P (((snd \<circ> take_message) ^^ k) r')"
  proof (induction k)
    case (Suc k)
    then show ?case using step by fastforce
  qed (simp add: P_def g)
  with step show ?thesis by (fastforce simp: push c')
qed

theorem empty_message_blocks_witness:
  "fst (push [[]] empty_ring) = None \<and>
   fst (take_message (((snd \<circ> take_message) ^^ 5) (snd (push [[]] empty_ring)))) = Inr []"
proof (rule empty_message_blocks [OF empty_ring_rel])
  show "2 \<le> rg_numSegs empty_ring"
    using cells_of_N [of empty_ring]
    by (simp add: cells_empty_ring empty_cells_def word_le_nat_alt)
qed

end
