(* ===== verification/Ring_Conn.thy ===== *)
theory Ring_Conn
  imports Transport Ring_Queue
begin

text \<open>
  The connection over two shared-memory rings of internal/transport/linux/ring_linux.go. Its
  state holds both rings, the bytes of the comm socket read but not consumed, what has arrived on
  that socket and not been read, and the signals written to it. The other parties act on the
  state while a call polls: a call is given the list of its polling periods, each with the case
  the select of \<open>wait\<close> took, the context after it and the change made meanwhile; a call whose list
  runs out is still waiting and yields \<open>None\<close>. Of \<open>Close\<close> only the \<open>closed\<close> flag matters here; the
  files and mappings it releases are in theory Open_Ring.
\<close>

section \<open>State and operations\<close>

record ring_conn =
  rc_closed :: bool
  rc_writeQ :: ring
  rc_readQ :: ring
  rc_comm :: bool
  rc_echoBuf :: bytes
  rc_arrived :: "(terr + bytes) list"
  rc_signals :: "bytes list"

datatype wait_case = CtxDone ctx_err | CloseCh | TimerFired

type_synonym poll = "wait_case \<times> ctx \<times> (ring_conn \<Rightarrow> ring_conn)"

definition newRingConn :: "ring \<Rightarrow> ring \<Rightarrow> bool \<Rightarrow> ring_conn" where
  "newRingConn w r comm = \<lparr>rc_closed = False, rc_writeQ = w, rc_readQ = r, rc_comm = comm,
     rc_echoBuf = [], rc_arrived = [], rc_signals = []\<rparr>"

text \<open>What \<open>wait\<close> returns; \<open>None\<close> is the nil error on which the caller polls again.\<close>

fun rc_wait :: "wait_case \<Rightarrow> ring_conn \<Rightarrow> terr option" where
  "rc_wait (CtxDone e) c = (if rc_closed c then Some ErrClosed else Some (ErrCtx e))"
| "rc_wait CloseCh c = Some ErrClosed"
| "rc_wait TimerFired c = None"

fun rc_push_poll :: "bytes \<Rightarrow> poll list \<Rightarrow> ring_conn \<Rightarrow> terr option option \<times> ring_conn" where
  "rc_push_poll p polls c =
     (if rc_closed c then (Some (Some ErrClosed), c)
      else case push [p] (rc_writeQ c) of
        (None, q) \<Rightarrow> (Some None, c\<lparr>rc_writeQ := q\<rparr>)
      | (Some e, q) \<Rightarrow>
          let c = c\<lparr>rc_writeQ := q\<rparr> in
          if e \<noteq> RingFull then (Some (Some (ErrRing e)), c)
          else case polls of
            [] \<Rightarrow> (None, c)
          | (k, _, f) # rest \<Rightarrow>
              let c = f c in
              case rc_wait k c of
                Some werr \<Rightarrow> (Some (Some werr), c)
              | None \<Rightarrow> rc_push_poll p rest c)"

definition RingConn_Send :: "bytes \<Rightarrow> poll list \<Rightarrow> ring_conn \<Rightarrow> terr option option \<times> ring_conn" where
  "RingConn_Send p polls c =
     (if (word_of_nat (length p) :: u32) > MaxWriteSize then (Some (Some (ErrRing RingTooLarge)), c)
      else rc_push_poll p polls c)"

text \<open>\<open>Signal\<close>, given what \<open>comm.Send\<close> returns; without a comm socket the call panics.\<close>

definition RingConn_Signal :: "terr option \<Rightarrow> u32 \<Rightarrow> ring_conn \<Rightarrow> terr option \<times> ring_conn" where
  "RingConn_Signal sent sid c =
     (if rc_closed c then (Some ErrClosed, c)
      else if \<not> rc_comm c then (Some ErrPanic, c)
      else case sent of
        Some e \<Rightarrow> (Some (ErrWrapped e), c)
      | None \<Rightarrow> (None, c\<lparr>rc_signals := rc_signals c @ [le_bytes 4 (unat sid)]\<rparr>))"

function recvEcho :: "ctx \<Rightarrow> ring_conn \<Rightarrow> terr option option \<times> ring_conn" where
  "recvEcho ctx c =
     (if 4 \<le> length (rc_echoBuf c) then (Some None, c\<lparr>rc_echoBuf := drop 4 (rc_echoBuf c)\<rparr>)
      else if \<not> rc_comm c then (Some None, c)
      else case ctx of
        Some e \<Rightarrow> (Some (Some (ErrWrapped (ErrCtx e))), c)
      | None \<Rightarrow>
        (case rc_arrived c of
           [] \<Rightarrow> (None, c)
         | Inl e # rest \<Rightarrow> (Some (Some (ErrWrapped e)), c\<lparr>rc_arrived := rest\<rparr>)
         | Inr b # rest \<Rightarrow> recvEcho ctx (c\<lparr>rc_arrived := rest, rc_echoBuf := rc_echoBuf c @ b\<rparr>)))"
  by pat_completeness auto
termination by (relation "measure (\<lambda>(_, c). length (rc_arrived c))") auto

fun RingConn_Recv :: "ctx \<Rightarrow> poll list \<Rightarrow> ring_conn \<Rightarrow> (terr + bytes) option \<times> ring_conn" where
  "RingConn_Recv ctx polls c =
     (if rc_closed c then (Some (Inl ErrClosed), c)
      else case recvEcho ctx c of
        (None, c) \<Rightarrow> (None, c)
      | (Some (Some e), c) \<Rightarrow> (Some (Inl e), c)
      | (Some None, c) \<Rightarrow>
        (case take_message (rc_readQ c) of
           (Inr msg, q) \<Rightarrow> (Some (Inr msg), c\<lparr>rc_readQ := q\<rparr>)
         | (Inl e, q) \<Rightarrow>
             let c = c\<lparr>rc_readQ := q\<rparr> in
             if e \<noteq> RingEmpty then (Some (Inl (ErrRing e)), c)
             else case polls of
               [] \<Rightarrow> (None, c)
             | (k, ctx', f) # rest \<Rightarrow>
                 let c = f c in
                 case rc_wait k c of
                   Some werr \<Rightarrow> (Some (Inl werr), c)
                 | None \<Rightarrow> RingConn_Recv ctx' rest c))"

definition RecvQueued :: "ring_conn \<Rightarrow> (terr + bytes) \<times> ring_conn" where
  "RecvQueued c =
     (if rc_closed c then (Inl ErrClosed, c)
      else case take_message (rc_readQ c) of
        (Inl e, q) \<Rightarrow> (Inl (ErrRing e), c\<lparr>rc_readQ := q\<rparr>)
      | (Inr msg, q) \<Rightarrow> (Inr msg, c\<lparr>rc_readQ := q\<rparr>))"

definition rc_queued :: "ring_conn \<Rightarrow> bool \<times> ring_conn" where
  "rc_queued c = (case peek (rc_readQ c) of (x, q) \<Rightarrow> (\<not> is_err x, c\<lparr>rc_readQ := q\<rparr>))"

definition RingConn_Close :: "ring_conn \<Rightarrow> terr option \<times> ring_conn" where
  "RingConn_Close c =
     (if rc_closed c then (Some ErrClosed, c) else (None, c\<lparr>rc_closed := True, rc_comm := False\<rparr>))"

declare rc_push_poll.simps [simp del] recvEcho.simps [simp del] RingConn_Recv.simps [simp del]

section \<open>The connection contract\<close>

text \<open>A call alone with the connection: with a done context its first wait ends at once.\<close>

definition alone :: "ctx \<Rightarrow> poll list" where
  "alone ctx = (case ctx of None \<Rightarrow> [] | Some e \<Rightarrow> [(CtxDone e, ctx, \<lambda>c. c)])"

definition rc_is_open :: "unit \<Rightarrow> ring_conn \<Rightarrow> bool" where
  "rc_is_open _ c \<longleftrightarrow> \<not> rc_closed c"

definition write_fits :: "bytes \<Rightarrow> bool" where
  "write_fits p \<longleftrightarrow> \<not> (word_of_nat (length p) :: u32) > MaxWriteSize"

lemma recvEcho_frame:
  "rc_closed (snd (recvEcho ctx c)) = rc_closed c \<and> rc_readQ (snd (recvEcho ctx c)) = rc_readQ c \<and>
   rc_writeQ (snd (recvEcho ctx c)) = rc_writeQ c \<and> rc_comm (snd (recvEcho ctx c)) = rc_comm c \<and>
   rc_signals (snd (recvEcho ctx c)) = rc_signals c"
  by (induction ctx c rule: recvEcho.induct)
    (subst (1 2 3 4 5) recvEcho.simps, auto split: option.splits list.splits sum.splits)

definition rc_send1 :: "unit \<Rightarrow> ctx \<Rightarrow> bytes \<Rightarrow> ring_conn \<Rightarrow> terr option option \<times> ring_conn" where
  "rc_send1 _ ctx p c = RingConn_Send p (alone ctx) c"

definition rc_recv1 :: "unit \<Rightarrow> ctx \<Rightarrow> ring_conn \<Rightarrow> (terr + bytes) option \<times> ring_conn" where
  "rc_recv1 _ ctx c = RingConn_Recv ctx (alone ctx) c"

definition rc_close1 :: "unit \<Rightarrow> ring_conn \<Rightarrow> terr option \<times> ring_conn" where
  "rc_close1 _ c = RingConn_Close c"

lemma rc_push_poll_open:
  assumes "\<not> rc_closed c"
  shows "\<not> rc_closed (snd (rc_push_poll p (alone ctx) c))"
proof (cases ctx)
  case None
  with assms show ?thesis
    by (subst rc_push_poll.simps) (auto simp: alone_def Let_def split: prod.splits option.splits)
next
  case (Some e)
  with assms show ?thesis
    by (subst rc_push_poll.simps) (auto simp: alone_def Let_def split: prod.splits option.splits)
qed

lemma RingConn_Recv_open:
  assumes "\<not> rc_closed c"
  shows "\<not> rc_closed (snd (RingConn_Recv ctx (alone ctx) c))"
proof (cases ctx)
  case None
  with assms recvEcho_frame [of ctx c] show ?thesis
    by (subst RingConn_Recv.simps)
      (auto simp: alone_def Let_def split: prod.splits option.splits sum.splits)
next
  case (Some e)
  with assms recvEcho_frame [of ctx c] show ?thesis
    by (subst RingConn_Recv.simps)
      (auto simp: alone_def Let_def split: prod.splits option.splits sum.splits)
qed

lemma closed_polls [simp]:
  "rc_closed c \<Longrightarrow> rc_push_poll p polls c = (Some (Some ErrClosed), c)"
  "rc_closed c \<Longrightarrow> RingConn_Recv ctx polls c = (Some (Inl ErrClosed), c)"
  by (simp_all add: rc_push_poll.simps RingConn_Recv.simps)

interpretation ring_conn: engine_conn rc_is_open write_fits rc_send1 rc_recv1 rc_close1
  by unfold_locales
    (auto simp: rc_is_open_def write_fits_def rc_send1_def rc_recv1_def rc_close1_def
      RingConn_Send_def RingConn_Close_def rc_push_poll_open RingConn_Recv_open)

section \<open>Echoes\<close>

text \<open>The bytes of the comm socket that are still to be consumed, up to its first error.\<close>

fun arrived_bytes :: "(terr + bytes) list \<Rightarrow> bytes" where
  "arrived_bytes [] = []"
| "arrived_bytes (Inl _ # _) = []"
| "arrived_bytes (Inr b # rest) = b @ arrived_bytes rest"

definition echo_stream :: "ring_conn \<Rightarrow> bytes" where
  "echo_stream c = rc_echoBuf c @ arrived_bytes (rc_arrived c)"

definition healthy :: "ring_conn \<Rightarrow> bool" where
  "healthy c \<longleftrightarrow> \<not> rc_closed c \<and> rc_comm c \<and> (\<forall>e. Inl e \<notin> set (rc_arrived c))"

lemma recvEcho_stream:
  "healthy c \<Longrightarrow>
   (if 4 \<le> length (echo_stream c)
    then fst (recvEcho None c) = Some None \<and> echo_stream (snd (recvEcho None c)) = drop 4 (echo_stream c)
    else fst (recvEcho None c) = None \<and> echo_stream (snd (recvEcho None c)) = echo_stream c) \<and>
   healthy (snd (recvEcho None c))"
proof (induction "None :: ctx" c rule: recvEcho.induct)
  case (1 c)
  show ?case
  proof (cases "4 \<le> length (rc_echoBuf c)")
    case True
    with 1(2) show ?thesis by (simp add: recvEcho.simps [of None c] echo_stream_def healthy_def)
  next
    case short: False
    show ?thesis
    proof (cases "rc_arrived c")
      case Nil
      with short 1(2) show ?thesis by (simp add: recvEcho.simps [of None c] echo_stream_def healthy_def)
    next
      case (Cons x rest)
      with 1(2) obtain b where x: "x = Inr b" by (cases x) (auto simp: healthy_def)
      let ?c = "c\<lparr>rc_arrived := rest, rc_echoBuf := rc_echoBuf c @ b\<rparr>"
      have "healthy ?c" using 1(2) by (simp add: healthy_def Cons)
      moreover have "recvEcho None c = recvEcho None ?c"
        using short Cons x 1(2) by (simp add: recvEcho.simps [of None c] healthy_def)
      moreover have "echo_stream ?c = echo_stream c" by (simp add: echo_stream_def Cons x)
      ultimately show ?thesis
        using 1(1) [OF short _ refl Cons x] 1(2) by (simp add: healthy_def)
    qed
  qed
qed

section \<open>Receiving\<close>

lemma RingConn_Recv_head:
  assumes h: "healthy c" and s: "4 \<le> length (echo_stream c)" and r: "ring_rel (rc_readQ c) (m # ms)"
  shows "\<exists>c'. RingConn_Recv None polls c = (Some (Inr m), c') \<and> healthy c' \<and>
    echo_stream c' = drop 4 (echo_stream c) \<and> ring_rel (rc_readQ c') ms"
proof -
  obtain x c1 where e: "recvEcho None c = (x, c1)" by (cases "recvEcho None c")
  with recvEcho_stream [OF h] s have x: "x = Some None" "echo_stream c1 = drop 4 (echo_stream c)"
      "healthy c1" by auto
  have "rc_readQ c1 = rc_readQ c" using recvEcho_frame [of None c] e by simp
  with take_message_rel [OF r] obtain q where q: "take_message (rc_readQ c1) = (Inr m, q)"
      "ring_rel q ms" by auto
  with e x h show ?thesis
    by (subst RingConn_Recv.simps) (simp add: healthy_def echo_stream_def)
qed

lemma RingConn_Recv_no_echo:
  assumes h: "healthy c" and s: "length (echo_stream c) < 4"
  shows "fst (RingConn_Recv None polls c) = None"
    and "rc_readQ (snd (RingConn_Recv None polls c)) = rc_readQ c"
proof -
  obtain x c1 where e: "recvEcho None c = (x, c1)" by (cases "recvEcho None c")
  with recvEcho_stream [OF h] s have "x = None" by auto
  with e h recvEcho_frame [of None c] show "fst (RingConn_Recv None polls c) = None"
      and "rc_readQ (snd (RingConn_Recv None polls c)) = rc_readQ c"
    by (subst RingConn_Recv.simps; simp add: healthy_def)+
qed

text \<open>\<open>n\<close> calls of \<open>Recv\<close> one after the other, with no one else at work.\<close>

fun rc_recvs :: "nat \<Rightarrow> ring_conn \<Rightarrow> (terr + bytes) option list \<times> ring_conn" where
  "rc_recvs 0 c = ([], c)"
| "rc_recvs (Suc n) c =
     (let (x, c) = RingConn_Recv None [] c; (xs, c) = rc_recvs n c in (x # xs, c))"

lemma rc_recvs_deliver:
  assumes "healthy c" and "4 * length ms \<le> length (echo_stream c)" and "ring_rel (rc_readQ c) (ms @ rest)"
  shows "\<exists>c'. rc_recvs (length ms) c = (map (Some \<circ> Inr) ms, c') \<and> healthy c' \<and>
    echo_stream c' = drop (4 * length ms) (echo_stream c) \<and> ring_rel (rc_readQ c') rest"
  using assms
proof (induction ms arbitrary: c)
  case (Cons m ms)
  then obtain c1 where r: "RingConn_Recv None [] c = (Some (Inr m), c1)" and c1: "healthy c1"
      "echo_stream c1 = drop 4 (echo_stream c)" "ring_rel (rc_readQ c1) (ms @ rest)"
    using RingConn_Recv_head [of c m "ms @ rest" "[]"] by auto
  moreover have "4 * length ms \<le> length (echo_stream c1)" using c1(2) Cons.prems(2) by simp
  from Cons.IH [OF c1(1) this c1(3)] obtain c' where "rc_recvs (length ms) c1 = (map (Some \<circ> Inr) ms, c')"
      "healthy c'" "echo_stream c' = drop (4 * length ms) (echo_stream c1)" "ring_rel (rc_readQ c') rest"
    by blast
  ultimately show ?case by (simp add: add.commute)
qed simp

section \<open>Sending\<close>

text \<open>
  Meanwhile the engine may take messages off the front of the write ring and the connection may
  close; the segment size found when the queue was opened stays.
\<close>

definition engine_takes :: "(ring_conn \<Rightarrow> ring_conn) \<Rightarrow> bool" where
  "engine_takes f \<longleftrightarrow> (\<forall>c ms. ring_rel (rc_writeQ c) ms \<longrightarrow>
     (\<exists>k. ring_rel (rc_writeQ (f c)) (drop k ms)) \<and> rg_segSize (rc_writeQ (f c)) = rg_segSize (rc_writeQ c))"

definition fits_segment :: "ring_conn \<Rightarrow> bytes \<Rightarrow> bool" where
  "fits_segment c p \<longleftrightarrow> one_segment (unat (rg_segSize (rc_writeQ c))) p"

lemma one_segment_push:
  assumes "ring_rel r ms" and "one_segment (unat (rg_segSize r)) p" and "push [p] r = (e, r')"
  shows "(case e of None \<Rightarrow> ring_rel r' (ms @ [p]) | Some x \<Rightarrow> r' = r \<and> x = RingFull) \<and> rg_segSize r' = rg_segSize r"
proof -
  have "0 < length (concat [p])" "length p \<le> 4096"
    using assms(2) one_segment_segs(2) [OF assms(1,2)] by (auto simp: one_segment_def)
  then show ?thesis
    using push_segSize [OF assms(1) _ assms(3)] push_ring_rel [OF assms(1) _ _ _ assms(3)] one_segment_safe [OF assms(1,2)]
    by (cases e) (auto split: if_splits)
qed

lemma rc_push_poll_round:
  assumes "ring_rel (rc_writeQ c) ms" and "fits_segment c p"
  shows "rc_push_poll p polls c = (Some (Some ErrClosed), c) \<or>
    (\<exists>q. rc_push_poll p polls c = (Some None, c\<lparr>rc_writeQ := q\<rparr>) \<and> ring_rel q (ms @ [p]) \<and>
       rg_segSize q = rg_segSize (rc_writeQ c)) \<or>
    rc_push_poll p polls c = (case polls of [] \<Rightarrow> (None, c)
      | (w, _, f) # rest \<Rightarrow>
         (case rc_wait w (f c) of Some e \<Rightarrow> (Some (Some e), f c) | None \<Rightarrow> rc_push_poll p rest (f c)))"
proof -
  obtain e q where push: "push [p] (rc_writeQ c) = (e, q)" by (cases "push [p] (rc_writeQ c)")
  note eff = one_segment_push [OF assms(1) assms(2) [unfolded fits_segment_def] push]
  show ?thesis
  proof (cases e)
    case None
    with eff push have "rc_push_poll p polls c = (Some (Some ErrClosed), c) \<or>
        rc_push_poll p polls c = (Some None, c\<lparr>rc_writeQ := q\<rparr>) \<and> ring_rel q (ms @ [p]) \<and>
          rg_segSize q = rg_segSize (rc_writeQ c)"
      by (cases "rc_closed c") (simp_all add: rc_push_poll.simps [of p polls c])
    then show ?thesis by blast
  next
    case (Some y)
    with eff have "e = Some RingFull" "c\<lparr>rc_writeQ := q\<rparr> = c" by auto
    with push show ?thesis
      by (cases "rc_closed c") (simp_all add: rc_push_poll.simps [of p polls c] Let_def split: list.splits prod.splits)
  qed
qed

lemma rc_push_poll_rel:
  assumes "ring_rel (rc_writeQ c) ms" and "fits_segment c p" and "\<forall>(_, _, f) \<in> set polls. engine_takes f"
    and "rc_push_poll p polls c = (x, c')"
  shows "(\<exists>k. ring_rel (rc_writeQ c') (if x = Some None then drop k ms @ [p] else drop k ms)) \<and>
    rg_segSize (rc_writeQ c') = rg_segSize (rc_writeQ c)"
  using assms
proof (induction polls arbitrary: c ms)
  case Nil
  with rc_push_poll_round [OF Nil.prems(1,2), of "[]"] show ?case by (auto intro!: exI [of _ 0])
next
  case (Cons t rest)
  obtain w u f where t: "t = (w, u, f)" by (cases t)
  from Cons.prems(3) have "engine_takes f" by (simp add: t)
  with Cons.prems(1) obtain k where k: "ring_rel (rc_writeQ (f c)) (drop k ms)"
      and size: "rg_segSize (rc_writeQ (f c)) = rg_segSize (rc_writeQ c)"
    unfolding engine_takes_def by blast
  with Cons.prems(2) have "fits_segment (f c) p" by (simp add: fits_segment_def)
  have later: "(\<exists>k'. ring_rel (rc_writeQ c') (if x = Some None then drop k' (drop k ms) @ [p]
      else drop k' (drop k ms))) \<and> rg_segSize (rc_writeQ c') = rg_segSize (rc_writeQ c)"
    if "rc_push_poll p rest (f c) = (x, c')"
    using Cons.IH [OF k \<open>fits_segment (f c) p\<close> _ that] Cons.prems(3) size by simp
  from rc_push_poll_round [OF Cons.prems(1,2), of "t # rest"] consider
      "x = Some (Some ErrClosed)" "c' = c"
    | q where "x = Some None" "c' = c\<lparr>rc_writeQ := q\<rparr>" "ring_rel q (ms @ [p])" "rg_segSize q = rg_segSize (rc_writeQ c)"
    | e where "x = Some (Some e)" "c' = f c"
    | "rc_push_poll p rest (f c) = (x, c')"
    using Cons.prems(4) by (auto simp: t split: option.splits)
  then show ?case
  proof cases
    case 1
    with Cons.prems(1) show ?thesis by (auto intro!: exI [of _ 0])
  next
    case 2
    then show ?thesis by (auto intro!: exI [of _ 0])
  next
    case 3
    with k size show ?thesis by auto
  next
    case 4
    from later [OF this] show ?thesis by (metis drop_drop)
  qed
qed

section \<open>Properties\<close>

text \<open>
  C26: \<open>n\<close> receives in a row, with the read ring holding the messages \<open>ms\<close> and then \<open>rest\<close>, and at
  least \<open>n\<close> four-byte echoes on the comm socket, return exactly \<open>ms\<close> in order, leave \<open>rest\<close> in the
  ring and consume exactly four bytes each, however the echoes are split into or merged in
  socket reads.
\<close>

theorem ring_recvs_deliver:
  assumes "healthy c" and "4 * length ms \<le> length (echo_stream c)" and "ring_rel (rc_readQ c) (ms @ rest)"
  shows "\<exists>c'. rc_recvs (length ms) c = (map (Some \<circ> Inr) ms, c') \<and>
    echo_stream c' = drop (4 * length ms) (echo_stream c) \<and> ring_rel (rc_readQ c') rest"
  using rc_recvs_deliver [OF assms] by blast

theorem ring_recvs_deliver_witness:
  "\<exists>c'. rc_recvs 2 ((newRingConn empty_ring full_ring True)\<lparr>rc_arrived := [Inr [1, 0], Inr [0, 0, 3, 0, 0], Inr [0, 5]]\<rparr>)
      = ([Some (Inr (zeros 10)), Some (Inr (zeros 10))], c') \<and>
    echo_stream c' = [5] \<and> ring_rel (rc_readQ c') [zeros 10]"
proof -
  let ?c = "(newRingConn empty_ring full_ring True)\<lparr>rc_arrived := [Inr [1, 0], Inr [0, 0, 3, 0, 0], Inr [0, 5]]\<rparr>"
  have "healthy ?c" by (auto simp: healthy_def newRingConn_def)
  moreover have "echo_stream ?c = [1, 0, 0, 0, 3, 0, 0, 0, 5]" by (simp add: echo_stream_def newRingConn_def)
  moreover have "ring_rel (rc_readQ ?c) ([zeros 10, zeros 10] @ [zeros 10])"
    using full_ring_rel by (simp add: newRingConn_def)
  ultimately show ?thesis using ring_recvs_deliver [of ?c "[zeros 10, zeros 10]" "[zeros 10]"] by (simp add: numeral_2_eq_2)
qed

text \<open>
  C25: whatever happens while \<open>Send\<close> polls, as long as the engine only takes messages off the front
  of the write ring: \<open>Send\<close> of a message of at least one byte that fits one segment of the ring returns
  nil only after appending the message, once, behind what was then left of the earlier messages,
  and on every error or timeout the ring holds none of it. Messages of several segments are not
  covered; they can overwrite unread ones (\<open>push_overruns\<close>).
\<close>

theorem ring_send_all_or_nothing:
  assumes "ring_rel (rc_writeQ c) ms" and "fits_segment c p" and "\<forall>(_, _, f) \<in> set polls. engine_takes f"
    and "RingConn_Send p polls c = (x, c')"
  shows "\<exists>k. ring_rel (rc_writeQ c') (if x = Some None then drop k ms @ [p] else drop k ms)"
proof -
  have "length p \<le> 4096" using one_segment_segs(2) [OF assms(1)] assms(2) by (simp add: fits_segment_def)
  then have "\<not> (word_of_nat (length p) :: u32) > MaxWriteSize"
    by (simp add: MaxWriteSize_def word_less_nat_alt unat_of_nat)
  with assms(4) have "rc_push_poll p polls c = (x, c')" by (simp add: RingConn_Send_def)
  from rc_push_poll_rel [OF assms(1-3) this] show ?thesis by blast
qed

theorem ring_send_all_or_nothing_witness:
  "\<exists>x c' k. RingConn_Send [7] [(TimerFired, None, \<lambda>c. c\<lparr>rc_closed := True\<rparr>)] (newRingConn full_ring empty_ring True) = (x, c') \<and>
    ring_rel (rc_writeQ c') (if x = Some None then drop k [zeros 10, zeros 10, zeros 10] @ [[7]]
      else drop k [zeros 10, zeros 10, zeros 10])"
proof -
  let ?polls = "[(TimerFired, None, \<lambda>c. c\<lparr>rc_closed := True\<rparr>)] :: poll list"
  obtain x c' where run: "RingConn_Send [7] ?polls (newRingConn full_ring empty_ring True) = (x, c')"
    by (cases "RingConn_Send [7] ?polls (newRingConn full_ring empty_ring True)")
  have "ring_rel (rc_writeQ (newRingConn full_ring empty_ring True)) [zeros 10, zeros 10, zeros 10]"
    using full_ring_rel by (simp add: newRingConn_def)
  moreover have "\<forall>(_, _, f) \<in> set ?polls. engine_takes f"
    by (auto simp: engine_takes_def intro: exI [of _ 0])
  moreover have "fits_segment (newRingConn full_ring empty_ring True) [7]"
    using cells_of_S [of full_ring] by (simp add: fits_segment_def one_segment_def newRingConn_def cells_full_ring full_cells_def)
  ultimately show ?thesis
    using ring_send_all_or_nothing [of _ _ "[7]", OF _ _ _ run] run by auto
qed

text \<open>
  an echo that arrives while the read ring is empty is used up: once it has been consumed,
  a message that the engine then puts in the ring is not returned by the same \<open>Recv\<close>, which
  waits for a further echo; \<open>RecvQueued\<close> would return the message at once.
\<close>

theorem early_echo_stalls:
  assumes "healthy c" and "length (echo_stream c) = 4" and "ring_rel (rc_readQ c) []"
    and "ring_rel r (m # ms)"
  shows "case RingConn_Recv None (replicate (Suc n) (TimerFired, None, \<lambda>c. c\<lparr>rc_readQ := r\<rparr>)) c of
    (x, c') \<Rightarrow> x = None \<and> rc_readQ c' = r \<and> fst (RecvQueued c') = Inr m"
proof -
  let ?f = "\<lambda>c. c\<lparr>rc_readQ := r\<rparr>" and ?polls = "replicate n (TimerFired, None, \<lambda>c. c\<lparr>rc_readQ := r\<rparr>)"
  obtain x c1 where e: "recvEcho None c = (x, c1)" by (cases "recvEcho None c")
  with recvEcho_stream [OF assms(1)] assms(2) have x: "x = Some None" "echo_stream c1 = []" "healthy c1"
    by auto
  have "rc_readQ c1 = rc_readQ c" using recvEcho_frame [of None c] e by simp
  then have q: "take_message (rc_readQ c1) = (Inl RingEmpty, rc_readQ c1)"
    using take_message_empty [OF assms(3)] by simp
  have "RingConn_Recv None (replicate (Suc n) (TimerFired, None, ?f)) c = RingConn_Recv None ?polls (?f c1)"
    using assms(1) e x q by (subst RingConn_Recv.simps) (simp add: healthy_def)
  moreover have "healthy (?f c1)" "echo_stream (?f c1) = []"
    using x by (simp_all add: healthy_def echo_stream_def)
  note h = this
  from h have "length (echo_stream (?f c1)) < 4" by simp
  note RingConn_Recv_no_echo [OF h(1) this, of ?polls]
  moreover have "\<not> rc_closed (snd (RingConn_Recv None ?polls (?f c1)))"
    using recvEcho_frame [of None "?f c1"] recvEcho_stream [OF h(1)] h
    by (subst RingConn_Recv.simps) (auto simp: healthy_def split: prod.splits option.splits)
  ultimately show ?thesis
    using take_message_rel [OF assms(4)] by (auto simp: RecvQueued_def split: prod.splits)
qed

theorem early_echo_stalls_witness:
  "fst (RingConn_Recv None [(TimerFired, None, \<lambda>c. c\<lparr>rc_readQ := full_ring\<rparr>)]
     ((newRingConn empty_ring empty_ring True)\<lparr>rc_arrived := [Inr [1, 0, 0, 0]]\<rparr>)) = None"
  using early_echo_stalls [OF _ _ _ full_ring_rel, of "(newRingConn empty_ring empty_ring True)\<lparr>rc_arrived := [Inr [1, 0, 0, 0]]\<rparr>" 0]
    empty_ring_rel
  by (auto simp: healthy_def newRingConn_def echo_stream_def)

text \<open>
  \<open>Close\<close> succeeds once; after it every receive, every further \<open>Close\<close> and every send of a payload
  within the size limit reports \<open>ErrClosed\<close>, \<open>Signal\<close> and \<open>RecvQueued\<close> do too, and none touches the
  unmapped rings or the comm socket. A send of a larger payload reports the size error instead
  of \<open>ErrClosed\<close>.
\<close>

theorem ring_close_final:
  assumes "\<not> rc_closed c" and "\<forall>x p. CallSend x p \<in> set cs \<longrightarrow> write_fits p" and "\<not> write_fits big"
    and c': "c' = snd (RingConn_Close c)"
  shows "fst (run_calls rc_send1 rc_recv1 rc_close1 () (CallClose # cs) c) = Closing None # map closed_reply cs \<and>
    RingConn_Signal sent sid c' = (Some ErrClosed, c') \<and> RecvQueued c' = (Inl ErrClosed, c') \<and>
    RingConn_Recv ctx polls c' = (Some (Inl ErrClosed), c') \<and>
    RingConn_Send big polls c' = (Some (Some (ErrRing RingTooLarge)), c')"
proof -
  have "rc_is_open () c" using assms(1) by (simp add: rc_is_open_def)
  from ring_conn.calls_after_close [OF this assms(2)]
  have "fst (run_calls rc_send1 rc_recv1 rc_close1 () (CallClose # cs) c) = Closing None # map closed_reply cs" .
  moreover have "rc_closed c'" using assms(1) by (simp add: c' RingConn_Close_def)
  ultimately show ?thesis
    using assms(3) by (simp add: RingConn_Signal_def RecvQueued_def RingConn_Send_def write_fits_def)
qed

lemma zeros_too_big: "\<not> write_fits (zeros 70000)"
  by (simp add: write_fits_def zeros_def MaxWriteSize_def word_less_nat_alt)

theorem ring_close_final_witness:
  "fst (RingConn_Send (zeros 70000) [] (snd (RingConn_Close (newRingConn empty_ring full_ring True)))) =
     Some (Some (ErrRing RingTooLarge))"
  using ring_close_final [OF _ _ zeros_too_big refl, of "newRingConn empty_ring full_ring True" "[CallRecv None]"]
  by (simp add: newRingConn_def)

end
