(* ===== verification/Socket.thy ===== *)
theory Socket
  imports Transport Go_Strings
begin

text \<open>
  The stream transports: the length-prefixed frames over TCP of internal/transport/socket and the
  coalescing Unix socket connection of internal/transport/linux/unix_linux.go. A socket is seen
  through what its reads and writes return. The end of a TCP read side says what happens when
  the bytes that have arrived run out: nothing yet, end of stream, a timeout because a deadline
  passed, or another error.
\<close>

section \<open>Frames\<close>

datatype stream_end = EndOfStream | TimedOut | IOError string

datatype frame_err =
    FrameEOF
  | FrameHeader stream_end
  | FrameTooLong
  | FrameTruncated stream_end bool
  | FrameWrite stream_end

text \<open>
  In \<open>FrameTruncated\<close> the flag says whether the wrapped error is \<open>io.EOF\<close> itself, which
  \<open>io.ReadFull\<close> returns when not one byte of the payload could be read; after a part of it the
  error is \<open>io.ErrUnexpectedEOF\<close>, for which \<open>errors.Is(err, io.EOF)\<close> is false.
\<close>

record tcp =
  tcp_in :: bytes
  tcp_end :: "stream_end option"
  tcp_out :: bytes
  tcp_room :: "(nat \<times> stream_end) option"

definition maxFrameSize :: nat where
  [go_consts]: "maxFrameSize = 268435456"

definition frameHeaderSize :: nat where
  [go_consts]: "frameHeaderSize = 4"

text \<open>\<open>Write\<close>: with a limit on what the socket still accepts, the rest is lost with an error.\<close>

definition tcp_Write :: "bytes \<Rightarrow> tcp \<Rightarrow> stream_end option \<times> tcp" where
  "tcp_Write b w =
     (case tcp_room w of
        None \<Rightarrow> (None, w\<lparr>tcp_out := tcp_out w @ b\<rparr>)
      | Some (k, e) \<Rightarrow>
          if length b \<le> k then (None, w\<lparr>tcp_out := tcp_out w @ b, tcp_room := Some (k - length b, e)\<rparr>)
          else (Some e, w\<lparr>tcp_out := tcp_out w @ take k b, tcp_room := Some (0, e)\<rparr>))"

text \<open>
  \<open>io.ReadFull\<close>: the bytes asked for; or, when the stream ends before, the error and how many
  bytes were read and are gone; or \<open>None\<close> while it blocks.
\<close>

definition ReadFull :: "nat \<Rightarrow> tcp \<Rightarrow> (stream_end \<times> nat + bytes) option \<times> tcp" where
  "ReadFull n r =
     (if n \<le> length (tcp_in r)
      then (Some (Inr (take n (tcp_in r))), r\<lparr>tcp_in := drop n (tcp_in r)\<rparr>)
      else case tcp_end r of
        None \<Rightarrow> (None, r)
      | Some e \<Rightarrow> (Some (Inl (e, length (tcp_in r))), r\<lparr>tcp_in := []\<rparr>))"

definition writeFrame :: "bytes \<Rightarrow> tcp \<Rightarrow> frame_err option \<times> tcp" where
  "writeFrame payload w =
     (if length payload > maxFrameSize then (Some FrameTooLong, w)
      else case tcp_Write (le_bytes frameHeaderSize (length payload)) w of
        (Some e, w) \<Rightarrow> (Some (FrameWrite e), w)
      | (None, w) \<Rightarrow>
          if length payload > 0 then
            (case tcp_Write payload w of
               (Some e, w) \<Rightarrow> (Some (FrameWrite e), w)
             | (None, w) \<Rightarrow> (None, w))
          else (None, w))"

definition readFrame :: "tcp \<Rightarrow> (frame_err + bytes) option \<times> tcp" where
  "readFrame r =
     (case ReadFull frameHeaderSize r of
        (None, r) \<Rightarrow> (None, r)
      | (Some (Inl (e, k)), r) \<Rightarrow>
          (Some (Inl (if e = EndOfStream \<and> k = 0 then FrameEOF else FrameHeader e)), r)
      | (Some (Inr hdr), r) \<Rightarrow>
          let n = le_nat hdr in
          if n > maxFrameSize then (Some (Inl FrameTooLong), r)
          else case ReadFull n r of
            (None, r) \<Rightarrow> (None, r)
          | (Some (Inl (e, k)), r) \<Rightarrow> (Some (Inl (FrameTruncated e (e = EndOfStream \<and> k = 0))), r)
          | (Some (Inr buf), r) \<Rightarrow> (Some (Inr buf), r))"

section \<open>TCP connections\<close>

record socket_conn =
  sk_closed :: bool
  sk_tcp :: tcp

text \<open>
  What happens around a call: the context at entry, an error of setting the deadline, whether
  the connection was closed meanwhile, and the context and its deadline when the call ends.
\<close>

record call_env =
  ce_ctx :: ctx
  ce_setdl :: "stream_end option"
  ce_closes :: bool
  ce_late :: bool
  ce_after :: ctx

definition is_timeout :: "frame_err \<Rightarrow> bool" where
  "is_timeout e \<longleftrightarrow> (case e of FrameHeader x \<Rightarrow> x = TimedOut | FrameTruncated x _ \<Rightarrow> x = TimedOut
     | FrameWrite x \<Rightarrow> x = TimedOut | _ \<Rightarrow> False)"

definition is_eof :: "frame_err \<Rightarrow> bool" where
  "is_eof e \<longleftrightarrow> (case e of FrameEOF \<Rightarrow> True | FrameTruncated _ b \<Rightarrow> b | _ \<Rightarrow> False)"

definition ctxError :: "call_env \<Rightarrow> frame_err \<Rightarrow> ctx_err option" where
  "ctxError env err =
     (if \<not> is_timeout err then None
      else if ce_late env then Some DeadlineExceeded
      else ce_after env)"

definition io_terr :: "frame_err \<Rightarrow> terr" where
  "io_terr e = ErrOther (case e of FrameEOF \<Rightarrow> ''EOF'' | FrameHeader _ \<Rightarrow> ''socket: reading frame header''
     | FrameTooLong \<Rightarrow> ''socket: frame exceeds the maximum'' | FrameTruncated _ _ \<Rightarrow> ''socket: truncated frame''
     | FrameWrite _ \<Rightarrow> ''socket: write frame'')"

definition socket_Send :: "call_env \<Rightarrow> bytes \<Rightarrow> socket_conn \<Rightarrow> terr option \<times> socket_conn" where
  "socket_Send env payload c =
     (if sk_closed c then (Some ErrClosed, c)
      else case ce_ctx env of Some e \<Rightarrow> (Some (ErrCtx e), c)
      | None \<Rightarrow>
        let c' = c\<lparr>sk_closed := ce_closes env\<rparr> in
        if ce_setdl env \<noteq> None then
          (Some (if sk_closed c' then ErrClosed else ErrOther ''socket: set write deadline''), c')
        else case writeFrame payload (sk_tcp c) of
          (None, t) \<Rightarrow> (None, c'\<lparr>sk_tcp := t\<rparr>)
        | (Some err, t) \<Rightarrow>
            (Some (if sk_closed c' then ErrClosed
                   else case ctxError env err of Some e \<Rightarrow> ErrCtx e
                   | None \<Rightarrow> (case ce_after env of Some e \<Rightarrow> ErrCtx e | None \<Rightarrow> io_terr err)),
             c'\<lparr>sk_tcp := t\<rparr>))"

definition socket_Recv :: "call_env \<Rightarrow> socket_conn \<Rightarrow> (terr + bytes) option \<times> socket_conn" where
  "socket_Recv env c =
     (if sk_closed c then (Some (Inl ErrClosed), c)
      else case ce_ctx env of Some e \<Rightarrow> (Some (Inl (ErrCtx e)), c)
      | None \<Rightarrow>
        let c' = c\<lparr>sk_closed := ce_closes env\<rparr> in
        if ce_setdl env \<noteq> None then
          (Some (Inl (if sk_closed c' then ErrClosed else ErrOther ''socket: set read deadline'')), c')
        else case readFrame (sk_tcp c) of
          (None, t) \<Rightarrow> (None, c)
        | (Some (Inr buf), t) \<Rightarrow> (Some (Inr buf), c'\<lparr>sk_tcp := t\<rparr>)
        | (Some (Inl err), t) \<Rightarrow>
            (Some (Inl (if sk_closed c' then ErrClosed
                   else if is_eof err then ErrClosed
                   else case ctxError env err of Some e \<Rightarrow> ErrCtx e
                   | None \<Rightarrow> (case ce_after env of Some e \<Rightarrow> ErrCtx e | None \<Rightarrow> io_terr err))),
             c'\<lparr>sk_tcp := t\<rparr>))"

definition socket_Close :: "socket_conn \<Rightarrow> terr option \<times> socket_conn" where
  "socket_Close c = (if sk_closed c then (Some ErrClosed, c) else (None, c\<lparr>sk_closed := True\<rparr>))"

definition parseAddr :: "string \<Rightarrow> string + string" where
  "parseAddr addr =
     (if HasPrefix addr ''unix://'' then Inl ''socket: unix:// addresses are reserved''
      else let hostport = TrimPrefix addr ''tcp://'' in
        if hostport = '''' then Inl ''socket: address must not be empty'' else Inr hostport)"

text \<open>\<open>Addr\<close> of a listener bound to the given host and port.\<close>

definition Listener_Addr :: "string \<Rightarrow> string" where
  "Listener_Addr bound = ''tcp://'' @ bound"

text \<open>A context that is done or not, and nothing else happening during the call.\<close>

definition quiet :: "ctx \<Rightarrow> call_env" where
  "quiet x = \<lparr>ce_ctx = x, ce_setdl = None, ce_closes = False, ce_late = False, ce_after = x\<rparr>"

definition sk_is_open :: "unit \<Rightarrow> socket_conn \<Rightarrow> bool" where
  "sk_is_open _ c \<longleftrightarrow> \<not> sk_closed c"

interpretation socket_conn: engine_conn sk_is_open "\<lambda>_. True"
    "\<lambda>_ x p c. map_prod Some id (socket_Send (quiet x) p c)" "\<lambda>_ x c. socket_Recv (quiet x) c" "\<lambda>_. socket_Close"
  by unfold_locales
    (auto simp: sk_is_open_def quiet_def socket_Send_def socket_Recv_def socket_Close_def Let_def
      split: option.splits prod.splits sum.splits)

section \<open>Leaving a call\<close>

text \<open>
  The deferred calls at the end of \<open>Send\<close> and \<open>Recv\<close> against the watchdog that
  \<open>context.AfterFunc\<close> starts when the context is done. Deferred calls run last in, first out:
  the lock is released, the deadline is cleared, and then the watchdog is stopped or, when it
  has started, waited for.
\<close>

datatype leaving = Leaving | LockReleased | DeadlineCleared | Returned

datatype watchdog = Armed | Started | Finished | Stopped

record teardown =
  td_at :: leaving
  td_watch :: watchdog
  td_tripped :: bool

inductive teardown_step :: "teardown \<Rightarrow> teardown \<Rightarrow> bool" where
  ctx_done: "td_watch s = Armed \<Longrightarrow> teardown_step s (s\<lparr>td_watch := Started\<rparr>)"
| trip: "td_watch s = Started \<Longrightarrow> teardown_step s (s\<lparr>td_watch := Finished, td_tripped := True\<rparr>)"
| release: "td_at s = Leaving \<Longrightarrow> teardown_step s (s\<lparr>td_at := LockReleased\<rparr>)"
| clear: "td_at s = LockReleased \<Longrightarrow> teardown_step s (s\<lparr>td_at := DeadlineCleared, td_tripped := False\<rparr>)"
| stop: "td_at s = DeadlineCleared \<Longrightarrow> td_watch s = Armed \<Longrightarrow>
    teardown_step s (s\<lparr>td_at := Returned, td_watch := Stopped\<rparr>)"
| awaited: "td_at s = DeadlineCleared \<Longrightarrow> td_watch s = Finished \<Longrightarrow>
    teardown_step s (s\<lparr>td_at := Returned\<rparr>)"

inductive teardown_reach :: "teardown \<Rightarrow> bool" where
  enter: "teardown_reach \<lparr>td_at = Leaving, td_watch = Armed, td_tripped = False\<rparr>"
| step: "teardown_reach s \<Longrightarrow> teardown_step s s' \<Longrightarrow> teardown_reach s'"

section \<open>Unix sockets\<close>

text \<open>What the successive reads of the socket return; a call whose reads run out is still waiting.\<close>

datatype unix_read = Data bytes | ReadEOF | ReadTimeout | ReadFailed string

record unix_conn =
  ux_closed :: bool
  ux_reads :: "unix_read list"
  ux_written :: bytes

fun ux_coalesce :: "bool \<Rightarrow> bytes \<Rightarrow> unix_read list \<Rightarrow> (terr + bytes) option \<times> unix_read list" where
  "ux_coalesce closed msg [] = (None, [])"
| "ux_coalesce closed msg (Data b # rs) = ux_coalesce closed (msg @ b) rs"
| "ux_coalesce closed msg (ReadEOF # rs) = (Some (Inr msg), rs)"
| "ux_coalesce closed msg (ReadTimeout # rs) = (Some (Inr msg), rs)"
| "ux_coalesce closed msg (ReadFailed e # rs) =
     (Some (if closed then Inr msg else Inl (ErrOther e)), rs)"

text \<open>\<open>late\<close> is the context at each timeout of the first read; \<open>closed\<close> whether \<open>Close\<close> was called meanwhile.\<close>

fun ux_first :: "bool \<Rightarrow> ctx \<Rightarrow> unix_read list \<Rightarrow> (terr + bytes) option \<times> unix_read list" where
  "ux_first closed late [] = (None, [])"
| "ux_first closed late (Data b # rs) =
     (if b \<noteq> [] then ux_coalesce closed b rs else ux_first closed late rs)"
| "ux_first closed late (ReadEOF # rs) = (Some (Inl ErrClosed), rs)"
| "ux_first closed late (ReadTimeout # rs) =
     (if closed then (Some (Inl ErrClosed), rs)
      else case late of Some e \<Rightarrow> (Some (Inl (ErrCtx e)), rs) | None \<Rightarrow> ux_first closed late rs)"
| "ux_first closed late (ReadFailed e # rs) =
     (Some (Inl (if closed then ErrClosed else ErrOther e)), rs)"

definition UnixConn_Recv :: "ctx \<Rightarrow> bool \<Rightarrow> ctx \<Rightarrow> unix_conn \<Rightarrow> (terr + bytes) option \<times> unix_conn" where
  "UnixConn_Recv ctx closes late c =
     (if ux_closed c then (Some (Inl ErrClosed), c)
      else case ctx of Some e \<Rightarrow> (Some (Inl (ErrCtx e)), c)
      | None \<Rightarrow>
        (case ux_first closes late (ux_reads c) of
           (None, _) \<Rightarrow> (None, c)
         | (Some r, rs) \<Rightarrow> (Some r, c\<lparr>ux_closed := closes, ux_reads := rs\<rparr>)))"

text \<open>The writes of a \<open>Send\<close>: how many bytes each took (at least one), or an error.\<close>

fun ux_write :: "bool \<Rightarrow> bytes \<Rightarrow> (string + nat) list \<Rightarrow> terr option option \<times> bytes" where
  "ux_write closed [] ws = (Some None, [])"
| "ux_write closed p [] = (None, [])"
| "ux_write closed p (Inl e # ws) = (Some (Some (if closed then ErrClosed else ErrOther e)), [])"
| "ux_write closed p (Inr n # ws) =
     (let (r, out) = ux_write closed (drop n p) ws in (r, take n p @ out))"

definition UnixConn_Send ::
  "ctx \<Rightarrow> bool \<Rightarrow> (string + nat) list \<Rightarrow> bytes \<Rightarrow> unix_conn \<Rightarrow> terr option option \<times> unix_conn" where
  "UnixConn_Send ctx closes ws p c =
     (if ux_closed c then (Some (Some ErrClosed), c)
      else case ctx of Some e \<Rightarrow> (Some (Some (ErrCtx e)), c)
      | None \<Rightarrow>
        let (r, out) = ux_write closes p ws
        in (r, c\<lparr>ux_closed := r \<noteq> None \<and> closes, ux_written := ux_written c @ out\<rparr>))"

text \<open>\<open>Close\<close>, given what closing the socket under it returns: the first call hands that on.\<close>

definition UnixConn_Close :: "string option \<Rightarrow> unix_conn \<Rightarrow> terr option \<times> unix_conn" where
  "UnixConn_Close err c =
     (if ux_closed c then (Some ErrClosed, c) else (map_option ErrOther err, c\<lparr>ux_closed := True\<rparr>))"

definition ux_is_open :: "unit \<Rightarrow> unix_conn \<Rightarrow> bool" where
  "ux_is_open _ c \<longleftrightarrow> \<not> ux_closed c"

interpretation unix_conn: closing_conn ux_is_open "\<lambda>_. True"
    "\<lambda>_ x p c. UnixConn_Send x False [Inr (length p)] p c" "\<lambda>_ x c. UnixConn_Recv x False x c"
    "\<lambda>_. UnixConn_Close err" for err
  by unfold_locales
    (auto simp: ux_is_open_def UnixConn_Send_def UnixConn_Recv_def UnixConn_Close_def Let_def
      split: option.splits prod.splits)

section \<open>Frames on a stream\<close>

definition frame :: "bytes \<Rightarrow> bytes" where
  "frame p = le_bytes frameHeaderSize (length p) @ p"

lemma length_frame: "length (frame p) = 4 + length p"
  by (simp add: frame_def go_consts)

lemma writeFrame_frame:
  "length p \<le> maxFrameSize \<Longrightarrow> tcp_room w = None \<Longrightarrow>
   writeFrame p w = (None, w\<lparr>tcp_out := tcp_out w @ frame p\<rparr>)"
  by (auto simp: writeFrame_def tcp_Write_def frame_def)

lemma le_nat_header: "length p \<le> maxFrameSize \<Longrightarrow> le_nat (le_bytes 4 (length p)) = length p"
  by (simp add: le_nat_le_bytes go_consts)

lemma readFrame_frame:
  assumes "length p \<le> maxFrameSize" and "tcp_in r = frame p @ rest"
  shows "readFrame r = (Some (Inr p), r\<lparr>tcp_in := rest\<rparr>)"
  using assms
  by (simp add: readFrame_def ReadFull_def frame_def frameHeaderSize_def le_nat_header Let_def)

lemma readFrame_cut:
  assumes "length p \<le> maxFrameSize" and "tcp_in r = take k (frame p)" and "k < length (frame p)"
    and "tcp_end r = Some EndOfStream"
  shows "\<exists>e. readFrame r = (Some (Inl e), r\<lparr>tcp_in := []\<rparr>)"
proof (cases "k < 4")
  case True
  then have "length (tcp_in r) < 4" using assms(2) by simp
  then show ?thesis using assms(4) by (simp add: readFrame_def ReadFull_def frameHeaderSize_def)
next
  case False
  then have "tcp_in r = le_bytes 4 (length p) @ take (k - 4) p" "k - 4 < length p"
    using assms(2,3) by (simp_all add: frame_def frameHeaderSize_def)
  then show ?thesis
    using assms(1,4)
    by (simp add: readFrame_def ReadFull_def frameHeaderSize_def le_nat_header Let_def)
qed

text \<open>\<open>n\<close> receives in a row of an open connection.\<close>

fun socket_recvs :: "nat \<Rightarrow> socket_conn \<Rightarrow> (terr + bytes) option list \<times> socket_conn" where
  "socket_recvs 0 c = ([], c)"
| "socket_recvs (Suc n) c =
     (let (x, c) = socket_Recv (quiet None) c; (xs, c) = socket_recvs n c in (x # xs, c))"

lemma socket_recvs_Suc:
  "fst (socket_recvs (Suc n) c) =
     fst (socket_Recv (quiet None) c) # fst (socket_recvs n (snd (socket_Recv (quiet None) c)))"
  by (simp split: prod.splits)

lemma socket_recvs_ended:
  "\<not> sk_closed c \<Longrightarrow> tcp_in (sk_tcp c) = [] \<Longrightarrow> tcp_end (sk_tcp c) = Some EndOfStream \<Longrightarrow>
   fst (socket_recvs n c) = replicate n (Some (Inl ErrClosed))"
proof (induction n arbitrary: c)
  case (Suc n)
  have "socket_Recv (quiet None) c = (Some (Inl ErrClosed), c)"
    using Suc.prems
    by (simp add: socket_Recv_def quiet_def readFrame_def ReadFull_def frameHeaderSize_def is_eof_def)
  with Suc.IH [OF Suc.prems] show ?case by (auto split: prod.splits)
qed simp

lemma socket_recvs_prefix:
  assumes "\<not> sk_closed c" and "tcp_end (sk_tcp c) = Some EndOfStream"
    and "\<forall>p \<in> set ps. length p \<le> maxFrameSize" and "tcp_in (sk_tcp c) = take k (concat (map frame ps))"
  shows "\<exists>j errs. fst (socket_recvs (length ps) c) = map (Some \<circ> Inr) (take j ps) @ map (Some \<circ> Inl) errs \<and>
    j + length errs = length ps \<and> (length (concat (map frame ps)) \<le> k \<longrightarrow> errs = [])"
  using assms
proof (induction ps arbitrary: c k)
  case Nil
  then show ?case by auto
next
  case (Cons p ps)
  let ?t = "sk_tcp c"
  have p: "length p \<le> maxFrameSize" using Cons.prems(3) by simp
  show ?case
  proof (cases "k < length (frame p)")
    case True
    then have "tcp_in ?t = take k (frame p)" using Cons.prems(4) by simp
    from readFrame_cut [OF p this True Cons.prems(2)] obtain e
      where e: "readFrame ?t = (Some (Inl e), ?t\<lparr>tcp_in := []\<rparr>)" by blast
    let ?c = "c\<lparr>sk_closed := False, sk_tcp := ?t\<lparr>tcp_in := []\<rparr>\<rparr>"
    obtain x where "socket_Recv (quiet None) c = (Some (Inl x), ?c)"
      using Cons.prems(1) e by (simp add: socket_Recv_def quiet_def)
    moreover have "fst (socket_recvs (length ps) ?c) = replicate (length ps) (Some (Inl ErrClosed))"
      by (rule socket_recvs_ended) (simp_all add: Cons.prems(2))
    ultimately have "fst (socket_recvs (length (p # ps)) c) =
        map (Some \<circ> Inl) (x # replicate (length ps) ErrClosed)"
      by (simp add: socket_recvs_Suc del: socket_recvs.simps)
    with True show ?thesis
      by (intro exI [of _ 0] exI [of _ "x # replicate (length ps) ErrClosed"]) simp
  next
    case False
    then have "tcp_in ?t = frame p @ take (k - length (frame p)) (concat (map frame ps))"
      using Cons.prems(4) by simp
    note rd = readFrame_frame [OF p this]
    let ?c = "c\<lparr>sk_closed := False, sk_tcp := ?t\<lparr>tcp_in := take (k - length (frame p)) (concat (map frame ps))\<rparr>\<rparr>"
    have "socket_Recv (quiet None) c = (Some (Inr p), ?c)"
      using Cons.prems(1) rd by (simp add: socket_Recv_def quiet_def)
    moreover have "\<exists>j errs. fst (socket_recvs (length ps) ?c) =
        map (Some \<circ> Inr) (take j ps) @ map (Some \<circ> Inl) errs \<and> j + length errs = length ps \<and>
        (length (concat (map frame ps)) \<le> k - length (frame p) \<longrightarrow> errs = [])"
      by (rule Cons.IH) (use Cons.prems(2,3) in simp_all)
    then obtain j errs where "fst (socket_recvs (length ps) ?c) =
        map (Some \<circ> Inr) (take j ps) @ map (Some \<circ> Inl) errs" "j + length errs = length ps"
        "length (concat (map frame ps)) \<le> k - length (frame p) \<longrightarrow> errs = []"
      by blast
    ultimately show ?thesis
      by (intro exI [of _ "Suc j"] exI [of _ errs])
        (auto simp: socket_recvs_Suc simp del: socket_recvs.simps)
  qed
qed

lemma writeFrames_out:
  assumes "tcp_room w = None" and "\<forall>p \<in> set ps. length p \<le> maxFrameSize"
  shows "tcp_out (fold (\<lambda>p w. snd (writeFrame p w)) ps w) = tcp_out w @ concat (map frame ps)"
  using assms by (induction ps arbitrary: w) (simp_all add: writeFrame_frame)

section \<open>Properties\<close>

text \<open>
  C29: what a peer wrote as frames, cut off anywhere by the end of the connection, is received as
  a prefix of the payloads written, each once, unaltered and in order, followed by errors only;
  with nothing cut off every payload is received. No fragment of a frame is ever returned.
\<close>

theorem socket_frames_delivered:
  assumes "tcp_room w = None" and "tcp_out w = []" and "\<forall>p \<in> set ps. length p \<le> maxFrameSize"
    and w': "w' = fold (\<lambda>p w. snd (writeFrame p w)) ps w"
    and "\<not> sk_closed c" and "sk_tcp c = t\<lparr>tcp_in := take k (tcp_out w'), tcp_end := Some EndOfStream\<rparr>"
  shows "\<exists>j errs. fst (socket_recvs (length ps) c) = map (Some \<circ> Inr) (take j ps) @ map (Some \<circ> Inl) errs \<and>
    j + length errs = length ps \<and> (length (tcp_out w') \<le> k \<longrightarrow> errs = [])"
proof -
  have "tcp_out w' = concat (map frame ps)" using writeFrames_out [OF assms(1,3)] assms(2) by (simp add: w')
  with socket_recvs_prefix [of c ps k] assms(3,5,6) show ?thesis by simp
qed

definition tcp0 :: tcp where
  "tcp0 = \<lparr>tcp_in = [], tcp_end = None, tcp_out = [], tcp_room = None\<rparr>"

theorem socket_frames_delivered_witness:
  "\<exists>j errs. fst (socket_recvs 2 \<lparr>sk_closed = False, sk_tcp = tcp0\<lparr>tcp_in := frame [9] @ take 5 (frame [7, 8]),
      tcp_end := Some EndOfStream\<rparr>\<rparr>) = map (Some \<circ> Inr) (take j [[9], [7, 8]]) @ map (Some \<circ> Inl) errs \<and>
    j + length errs = 2"
proof -
  let ?ps = "[[9], [7, 8]] :: bytes list" and ?w = "\<lambda>ps. fold (\<lambda>p w. snd (writeFrame p w)) ps tcp0"
  have fit: "\<forall>p \<in> set ?ps. length p \<le> maxFrameSize" by (simp add: go_consts)
  have w: "tcp_room tcp0 = None" "tcp_out tcp0 = []" by (simp_all add: tcp0_def)
  let ?c = "\<lparr>sk_closed = False, sk_tcp = tcp0\<lparr>tcp_in := take 10 (tcp_out (?w ?ps)), tcp_end := Some EndOfStream\<rparr>\<rparr>"
  have "tcp_out (?w ?ps) = frame [9] @ frame [7, 8]" using writeFrames_out [OF w(1) fit] w(2) by simp
  then have "?c = \<lparr>sk_closed = False, sk_tcp = tcp0\<lparr>tcp_in := frame [9] @ take 5 (frame [7, 8]),
      tcp_end := Some EndOfStream\<rparr>\<rparr>" by (simp add: length_frame)
  moreover have "\<not> sk_closed ?c" by simp
  from socket_frames_delivered [OF w fit refl this socket_conn.select_convs(2)]
  have "\<exists>j errs. fst (socket_recvs (length ?ps) ?c) = map (Some \<circ> Inr) (take j ?ps) @ map (Some \<circ> Inl) errs \<and>
    j + length errs = length ?ps" by blast
  moreover have "length ?ps = 2" by simp
  ultimately show ?thesis by (simp only:)
qed

text \<open>
  C34: a \<open>Recv\<close> that ends by its context's deadline inside a frame loses the part it had read: if
  the deadline passes after the length prefix of the payload \<open>frame x\<close>, the next \<open>Recv\<close> takes the
  payload for a frame and returns \<open>x\<close>, a message the peer never sent.
\<close>

theorem recv_deadline_desyncs:
  assumes "length (frame x) \<le> maxFrameSize" and "\<not> sk_closed c"
    and "sk_tcp c = t\<lparr>tcp_in := take 4 (frame (frame x)), tcp_end := Some TimedOut\<rparr>"
    and env: "env = (quiet None)\<lparr>ce_late := True, ce_after := Some DeadlineExceeded\<rparr>"
  shows "case socket_Recv env c of (r, c') \<Rightarrow> r = Some (Inl (ErrCtx DeadlineExceeded)) \<and> \<not> sk_closed c' \<and>
    fst (socket_Recv (quiet None) (c'\<lparr>sk_tcp := (sk_tcp c')\<lparr>tcp_in := tcp_in (sk_tcp c') @ drop 4 (frame (frame x)),
      tcp_end := None\<rparr>\<rparr>)) = Some (Inr x)"
proof -
  let ?t = "sk_tcp c"
  have "tcp_in ?t = le_bytes 4 (length (frame x))" "drop 4 (frame (frame x)) = frame x"
    using assms(3) by (simp_all add: frame_def frameHeaderSize_def)
  moreover from this have "readFrame ?t = (Some (Inl (FrameTruncated TimedOut False)), ?t\<lparr>tcp_in := []\<rparr>)"
    using assms(1,3) length_frame [of x] le_nat_header [OF assms(1)]
    by (simp add: readFrame_def ReadFull_def frameHeaderSize_def Let_def)
  ultimately show ?thesis
    using assms(1,2) length_frame [of x] readFrame_frame [of x "_\<lparr>tcp_in := frame x, tcp_end := None\<rparr>" "[]"]
    by (simp add: socket_Recv_def env quiet_def is_eof_def ctxError_def is_timeout_def)
qed

theorem recv_deadline_desyncs_witness:
  "\<exists>r c'. socket_Recv ((quiet None)\<lparr>ce_late := True, ce_after := Some DeadlineExceeded\<rparr>)
     \<lparr>sk_closed = False, sk_tcp = tcp0\<lparr>tcp_in := take 4 (frame (frame [42])), tcp_end := Some TimedOut\<rparr>\<rparr> = (r, c') \<and>
   r = Some (Inl (ErrCtx DeadlineExceeded)) \<and> \<not> sk_closed c'"
  using recv_deadline_desyncs [of "[42]" "\<lparr>sk_closed = False, sk_tcp = tcp0\<lparr>tcp_in := take 4 (frame (frame [42])), tcp_end := Some TimedOut\<rparr>\<rparr>" tcp0, OF _ _ _ refl]
  by (auto simp: length_frame go_consts split: prod.splits)

text \<open>
  a \<open>Send\<close> or \<open>Recv\<close> can return and leave the socket's deadline in the past: the deadline is
  cleared before the watchdog is waited for, so a watchdog that starts in between trips it again
  and nothing clears it. The next call whose context has no deadline then fails with a timeout.
\<close>

theorem teardown_leaves_deadline:
  "(\<exists>s. teardown_reach s \<and> td_at s = Returned \<and> td_tripped s) \<and>
   fst (socket_Recv (quiet None) \<lparr>sk_closed = False, sk_tcp = tcp0\<lparr>tcp_end := Some TimedOut\<rparr>\<rparr>) =
     Some (Inl (io_terr (FrameHeader TimedOut)))"
proof -
  let ?s = "\<lambda>a w d. \<lparr>td_at = a, td_watch = w, td_tripped = d\<rparr>"
  have "teardown_reach (?s Leaving Armed False)" by (rule enter)
  then have "teardown_reach (?s LockReleased Armed False)"
    by (rule step) (use release [of "?s Leaving Armed False"] in simp)
  then have "teardown_reach (?s DeadlineCleared Armed False)"
    by (rule step) (use clear [of "?s LockReleased Armed False"] in simp)
  then have "teardown_reach (?s DeadlineCleared Started False)"
    by (rule step) (use ctx_done [of "?s DeadlineCleared Armed False"] in simp)
  then have "teardown_reach (?s DeadlineCleared Finished True)"
    by (rule step) (use trip [of "?s DeadlineCleared Started False"] in simp)
  then have "teardown_reach (?s Returned Finished True)"
    by (rule step) (use awaited [of "?s DeadlineCleared Finished True"] in simp)
  then have "\<exists>s. teardown_reach s \<and> td_at s = Returned \<and> td_tripped s"
    by (intro exI [of _ "?s Returned Finished True"]) simp
  then show ?thesis
    by (simp add: socket_Recv_def quiet_def readFrame_def ReadFull_def tcp0_def frameHeaderSize_def
        is_eof_def ctxError_def)
qed

text \<open>\<open>parseAddr\<close> never lets a Unix address through and otherwise only strips the scheme.\<close>

lemma parseAddr_cases:
  "parseAddr addr = Inr h \<longleftrightarrow> \<not> HasPrefix addr ''unix://'' \<and> h \<noteq> '''' \<and>
     (addr = ''tcp://'' @ h \<or> addr = h \<and> \<not> HasPrefix h ''tcp://'')"
proof -
  have pre: "HasPrefix (''tcp://'' @ h) ''tcp://''" for h by (simp add: HasPrefix_def)
  show ?thesis
  proof (cases "HasPrefix addr ''tcp://''")
    case True
    then obtain t where "addr = ''tcp://'' @ t" unfolding HasPrefix_iff by blast
    then show ?thesis
      using TrimPrefix_append [of "''tcp://''" t] pre [of t]
      by (auto simp: parseAddr_def Let_def simp del: TrimPrefix_append)
  next
    case False
    then show ?thesis using pre [of h] by (auto simp: parseAddr_def Let_def TrimPrefix_def)
  qed
qed

text \<open>The coalescing receive returns everything read until the socket was quiet, as one message.\<close>

lemma ux_coalesce_quiet:
  "ux_coalesce closed msg (map Data bs @ ReadTimeout # rs) = (Some (Inr (msg @ concat bs)), rs)"
  by (induction bs arbitrary: msg) simp_all

end
