(* ===== verification/Body.thy ===== *)
theory Body
  imports Go_Strings
begin

text \<open>
  The body helpers of internal/body: splitting a body into chunks, the buffering policy of a
  response, and the choice of encodings. The compression formats of the standard library are
  parameters: a function from the plain to the compressed bytes, and for request bodies the
  outcome of opening a decoder. Of a quality value only its sign matters.
\<close>

section \<open>Chunker\<close>

text \<open>
  A reader is the data it still delivers and the error that follows. \<open>io.EOF\<close> and
  \<open>io.ErrUnexpectedEOF\<close> are told apart from all others by \<open>errors.Is\<close>.
\<close>

datatype read_err = IO_EOF | IO_UnexpectedEOF | IO_Failed string

record io_reader =
  io_data :: bytes
  io_err :: read_err

definition ChunkSize :: nat where
  [go_consts]: "ChunkSize = 60000"

record Chunker =
  ck_r :: io_reader
  ck_done :: bool
  ck_err :: read_err

definition NewChunker :: "io_reader \<Rightarrow> Chunker" where
  "NewChunker r = \<lparr>ck_r = r, ck_done = False, ck_err = IO_EOF\<rparr>"

text \<open>\<open>io.ReadFull\<close> into a buffer of \<open>n\<close> bytes: the bytes read, an error if they are fewer, the rest.\<close>

definition io_ReadFull :: "nat \<Rightarrow> io_reader \<Rightarrow> bytes \<times> read_err option \<times> io_reader" where
  "io_ReadFull n r =
     (let got = take n (io_data r); r' = r\<lparr>io_data := drop n (io_data r)\<rparr> in
      if n \<le> length (io_data r) then (got, None, r')
      else if io_err r = IO_EOF \<and> got \<noteq> [] then (got, Some IO_UnexpectedEOF, r')
      else (got, Some (io_err r), r'))"

definition Chunker_Next :: "Chunker \<Rightarrow> (read_err + bytes) \<times> Chunker" where
  "Chunker_Next c =
     (if ck_done c then (Inl (ck_err c), c)
      else case io_ReadFull ChunkSize (ck_r c) of
        (buf, None, r) \<Rightarrow> (Inr buf, c\<lparr>ck_r := r\<rparr>)
      | (buf, Some IO_EOF, r) \<Rightarrow> (Inl IO_EOF, c\<lparr>ck_r := r, ck_done := True, ck_err := IO_EOF\<rparr>)
      | (buf, Some IO_UnexpectedEOF, r) \<Rightarrow> (Inr buf, c\<lparr>ck_r := r, ck_done := True, ck_err := IO_EOF\<rparr>)
      | (buf, Some e, r) \<Rightarrow> (Inl e, c\<lparr>ck_r := r, ck_done := True, ck_err := e\<rparr>))"

fun nexts :: "nat \<Rightarrow> Chunker \<Rightarrow> (read_err + bytes) list" where
  "nexts 0 c = []"
| "nexts (Suc n) c = (case Chunker_Next c of (x, c) \<Rightarrow> x # nexts n c)"

lemma nexts_done: "ck_done c \<Longrightarrow> nexts n c = replicate n (Inl (ck_err c))"
  by (induction n) (simp_all add: Chunker_Next_def)

text \<open>The body cut into full chunks, the last one shorter unless the length is a multiple.\<close>

function cut_chunks :: "bytes \<Rightarrow> bytes list" where
  "cut_chunks b = (if b = [] then [] else take ChunkSize b # cut_chunks (drop ChunkSize b))"
  by pat_completeness auto
termination by (relation "measure length") (auto simp: go_consts)

declare cut_chunks.simps [simp del]

lemma ChunkSize_pos: "0 < ChunkSize"
  by (simp add: go_consts)

lemma cut_chunks_spec:
  "concat (cut_chunks b) = b \<and> (\<forall>c \<in> set (cut_chunks b). c \<noteq> [] \<and> length c \<le> ChunkSize) \<and>
   (\<forall>c \<in> set (butlast (cut_chunks b)). length c = ChunkSize)"
proof (induction b rule: cut_chunks.induct)
  case (1 b)
  show ?case
  proof (cases "b = []")
    case False
    have full: "length (take ChunkSize b) = ChunkSize" if "cut_chunks (drop ChunkSize b) \<noteq> []"
      using that cut_chunks.simps [of "drop ChunkSize b"] by (auto split: if_splits)
    have cut: "cut_chunks b = take ChunkSize b # cut_chunks (drop ChunkSize b)"
      using False by (simp add: cut_chunks.simps [of b])
    have h: "take ChunkSize b \<noteq> []" "length (take ChunkSize b) \<le> ChunkSize"
      using False ChunkSize_pos by auto
    define h t where "h = take ChunkSize b" and "t = cut_chunks (drop ChunkSize b)"
    have "concat t = drop ChunkSize b" "\<forall>c \<in> set t. c \<noteq> [] \<and> length c \<le> ChunkSize"
        "\<forall>c \<in> set (butlast t). length c = ChunkSize"
      unfolding t_def using 1 [OF False] by blast+
    moreover have "h @ drop ChunkSize b = b" by (simp add: h_def)
    ultimately have "concat (h # t) = b \<and> (\<forall>c \<in> set (h # t). c \<noteq> [] \<and> length c \<le> ChunkSize) \<and>
        (\<forall>c \<in> set (butlast (h # t)). length c = ChunkSize)"
      using h full unfolding h_def [symmetric] t_def [symmetric] by simp
    then show ?thesis unfolding h_def t_def cut [symmetric] .
  qed (simp add: cut_chunks.simps)
qed

lemma nexts_clean:
  assumes "io_err (ck_r c) = IO_EOF" and "\<not> ck_done c"
  shows "nexts (length (cut_chunks (io_data (ck_r c))) + n) c =
    map Inr (cut_chunks (io_data (ck_r c))) @ replicate n (Inl IO_EOF)"
  using assms
proof (induction "io_data (ck_r c)" arbitrary: c rule: cut_chunks.induct)
  case 1
  let ?b = "io_data (ck_r c)"
  consider "?b = []" | "?b \<noteq> []" "length ?b < ChunkSize" | "ChunkSize \<le> length ?b" "?b \<noteq> []"
    by (metis leI)
  then show ?case
  proof cases
    case 1
    obtain c' where "Chunker_Next c = (Inl IO_EOF, c')" "ck_done c'" "ck_err c' = IO_EOF"
      using 1 "1.prems"
      by (auto simp: Chunker_Next_def io_ReadFull_def go_consts)
    then show ?thesis
      by (cases n) (simp_all add: 1 cut_chunks.simps nexts_done)
  next
    case 2
    then have cut: "cut_chunks ?b = [?b]" by (simp add: cut_chunks.simps)
    obtain c' where "Chunker_Next c = (Inr ?b, c')" "ck_done c'" "ck_err c' = IO_EOF"
      using 2 "1.prems" by (auto simp: Chunker_Next_def io_ReadFull_def Let_def)
    then show ?thesis by (simp add: cut nexts_done)
  next
    case 3
    let ?c = "c\<lparr>ck_r := (ck_r c)\<lparr>io_data := drop ChunkSize ?b\<rparr>\<rparr>"
    have "Chunker_Next c = (Inr (take ChunkSize ?b), ?c)"
      using 3 "1.prems" by (auto simp: Chunker_Next_def io_ReadFull_def Let_def)
    moreover have "nexts (length (cut_chunks (io_data (ck_r ?c))) + n) ?c =
        map Inr (cut_chunks (io_data (ck_r ?c))) @ replicate n (Inl IO_EOF)"
      by (rule "1.hyps") (use 3 "1.prems" in simp_all)
    moreover have "cut_chunks ?b = take ChunkSize ?b # cut_chunks (drop ChunkSize ?b)"
      using 3 by (simp add: cut_chunks.simps [of ?b])
    ultimately show ?thesis by simp
  qed
qed

section \<open>Response buffer\<close>

record ResponseBuffer =
  rb_cap :: int
  rb_buf :: bytes
  rb_passThrough :: bool

definition DefaultResponseBufferCap :: int where
  [go_consts]: "DefaultResponseBufferCap = 4194304"

definition NewResponseBuffer :: "int \<Rightarrow> ResponseBuffer" where
  "NewResponseBuffer cp = \<lparr>rb_cap = cp, rb_buf = [], rb_passThrough = cp \<le> 0\<rparr>"

definition rb_Write :: "bytes \<Rightarrow> ResponseBuffer \<Rightarrow> int \<times> ResponseBuffer" where
  "rb_Write p rb =
     (if rb_passThrough rb then (int (length p), rb)
      else
        let room = rb_cap rb - int (length (rb_buf rb)) in
        if room \<ge> int (length p) then (int (length p), rb\<lparr>rb_buf := rb_buf rb @ p\<rparr>)
        else (room, rb\<lparr>rb_buf := rb_buf rb @ take (nat room) p, rb_passThrough := True\<rparr>))"

definition rb_Len :: "ResponseBuffer \<Rightarrow> int" where
  "rb_Len rb = int (length (rb_buf rb))"

definition rb_SetContentLength :: "int \<Rightarrow> ResponseBuffer \<Rightarrow> ResponseBuffer" where
  "rb_SetContentLength n rb = (if n > rb_cap rb then rb\<lparr>rb_passThrough := True\<rparr> else rb)"

definition rb_MarkSSE :: "ResponseBuffer \<Rightarrow> ResponseBuffer" where
  "rb_MarkSSE rb = rb\<lparr>rb_passThrough := True\<rparr>"

datatype rb_call = RbWrite bytes | RbLength int | RbSSE

text \<open>
  A history of calls as the documented caller makes them: what passes through is forwarded at
  once, and when a write makes the buffer overflow the buffered bytes and the rest of the write
  are. The result is the buffer and what the client has been sent.
\<close>

fun rb_step :: "rb_call \<Rightarrow> ResponseBuffer \<times> bytes \<Rightarrow> ResponseBuffer \<times> bytes" where
  "rb_step (RbWrite p) (rb, out) =
     (if rb_passThrough rb then (snd (rb_Write p rb), out @ p)
      else case rb_Write p rb of (n, rb') \<Rightarrow>
        if rb_passThrough rb' then (rb', out @ rb_buf rb' @ drop (nat n) p) else (rb', out))"
| "rb_step (RbLength n) (rb, out) = (rb_SetContentLength n rb, out)"
| "rb_step RbSSE (rb, out) = (rb_MarkSSE rb, out)"

fun rb_written :: "rb_call list \<Rightarrow> bytes" where
  "rb_written [] = []"
| "rb_written (RbWrite p # cs) = p @ rb_written cs"
| "rb_written (_ # cs) = rb_written cs"

lemma rb_passing:
  "rb_passThrough rb \<Longrightarrow> \<exists>rb'. fold rb_step cs (rb, out) = (rb', out @ rb_written cs) \<and>
     rb_passThrough rb' \<and> rb_buf rb' = rb_buf rb"
proof (induction cs arbitrary: rb out)
  case (Cons c cs)
  show ?case
  proof (cases c)
    case (RbWrite p)
    with Cons.IH [of rb "out @ p"] Cons.prems show ?thesis by (simp add: rb_Write_def)
  next
    case (RbLength n)
    have "rb_SetContentLength n rb = rb" using Cons.prems by (cases rb) (simp add: rb_SetContentLength_def)
    with RbLength Cons.IH [of rb out] Cons.prems show ?thesis by simp
  next
    case RbSSE
    with Cons.IH [of "rb_MarkSSE rb" out] Cons.prems show ?thesis by (simp add: rb_MarkSSE_def)
  qed
qed simp

text \<open>From a buffer that still buffers, nothing sent yet: everything written is sent or buffered.\<close>

lemma rb_writes_kept:
  assumes "\<not> rb_passThrough rb" and "rb_Len rb \<le> rb_cap rb"
  shows "\<exists>rb' out. fold rb_step (map RbWrite ps) (rb, []) = (rb', out) \<and> rb_Len rb' \<le> rb_cap rb \<and>
    (if rb_passThrough rb' then out else rb_buf rb') = rb_buf rb @ concat ps \<and>
    (rb_passThrough rb' \<longleftrightarrow> rb_Len rb + int (length (concat ps)) > rb_cap rb) \<and>
    (\<not> rb_passThrough rb' \<longrightarrow> out = [])"
  using assms
proof (induction ps arbitrary: rb)
  case Nil
  then show ?case by (simp add: rb_Len_def)
next
  case (Cons p ps)
  have written: "rb_written (map RbWrite ps) = concat ps" for ps by (induction ps) simp_all
  show ?case
  proof (cases "rb_cap rb - rb_Len rb \<ge> int (length p)")
    case True
    let ?rb = "rb\<lparr>rb_buf := rb_buf rb @ p\<rparr>"
    have "rb_step (RbWrite p) (rb, []) = (?rb, [])"
      using True Cons.prems by (simp add: rb_Write_def rb_Len_def Let_def)
    moreover have "\<not> rb_passThrough ?rb" "rb_Len ?rb \<le> rb_cap ?rb"
      using True Cons.prems by (simp_all add: rb_Len_def)
    note Cons.IH [OF this]
    ultimately show ?thesis by (simp add: rb_Len_def algebra_simps)
  next
    case False
    let ?n = "rb_cap rb - rb_Len rb"
    let ?rb = "rb\<lparr>rb_buf := rb_buf rb @ take (nat ?n) p, rb_passThrough := True\<rparr>"
    have "rb_step (RbWrite p) (rb, []) = (?rb, rb_buf rb @ p)"
      using False Cons.prems by (simp add: rb_Write_def rb_Len_def Let_def)
    moreover have "rb_Len ?rb \<le> rb_cap rb" using False Cons.prems by (simp add: rb_Len_def)
    moreover obtain rb' where "fold rb_step (map RbWrite ps) (?rb, rb_buf rb @ p) =
        (rb', (rb_buf rb @ p) @ concat ps)" "rb_passThrough rb'" "rb_buf rb' = rb_buf ?rb"
      using rb_passing [of ?rb "map RbWrite ps" "rb_buf rb @ p"] by (auto simp: written)
    ultimately show ?thesis using False by (simp add: rb_Len_def)
  qed
qed

section \<open>Encodings\<close>

text \<open>
  \<open>acceptsGzip\<close>, with \<open>strconv.ParseFloat\<close> as a parameter that yields the sign of the number, or
  nothing on an error; \<open>QNaN\<close> is neither negative nor at least zero.
\<close>

datatype qval = QNegative | QZero | QPositive | QNaN

fun gzip_param :: "(string \<Rightarrow> qval option) \<Rightarrow> string \<Rightarrow> qval \<Rightarrow> qval" where
  "gzip_param pf param q =
     (case Cut (TrimSpace param) (CHR ''='') of
        Some (k, v) \<Rightarrow>
          if EqualFold (TrimSpace k) ''q'' then (case pf (TrimSpace v) of Some q' \<Rightarrow> q' | None \<Rightarrow> q) else q
      | None \<Rightarrow> q)"

fun gzip_item :: "(string \<Rightarrow> qval option) \<Rightarrow> string \<Rightarrow> qval \<times> qval \<Rightarrow> qval \<times> qval" where
  "gzip_item pf item (gzipQ, wildcardQ) =
     (let parts = Split item (CHR '';'');
          name = ToLower (TrimSpace (hd parts));
          q = fold (gzip_param pf) (tl parts) QPositive
      in if name = ''gzip'' then (q, wildcardQ)
         else if name = ''*'' then (gzipQ, q)
         else (gzipQ, wildcardQ))"

definition acceptsGzip :: "(string \<Rightarrow> qval option) \<Rightarrow> string \<Rightarrow> bool" where
  "acceptsGzip pf header =
     (if TrimSpace header = '''' then False
      else
        let (gzipQ, wildcardQ) = fold (gzip_item pf) (Split header (CHR '','')) (QNegative, QZero) in
        if gzipQ = QZero \<or> gzipQ = QPositive then gzipQ = QPositive else wildcardQ = QPositive)"

definition Recompress :: "(string \<Rightarrow> qval option) \<Rightarrow> (bytes \<Rightarrow> bytes) \<Rightarrow> bytes \<Rightarrow> string \<Rightarrow> bytes \<times> string" where
  "Recompress pf gz body acceptEncoding =
     (if \<not> acceptsGzip pf acceptEncoding then (body, ''identity'') else (gz body, ''gzip''))"

text \<open>
  \<open>OpenRequestBody\<close>: which decoder is chosen, for readers of any type \<open>'r\<close>. Opening the decoder is
  the library's, an error of it is passed on.
\<close>

datatype body_err = UnsupportedEncoding | DecoderError string

definition OpenRequestBody ::
  "('r \<Rightarrow> string + 'r) \<Rightarrow> ('r \<Rightarrow> string + 'r) \<Rightarrow> 'r \<Rightarrow> string \<Rightarrow> body_err + 'r" where
  "OpenRequestBody gunz inflate r encoding =
     (let e = ToLower (TrimSpace encoding) in
      if e = '''' \<or> e = ''identity'' then Inr r
      else if e = ''gzip'' then (case gunz r of Inl x \<Rightarrow> Inl (DecoderError x) | Inr b \<Rightarrow> Inr b)
      else if e = ''deflate'' then (case inflate r of Inl x \<Rightarrow> Inl (DecoderError x) | Inr b \<Rightarrow> Inr b)
      else Inl UnsupportedEncoding)"

section \<open>Properties\<close>

text \<open>
  over a body that ends cleanly the chunker delivers the body cut into non-empty chunks of
  at most \<open>ChunkSize\<close> bytes, all but the last of exactly that size, and then \<open>io.EOF\<close> for ever.
\<close>

theorem chunker_delivers:
  "\<exists>cs. nexts (length cs + n) (NewChunker \<lparr>io_data = b, io_err = IO_EOF\<rparr>) = map Inr cs @ replicate n (Inl IO_EOF) \<and>
     concat cs = b \<and> [] \<notin> set cs \<and> (\<forall>c \<in> set cs. length c \<le> ChunkSize) \<and>
     (\<forall>c \<in> set (butlast cs). length c = ChunkSize)"
  using nexts_clean [of "NewChunker \<lparr>io_data = b, io_err = IO_EOF\<rparr>" n] cut_chunks_spec [of b]
  by (intro exI [of _ "cut_chunks b"]) (auto simp: NewChunker_def)

theorem chunker_delivers_witness:
  "\<exists>cs. nexts (length cs + 2) (NewChunker \<lparr>io_data = [1, 2], io_err = IO_EOF\<rparr>) = map Inr cs @ replicate 2 (Inl IO_EOF) \<and>
     concat cs = [1, 2]"
  using chunker_delivers [of 2 "[1, 2]"] by blast

text \<open>
  a body whose reader fails with \<open>io.ErrUnexpectedEOF\<close>, which is what an HTTP request body
  reports when the client goes away before the declared length, is taken for a complete one:
  the chunker returns what was read as the final chunk and then a clean \<open>io.EOF\<close>.
\<close>

theorem chunker_hides_truncation:
  assumes "length b < ChunkSize"
  shows "nexts (Suc n) (NewChunker \<lparr>io_data = b, io_err = IO_UnexpectedEOF\<rparr>) =
    Inr b # replicate n (Inl IO_EOF)"
  using assms by (simp add: Chunker_Next_def io_ReadFull_def NewChunker_def nexts_done)

theorem chunker_hides_truncation_witness:
  "nexts 2 (NewChunker \<lparr>io_data = [1, 2], io_err = IO_UnexpectedEOF\<rparr>) = [Inr [1, 2], Inl IO_EOF]"
  using chunker_hides_truncation [of "[1, 2]" 1] by (simp add: go_consts numeral_2_eq_2)

text \<open>
  C24: for any sequence of writes a new response buffer never holds more than its cap; as long as
  the total fits, the buffer holds all of it and nothing has been sent, and from the write that
  exceeds the cap on the client has been sent everything written so far, in order, once.
\<close>

theorem response_buffer_loses_nothing:
  assumes "0 < cp"
  shows "case fold rb_step (map RbWrite ps) (NewResponseBuffer cp, []) of (rb, out) \<Rightarrow>
    rb_Len rb \<le> cp \<and> rb_passThrough rb = (int (length (concat ps)) > cp) \<and>
    (if rb_passThrough rb then out = concat ps else rb_buf rb = concat ps \<and> out = [])"
proof -
  have "\<not> rb_passThrough (NewResponseBuffer cp)" "rb_Len (NewResponseBuffer cp) \<le> rb_cap (NewResponseBuffer cp)"
    using assms by (simp_all add: NewResponseBuffer_def rb_Len_def)
  from rb_writes_kept [OF this, of ps] obtain rb out where
    run: "fold rb_step (map RbWrite ps) (NewResponseBuffer cp, []) = (rb, out)" and
    "rb_Len rb \<le> cp" "(if rb_passThrough rb then out else rb_buf rb) = concat ps"
    "rb_passThrough rb \<longleftrightarrow> int (length (concat ps)) > cp" "\<not> rb_passThrough rb \<longrightarrow> out = []"
    by (auto simp: NewResponseBuffer_def rb_Len_def)
  then show ?thesis by (simp add: run split: if_splits)
qed

theorem response_buffer_loses_nothing_witness:
  "snd (fold rb_step (map RbWrite [[1, 2], [3, 4], [5]]) (NewResponseBuffer 3, [])) = [1, 2, 3, 4, 5]"
  using response_buffer_loses_nothing [of 3 "[[1, 2], [3, 4], [5]]"] by (auto split: prod.splits if_splits)

end
