(* ===== verification/Config.thy ===== *)
theory Config
  imports Go_Strings
begin

text \<open>
  The configuration of internal/config: the engine's and the handler's settings, their defaults and
  their validation. Numbers of type int are integers within the 64-bit range; an optional
  boolean is a pointer that may be nil. A validation error is named by what it complains about.
\<close>

section \<open>Constants\<close>

definition DefaultRegistrationSocket :: string where
  "DefaultRegistrationSocket = ''/dev/shm/check-point/cp-nano-attachment-registration''"

definition DefaultKeepAlivePath :: string where
  "DefaultKeepAlivePath = ''/dev/shm/check-point/cp-nano-attachment-registration-expiration-socket''"

definition DefaultVerdictSignalPath :: string where
  "DefaultVerdictSignalPath = ''/dev/shm/check-point/cp-nano-http-transaction-handler''"

definition DefaultWorkers :: int where
  "DefaultWorkers = 1"

definition DefaultAttachmentType :: string where
  "DefaultAttachmentType = ''nginx''"

definition DefaultKeepAliveIntervalMs :: int where
  "DefaultKeepAliveIntervalMs = 300000"

definition DefaultRegistrationTimeoutMs :: int where
  "DefaultRegistrationTimeoutMs = 100"

definition DefaultReconnectBackoffMinMs :: int where
  "DefaultReconnectBackoffMinMs = 100"

definition DefaultReconnectBackoffMaxMs :: int where
  "DefaultReconnectBackoffMaxMs = 5000"

definition DefaultFailOpenTimeoutMs :: int where
  "DefaultFailOpenTimeoutMs = 50"

definition DefaultFailOpenHoldTimeoutMs :: int where
  "DefaultFailOpenHoldTimeoutMs = 150"

definition DefaultReqMaxProcessingMs :: int where
  "DefaultReqMaxProcessingMs = 3000"

definition DefaultResMaxProcessingMs :: int where
  "DefaultResMaxProcessingMs = 3000"

definition DefaultMinRetriesForVerdict :: int where
  "DefaultMinRetriesForVerdict = 3"

definition DefaultMaxRetriesForVerdict :: int where
  "DefaultMaxRetriesForVerdict = 15"

definition DefaultHoldVerdictRetries :: int where
  "DefaultHoldVerdictRetries = 3"

definition DefaultHoldVerdictPollingMs :: int where
  "DefaultHoldVerdictPollingMs = 1"

definition DefaultBodySizeTrigger :: int where
  "DefaultBodySizeTrigger = 200000"

definition DefaultDecompressionPoolSize :: int where
  "DefaultDecompressionPoolSize = 262144"

definition DefaultRecompressionPoolSize :: int where
  "DefaultRecompressionPoolSize = 16384"

definition DefaultLogLevel :: string where
  "DefaultLogLevel = ''info''"

definition TransportMemory :: string where
  "TransportMemory = ''memory''"

definition TransportSocket :: string where
  "TransportSocket = ''socket''"

definition TransportSHM :: string where
  "TransportSHM = ''shm''"

definition DefaultBodyBufferLimit :: int where
  "DefaultBodyBufferLimit = 10 * 1024 * 1024"

definition DefaultResponseBufferLimit :: int where
  "DefaultResponseBufferLimit = 4 * 1024 * 1024"

definition DefaultBlockStatusCode :: int where
  "DefaultBlockStatusCode = 403"

lemmas config_consts = DefaultRegistrationSocket_def
  DefaultKeepAlivePath_def
  DefaultVerdictSignalPath_def
  DefaultWorkers_def
  DefaultAttachmentType_def
  DefaultKeepAliveIntervalMs_def
  DefaultRegistrationTimeoutMs_def
  DefaultReconnectBackoffMinMs_def
  DefaultReconnectBackoffMaxMs_def
  DefaultFailOpenTimeoutMs_def
  DefaultFailOpenHoldTimeoutMs_def
  DefaultReqMaxProcessingMs_def
  DefaultResMaxProcessingMs_def
  DefaultMinRetriesForVerdict_def
  DefaultMaxRetriesForVerdict_def
  DefaultHoldVerdictRetries_def
  DefaultHoldVerdictPollingMs_def
  DefaultBodySizeTrigger_def
  DefaultDecompressionPoolSize_def
  DefaultRecompressionPoolSize_def
  DefaultLogLevel_def
  TransportMemory_def
  TransportSocket_def
  TransportSHM_def
  DefaultBodyBufferLimit_def
  DefaultResponseBufferLimit_def
  DefaultBlockStatusCode_def

section \<open>Engine configuration\<close>

record EngineConfig =
  ec_Transport :: string
  ec_RegistrationSocket :: string
  ec_KeepAlivePath :: string
  ec_VerdictSignalPath :: string
  ec_FamilyName :: string
  ec_WorkerID :: int
  ec_Workers :: int
  ec_AttachmentType :: string
  ec_KeepAliveIntervalMs :: int
  ec_RegistrationTimeoutMs :: int
  ec_ReconnectBackoffMinMs :: int
  ec_ReconnectBackoffMaxMs :: int
  ec_FailOpen :: "bool option"
  ec_FailOpenTimeoutMs :: int
  ec_FailOpenHoldTimeoutMs :: int
  ec_ReqMaxProcessingMs :: int
  ec_ResMaxProcessingMs :: int
  ec_MinRetriesForVerdict :: int
  ec_MaxRetriesForVerdict :: int
  ec_HoldVerdictRetries :: int
  ec_HoldVerdictPollingMs :: int
  ec_BodySizeTrigger :: int
  ec_DecompressionPoolSize :: int
  ec_RecompressionPoolSize :: int
  ec_IsBrotliInspectionEnabled :: bool
  ec_LogLevel :: string

text \<open>The configuration of an empty JSON object.\<close>

definition EngineConfig_zero :: EngineConfig where
  "EngineConfig_zero = \<lparr>ec_Transport = '''',
     ec_RegistrationSocket = '''',
     ec_KeepAlivePath = '''',
     ec_VerdictSignalPath = '''',
     ec_FamilyName = '''',
     ec_WorkerID = 0,
     ec_Workers = 0,
     ec_AttachmentType = '''',
     ec_KeepAliveIntervalMs = 0,
     ec_RegistrationTimeoutMs = 0,
     ec_ReconnectBackoffMinMs = 0,
     ec_ReconnectBackoffMaxMs = 0,
     ec_FailOpen = None,
     ec_FailOpenTimeoutMs = 0,
     ec_FailOpenHoldTimeoutMs = 0,
     ec_ReqMaxProcessingMs = 0,
     ec_ResMaxProcessingMs = 0,
     ec_MinRetriesForVerdict = 0,
     ec_MaxRetriesForVerdict = 0,
     ec_HoldVerdictRetries = 0,
     ec_HoldVerdictPollingMs = 0,
     ec_BodySizeTrigger = 0,
     ec_DecompressionPoolSize = 0,
     ec_RecompressionPoolSize = 0,
     ec_IsBrotliInspectionEnabled = False,
     ec_LogLevel = ''''\<rparr>"

text \<open>The arithmetic of the type int wraps around at 64 bits.\<close>

definition go_int :: "int \<Rightarrow> int" where
  "go_int i = sint (word_of_int i :: 64 word)"

lemma go_int_id: "- (2 ^ 63) \<le> i \<Longrightarrow> i < 2 ^ 63 \<Longrightarrow> go_int i = i"
  by (simp add: go_int_def sint_sbintrunc' signed_take_bit_int_eq_self)

lemma go_int_overflow: "2 ^ 63 \<le> i \<Longrightarrow> i < 2 ^ 64 \<Longrightarrow> go_int i = i - 2 ^ 64"
proof -
  assume i: "2 ^ 63 \<le> i" "i < 2 ^ 64"
  have "(word_of_int i :: 64 word) = word_of_int (i - 2 ^ 64)"
    by (simp add: word_of_int_eq_iff take_bit_eq_mod)
  then have "go_int i = go_int (i - 2 ^ 64)" by (simp only: go_int_def)
  also have "\<dots> = i - 2 ^ 64" using i by (intro go_int_id) simp_all
  finally show ?thesis .
qed

text \<open>A number of milliseconds as a \<open>time.Duration\<close> in nanoseconds.\<close>

definition ms :: "int \<Rightarrow> int" where
  "ms n = go_int (n * 1000000)"

definition UniqueID :: "EngineConfig \<Rightarrow> string" where
  "UniqueID c =
     (if ec_FamilyName c \<noteq> '''' then ec_FamilyName c @ ''_'' @ Itoa (go_int (ec_WorkerID c + 1))
      else Itoa (go_int (ec_WorkerID c + 1)))"

text \<open>Filling in one field: a value that is the type's zero is replaced by the default.\<close>

definition dflt_str :: "string \<Rightarrow> string \<Rightarrow> string" where
  "dflt_str d v = (if v = '''' then d else v)"

definition dflt_int :: "int \<Rightarrow> int \<Rightarrow> int" where
  "dflt_int d v = (if v = 0 then d else v)"

definition dflt_bool :: "bool \<Rightarrow> bool option \<Rightarrow> bool option" where
  "dflt_bool d v = (if v = None then Some d else v)"

definition EngineConfig_SetDefaults :: "EngineConfig \<Rightarrow> EngineConfig" where
  "EngineConfig_SetDefaults c = c\<lparr>
     ec_RegistrationSocket := dflt_str DefaultRegistrationSocket (ec_RegistrationSocket c),
     ec_KeepAlivePath := dflt_str DefaultKeepAlivePath (ec_KeepAlivePath c),
     ec_VerdictSignalPath := dflt_str DefaultVerdictSignalPath (ec_VerdictSignalPath c),
     ec_Workers := dflt_int DefaultWorkers (ec_Workers c),
     ec_AttachmentType := dflt_str DefaultAttachmentType (ec_AttachmentType c),
     ec_KeepAliveIntervalMs := dflt_int DefaultKeepAliveIntervalMs (ec_KeepAliveIntervalMs c),
     ec_RegistrationTimeoutMs := dflt_int DefaultRegistrationTimeoutMs (ec_RegistrationTimeoutMs c),
     ec_ReconnectBackoffMinMs := dflt_int DefaultReconnectBackoffMinMs (ec_ReconnectBackoffMinMs c),
     ec_ReconnectBackoffMaxMs := dflt_int DefaultReconnectBackoffMaxMs (ec_ReconnectBackoffMaxMs c),
     ec_FailOpen := dflt_bool True (ec_FailOpen c),
     ec_FailOpenTimeoutMs := dflt_int DefaultFailOpenTimeoutMs (ec_FailOpenTimeoutMs c),
     ec_FailOpenHoldTimeoutMs := dflt_int DefaultFailOpenHoldTimeoutMs (ec_FailOpenHoldTimeoutMs c),
     ec_ReqMaxProcessingMs := dflt_int DefaultReqMaxProcessingMs (ec_ReqMaxProcessingMs c),
     ec_ResMaxProcessingMs := dflt_int DefaultResMaxProcessingMs (ec_ResMaxProcessingMs c),
     ec_MinRetriesForVerdict := dflt_int DefaultMinRetriesForVerdict (ec_MinRetriesForVerdict c),
     ec_MaxRetriesForVerdict := dflt_int DefaultMaxRetriesForVerdict (ec_MaxRetriesForVerdict c),
     ec_HoldVerdictRetries := dflt_int DefaultHoldVerdictRetries (ec_HoldVerdictRetries c),
     ec_HoldVerdictPollingMs := dflt_int DefaultHoldVerdictPollingMs (ec_HoldVerdictPollingMs c),
     ec_BodySizeTrigger := dflt_int DefaultBodySizeTrigger (ec_BodySizeTrigger c),
     ec_DecompressionPoolSize := dflt_int DefaultDecompressionPoolSize (ec_DecompressionPoolSize c),
     ec_RecompressionPoolSize := dflt_int DefaultRecompressionPoolSize (ec_RecompressionPoolSize c),
     ec_LogLevel := dflt_str DefaultLogLevel (ec_LogLevel c)\<rparr>"

datatype cfg_err = Required string | Unsupported string string | Negative string int | NotPositive string int
  | BelowMinimum string int int | BadStatus int | BadMode string

definition supportedAttachmentTypes :: "string list" where
  "supportedAttachmentTypes = [''nginx'']"

definition supportedTransports :: "string list" where
  "supportedTransports = [TransportMemory, TransportSocket, TransportSHM]"

definition positiveErrors :: "(string \<times> int) list \<Rightarrow> cfg_err list" where
  "positiveErrors fs = [NotPositive n v. (n, v) \<leftarrow> fs, v \<le> 0]"

text \<open>The fields that must be positive, in the order in which they are reported.\<close>

definition positive_fields :: "EngineConfig \<Rightarrow> (string \<times> int) list" where
  "positive_fields c =
     [(''keep_alive_interval_ms'', ec_KeepAliveIntervalMs c),
      (''registration_timeout_ms'', ec_RegistrationTimeoutMs c),
      (''reconnect_backoff_min_ms'', ec_ReconnectBackoffMinMs c),
      (''reconnect_backoff_max_ms'', ec_ReconnectBackoffMaxMs c),
      (''fail_open_timeout_ms'', ec_FailOpenTimeoutMs c),
      (''fail_open_hold_timeout_ms'', ec_FailOpenHoldTimeoutMs c),
      (''req_max_processing_ms'', ec_ReqMaxProcessingMs c),
      (''res_max_processing_ms'', ec_ResMaxProcessingMs c),
      (''min_retries_for_verdict'', ec_MinRetriesForVerdict c),
      (''max_retries_for_verdict'', ec_MaxRetriesForVerdict c),
      (''hold_verdict_retries'', ec_HoldVerdictRetries c),
      (''hold_verdict_polling_ms'', ec_HoldVerdictPollingMs c),
      (''body_size_trigger'', ec_BodySizeTrigger c),
      (''decompression_pool_size'', ec_DecompressionPoolSize c),
      (''recompression_pool_size'', ec_RecompressionPoolSize c)]"

text \<open>The list of violations; the error is nil when it is empty.\<close>

definition EngineConfig_Validate :: "EngineConfig \<Rightarrow> cfg_err list" where
  "EngineConfig_Validate c =
     (if TrimSpace (ec_FamilyName c) = '''' then [Required ''family_name''] else []) @
     (if ec_AttachmentType c \<notin> set supportedAttachmentTypes
      then [Unsupported ''attachment_type'' (ec_AttachmentType c)] else []) @
     (if ec_Transport c \<noteq> '''' \<and> ec_Transport c \<notin> set supportedTransports
      then [Unsupported ''transport'' (ec_Transport c)] else []) @
     (if ec_WorkerID c < 0 then [Negative ''worker_id'' (ec_WorkerID c)] else []) @
     (if ec_Workers c \<le> 0 then [NotPositive ''workers'' (ec_Workers c)] else []) @
     positiveErrors (positive_fields c) @
     (if ec_ReconnectBackoffMaxMs c < ec_ReconnectBackoffMinMs c
      then [BelowMinimum ''reconnect_backoff_max_ms'' (ec_ReconnectBackoffMaxMs c) (ec_ReconnectBackoffMinMs c)]
      else []) @
     (if ec_MaxRetriesForVerdict c < ec_MinRetriesForVerdict c
      then [BelowMinimum ''max_retries_for_verdict'' (ec_MaxRetriesForVerdict c) (ec_MinRetriesForVerdict c)]
      else [])"

section \<open>Handler configuration\<close>

text \<open>A mode is any string; the JSON configuration may hold one that is not known.\<close>

definition ModePrevent :: string where
  "ModePrevent = ''prevent''"

definition ModeLearn :: string where
  "ModeLearn = ''learn''"

definition DefaultMode :: string where
  "DefaultMode = ModePrevent"

definition Mode_IsValid :: "string \<Rightarrow> bool" where
  "Mode_IsValid m \<longleftrightarrow> m = ModePrevent \<or> m = ModeLearn"

record HandlerConfig =
  hc_BodyBufferLimit :: int
  hc_ResponseBufferLimit :: int
  hc_BlockStatusCode :: int
  hc_BlockPageTitle :: string
  hc_BlockPageBody :: string
  hc_Mode :: string
  hc_SkipCompressedBodyInspection :: bool
  hc_FailOpen :: "bool option"
  hc_CustomHeaders :: "(string \<times> string) list"

definition HandlerConfig_zero :: HandlerConfig where
  "HandlerConfig_zero = \<lparr>hc_BodyBufferLimit = 0, hc_ResponseBufferLimit = 0, hc_BlockStatusCode = 0,
     hc_BlockPageTitle = '''', hc_BlockPageBody = '''', hc_Mode = '''',
     hc_SkipCompressedBodyInspection = False, hc_FailOpen = None, hc_CustomHeaders = []\<rparr>"

definition HandlerConfig_SetDefaults :: "HandlerConfig \<Rightarrow> HandlerConfig" where
  "HandlerConfig_SetDefaults c = c\<lparr>
     hc_BodyBufferLimit := dflt_int DefaultBodyBufferLimit (hc_BodyBufferLimit c),
     hc_ResponseBufferLimit := dflt_int DefaultResponseBufferLimit (hc_ResponseBufferLimit c),
     hc_BlockStatusCode := dflt_int DefaultBlockStatusCode (hc_BlockStatusCode c),
     hc_Mode := dflt_str DefaultMode (hc_Mode c),
     hc_FailOpen := dflt_bool True (hc_FailOpen c)\<rparr>"

definition HandlerConfig_Validate :: "HandlerConfig \<Rightarrow> cfg_err list" where
  "HandlerConfig_Validate c =
     positiveErrors [(''body_buffer_limit'', hc_BodyBufferLimit c),
       (''response_buffer_limit'', hc_ResponseBufferLimit c)] @
     (if hc_BlockStatusCode c < 400 \<or> hc_BlockStatusCode c > 599 then [BadStatus (hc_BlockStatusCode c)] else []) @
     (if \<not> Mode_IsValid (hc_Mode c) then [BadMode (hc_Mode c)] else [])"

section \<open>Properties\<close>

lemma dflt_idem [simp]:
  "d \<noteq> '''' \<Longrightarrow> dflt_str d (dflt_str d s) = dflt_str d s"
  "dflt_int e (dflt_int e i) = dflt_int e i"
  "dflt_bool b (dflt_bool b v) = dflt_bool b v"
  by (simp_all add: dflt_str_def dflt_int_def dflt_bool_def)

lemma dflt_str_twice [simp]: "dflt_str d (dflt_str d s) = dflt_str d s"
  by (simp add: dflt_str_def)

lemma SetDefaults_idem: "EngineConfig_SetDefaults (EngineConfig_SetDefaults c) = EngineConfig_SetDefaults c"
  by (simp add: EngineConfig_SetDefaults_def)

lemma dflt_int_pos: "0 < d \<Longrightarrow> 0 < dflt_int d v \<longleftrightarrow> 0 \<le> v"
  by (auto simp: dflt_int_def)

lemma positiveErrors_Nil: "positiveErrors fs = [] \<longleftrightarrow> (\<forall>(n, v) \<in> set fs. 0 < v)"
  by (auto simp: positiveErrors_def concat_eq_Nil_conv split: if_splits)

lemma dflt_pos_iff: "0 < d \<Longrightarrow> (dflt_int d v \<le> 0) = (v < 0)"
  by (auto simp: dflt_int_def)

text \<open>
  filling in defaults is idempotent, and the configuration it gives passes validation exactly
  when the user's settings satisfy: a family name that is not blank, the attachment type nginx
  or none, a known transport or none, no negative number among the validated fields, and
  maxima not below the minima after defaulting.
\<close>

theorem engine_defaults_valid_iff:
  "(EngineConfig_Validate (EngineConfig_SetDefaults c) = [] \<longleftrightarrow>
     TrimSpace (ec_FamilyName c) \<noteq> '''' \<and> ec_AttachmentType c \<in> {'''', ''nginx''} \<and>
     ec_Transport c \<in> {'''', ''memory'', ''socket'', ''shm''} \<and> 0 \<le> ec_WorkerID c \<and> 0 \<le> ec_Workers c \<and>
     (\<forall>(n, v) \<in> set (positive_fields c). 0 \<le> v) \<and>
     dflt_int 100 (ec_ReconnectBackoffMinMs c) \<le> dflt_int 5000 (ec_ReconnectBackoffMaxMs c) \<and>
     dflt_int 3 (ec_MinRetriesForVerdict c) \<le> dflt_int 15 (ec_MaxRetriesForVerdict c)) \<and>
   EngineConfig_SetDefaults (EngineConfig_SetDefaults c) = EngineConfig_SetDefaults c"
proof -
  let ?d = "EngineConfig_SetDefaults c"
  have pos: "positiveErrors (positive_fields ?d) = [] \<longleftrightarrow> (\<forall>(n, v) \<in> set (positive_fields c). 0 \<le> v)"
    unfolding positiveErrors_Nil
    by (simp add: positive_fields_def EngineConfig_SetDefaults_def config_consts dflt_int_pos)
  have att: "ec_AttachmentType ?d = ''nginx'' \<longleftrightarrow> ec_AttachmentType c \<in> {'''', ''nginx''}"
    by (auto simp: EngineConfig_SetDefaults_def dflt_str_def DefaultAttachmentType_def)
  have "EngineConfig_Validate ?d = [] \<longleftrightarrow>
     TrimSpace (ec_FamilyName ?d) \<noteq> '''' \<and> ec_AttachmentType ?d = ''nginx'' \<and>
     ec_Transport ?d \<in> {'''', ''memory'', ''socket'', ''shm''} \<and> 0 \<le> ec_WorkerID ?d \<and> 0 < ec_Workers ?d \<and>
     positiveErrors (positive_fields ?d) = [] \<and>
     ec_ReconnectBackoffMinMs ?d \<le> ec_ReconnectBackoffMaxMs ?d \<and>
     ec_MinRetriesForVerdict ?d \<le> ec_MaxRetriesForVerdict ?d"
    by (simp add: EngineConfig_Validate_def supportedAttachmentTypes_def supportedTransports_def
        TransportMemory_def TransportSocket_def TransportSHM_def not_le not_less)
  moreover have "ec_FamilyName ?d = ec_FamilyName c" "ec_Transport ?d = ec_Transport c"
      "ec_WorkerID ?d = ec_WorkerID c" "0 < ec_Workers ?d \<longleftrightarrow> 0 \<le> ec_Workers c"
      "ec_ReconnectBackoffMinMs ?d = dflt_int 100 (ec_ReconnectBackoffMinMs c)"
      "ec_ReconnectBackoffMaxMs ?d = dflt_int 5000 (ec_ReconnectBackoffMaxMs c)"
      "ec_MinRetriesForVerdict ?d = dflt_int 3 (ec_MinRetriesForVerdict c)"
      "ec_MaxRetriesForVerdict ?d = dflt_int 15 (ec_MaxRetriesForVerdict c)"
    by (simp_all add: EngineConfig_SetDefaults_def config_consts dflt_int_pos)
  ultimately show ?thesis using pos att SetDefaults_idem by simp
qed

theorem engine_defaults_valid_iff_witness:
  "EngineConfig_Validate (EngineConfig_SetDefaults (EngineConfig_zero\<lparr>ec_FamilyName := ''edge''\<rparr>)) = []"
  using engine_defaults_valid_iff [of "EngineConfig_zero\<lparr>ec_FamilyName := ''edge''\<rparr>"]
  by (simp add: EngineConfig_zero_def positive_fields_def dflt_int_def TrimSpace_plain plain_def)

text \<open>
  the keep-alive interval has no upper bound: whatever passes validation still passes with any
  larger interval, although the engine drops a registration that stays silent for 300000 ms, and
  the default is that window itself.
\<close>

theorem keep_alive_interval_unbounded:
  assumes "EngineConfig_Validate c = []" and "0 < v"
  shows "EngineConfig_Validate (c\<lparr>ec_KeepAliveIntervalMs := v\<rparr>) = [] \<and>
    ec_KeepAliveIntervalMs (EngineConfig_SetDefaults EngineConfig_zero) = 300000"
  using assms
  by (simp add: EngineConfig_Validate_def positiveErrors_def positive_fields_def EngineConfig_SetDefaults_def
      EngineConfig_zero_def dflt_int_def DefaultKeepAliveIntervalMs_def split: if_splits)

theorem keep_alive_interval_unbounded_witness:
  "EngineConfig_Validate ((EngineConfig_SetDefaults (EngineConfig_zero\<lparr>ec_FamilyName := ''edge''\<rparr>))
     \<lparr>ec_KeepAliveIntervalMs := 900000\<rparr>) = []"
proof -
  have "EngineConfig_Validate (EngineConfig_SetDefaults (EngineConfig_zero\<lparr>ec_FamilyName := ''edge''\<rparr>)) = []"
    by (simp add: EngineConfig_Validate_def EngineConfig_SetDefaults_def EngineConfig_zero_def positive_fields_def
        positiveErrors_def supportedAttachmentTypes_def dflt_int_def dflt_str_def config_consts TrimSpace_plain plain_def)
  from keep_alive_interval_unbounded [OF this] show ?thesis by simp
qed

text \<open>The handler's defaults are idempotent and what they give is valid for every known mode.\<close>

lemma handler_defaults_valid_iff:
  "HandlerConfig_Validate (HandlerConfig_SetDefaults c) = [] \<longleftrightarrow>
     0 \<le> hc_BodyBufferLimit c \<and> 0 \<le> hc_ResponseBufferLimit c \<and>
     hc_BlockStatusCode c \<in> {0} \<union> {400..599} \<and> hc_Mode c \<in> {'''', ''prevent'', ''learn''}"
proof -
  have "0 < dflt_int DefaultBodyBufferLimit v \<longleftrightarrow> 0 \<le> v" "0 < dflt_int DefaultResponseBufferLimit v \<longleftrightarrow> 0 \<le> v" for v
    by (auto simp: dflt_int_def DefaultBodyBufferLimit_def DefaultResponseBufferLimit_def)
  moreover have "(dflt_int DefaultBlockStatusCode v < 400 \<or> dflt_int DefaultBlockStatusCode v > 599) \<longleftrightarrow>
      v \<notin> {0} \<union> {400..599}" for v
    by (auto simp: dflt_int_def DefaultBlockStatusCode_def)
  moreover have "Mode_IsValid (dflt_str DefaultMode m) \<longleftrightarrow> m \<in> {'''', ''prevent'', ''learn''}" for m
    by (auto simp: Mode_IsValid_def dflt_str_def DefaultMode_def ModePrevent_def ModeLearn_def)
  ultimately show ?thesis
    by (simp add: HandlerConfig_Validate_def HandlerConfig_SetDefaults_def positiveErrors_Nil)
qed

end
