(* ===== verification/Handshake.thy ===== *)
theory Handshake
  imports Transport Protocol Config
begin

text \<open>
  The dialers of internal/app (dialer.go, dialer_linux.go) and the two-phase registration handshake
  of handshake.go. The transports are reached through a record of operations \<open>net\<close> on a world \<open>'w\<close>
  and connections \<open>'k\<close>; a call that waits has returned, with an error when its context ended.
  The last argument of \<open>nt_send\<close> and \<open>nt_recv\<close> before the world is the deadline that the caller
  adds to the request's own context, if any.
\<close>

section \<open>The transports as seen by the app\<close>

datatype medium = InMemory | TCP | UnixSocket

record ('k, 'w) net =
  nt_connect :: "medium \<Rightarrow> string \<Rightarrow> 'w \<Rightarrow> (terr + 'k) \<times> 'w"
  nt_openRing :: "string \<Rightarrow> 'k \<Rightarrow> 'w \<Rightarrow> (terr + 'k) \<times> 'w"
  nt_send :: "'k \<Rightarrow> bytes \<Rightarrow> 'w \<Rightarrow> terr option \<times> 'w"
  nt_recv :: "'k \<Rightarrow> int option \<Rightarrow> 'w \<Rightarrow> (terr + bytes) \<times> 'w"
  nt_close :: "'k \<Rightarrow> 'w \<Rightarrow> 'w"
  nt_is_ring :: "'k \<Rightarrow> bool"
  nt_recvQueued :: "'k \<Rightarrow> 'w \<Rightarrow> (terr + bytes) \<times> 'w"
  nt_signal :: "'k \<Rightarrow> u32 \<Rightarrow> 'w \<Rightarrow> terr option \<times> 'w"
  nt_now :: "'w \<Rightarrow> int"
  nt_sleep :: "int \<Rightarrow> 'w \<Rightarrow> 'w"

section \<open>Handshake\<close>

definition attachmentTypeID :: "string \<Rightarrow> u8" where
  "attachmentTypeID typ = (if typ = ''nginx'' then 0 else 0)"

definition registrationFrame :: "EngineConfig \<Rightarrow> bytes" where
  "registrationFrame cfg =
     [attachmentTypeID (ec_AttachmentType cfg), word_of_int (ec_WorkerID cfg + 1),
      word_of_int (ec_Workers cfg), word_of_nat (length (ec_FamilyName cfg))] @
     to_bytes (ec_FamilyName cfg)"

definition commFrame :: "EngineConfig \<Rightarrow> bytes" where
  "commFrame cfg = CommData_Encode \<lparr>cd_UID = UniqueID cfg, cd_UserID = 0, cd_GroupID = 0, cd_TargetCore = -1\<rparr>"

definition recvSignalPath :: "('k, 'w) net \<Rightarrow> 'k \<Rightarrow> 'w \<Rightarrow> (terr + string) \<times> 'w" where
  "recvSignalPath net conn w =
     (case nt_recv net conn None w of
        (Inl e, w) \<Rightarrow> (Inl e, w)
      | (Inr payload, w) \<Rightarrow>
          (case payload of
             [] \<Rightarrow> (Inl (ErrOther ''app: empty registration reply''), w)
           | n # rest \<Rightarrow>
               if length payload < 1 + unat n then (Inl (ErrOther ''app: truncated registration reply''), w)
               else (Inr (of_bytes (take (unat n) rest)), w)))"

definition recvAck :: "('k, 'w) net \<Rightarrow> 'k \<Rightarrow> 'w \<Rightarrow> terr option \<times> 'w" where
  "recvAck net conn w =
     (case nt_recv net conn None w of
        (Inl e, w) \<Rightarrow> (Some e, w)
      | (Inr payload, w) \<Rightarrow>
          (if payload = [] then Some (ErrOther ''app: empty comm ack'') else None, w))"

definition register :: "('k, 'w) net \<Rightarrow> 'k \<Rightarrow> EngineConfig \<Rightarrow> 'w \<Rightarrow> (terr + string) \<times> 'w" where
  "register net conn cfg w =
     (case nt_send net conn (registrationFrame cfg) w of
        (Some e, w) \<Rightarrow> (Inl (ErrWrapped e), w)
      | (None, w) \<Rightarrow>
          (case recvSignalPath net conn w of
             (Inl e, w) \<Rightarrow> (Inl (ErrWrapped e), w)
           | (Inr path, w) \<Rightarrow> (Inr path, w)))"

definition sendComm :: "('k, 'w) net \<Rightarrow> 'k \<Rightarrow> EngineConfig \<Rightarrow> 'w \<Rightarrow> terr option \<times> 'w" where
  "sendComm net conn cfg w =
     (case nt_send net conn (commFrame cfg) w of
        (Some e, w) \<Rightarrow> (Some (ErrWrapped e), w)
      | (None, w) \<Rightarrow>
          (case recvAck net conn w of
             (Some e, w) \<Rightarrow> (Some (ErrWrapped e), w)
           | (None, w) \<Rightarrow> (None, w)))"

section \<open>Dialers\<close>

datatype dialer = MemoryDialer | SocketDialer | ShmDialer

definition NewDialer :: "EngineConfig \<Rightarrow> dialer" where
  "NewDialer cfg =
     (if ec_Transport cfg = TransportMemory then MemoryDialer
      else if ec_Transport cfg = TransportSocket then SocketDialer
      else ShmDialer)"

definition memoryDialer_Dial :: "('k, 'w) net \<Rightarrow> EngineConfig \<Rightarrow> 'w \<Rightarrow> (terr + 'k) \<times> 'w" where
  "memoryDialer_Dial net cfg w =
     (case nt_connect net InMemory (ec_RegistrationSocket cfg) w of
        (Inl e, w) \<Rightarrow> (Inl e, w)
      | (Inr sig, w) \<Rightarrow>
        let (r, w) = register net sig cfg w; w = nt_close net sig w in
        case r of
          Inl e \<Rightarrow> (Inl e, w)
        | Inr verdictPath \<Rightarrow>
          (case nt_connect net InMemory verdictPath w of
             (Inl e, w) \<Rightarrow> (Inl e, w)
           | (Inr comm, w) \<Rightarrow>
             (case sendComm net comm cfg w of
                (Some e, w) \<Rightarrow> (Inl e, nt_close net comm w)
              | (None, w) \<Rightarrow> (Inr comm, w))))"

definition socketDialer_Dial :: "('k, 'w) net \<Rightarrow> EngineConfig \<Rightarrow> 'w \<Rightarrow> (terr + 'k) \<times> 'w" where
  "socketDialer_Dial net cfg w =
     (case nt_connect net TCP (ec_RegistrationSocket cfg) w of
        (Inl e, w) \<Rightarrow> (Inl e, w)
      | (Inr sig, w) \<Rightarrow>
        let (r, w) = register net sig cfg w; w = nt_close net sig w in
        case r of
          Inl e \<Rightarrow> (Inl e, w)
        | Inr verdictPath \<Rightarrow>
          (case nt_connect net TCP verdictPath w of
             (Inl e, w) \<Rightarrow> (Inl e, w)
           | (Inr comm, w) \<Rightarrow>
             (case sendComm net comm cfg w of
                (Some e, w) \<Rightarrow> (Inl e, nt_close net comm w)
              | (None, w) \<Rightarrow> (Inr comm, w))))"

definition shmDialer_Dial :: "('k, 'w) net \<Rightarrow> EngineConfig \<Rightarrow> 'w \<Rightarrow> (terr + 'k) \<times> 'w" where
  "shmDialer_Dial net cfg w =
     (case nt_connect net UnixSocket (ec_RegistrationSocket cfg) w of
        (Inl e, w) \<Rightarrow> (Inl e, w)
      | (Inr sig, w) \<Rightarrow>
        let (r, w) = register net sig cfg w; w = nt_close net sig w in
        case r of
          Inl e \<Rightarrow> (Inl e, w)
        | Inr verdictPath \<Rightarrow>
          (case nt_connect net UnixSocket verdictPath w of
             (Inl e, w) \<Rightarrow> (Inl e, w)
           | (Inr comm, w) \<Rightarrow>
             (case sendComm net comm cfg w of
                (Some e, w) \<Rightarrow> (Inl e, nt_close net comm w)
              | (None, w) \<Rightarrow> nt_openRing net (UniqueID cfg) comm w)))"

fun Dial_engine :: "('k, 'w) net \<Rightarrow> dialer \<Rightarrow> EngineConfig \<Rightarrow> 'w \<Rightarrow> (terr + 'k) \<times> 'w" where
  "Dial_engine net MemoryDialer cfg w = memoryDialer_Dial net cfg w"
| "Dial_engine net SocketDialer cfg w = socketDialer_Dial net cfg w"
| "Dial_engine net ShmDialer cfg w = shmDialer_Dial net cfg w"

fun DialKeepAlive :: "('k, 'w) net \<Rightarrow> dialer \<Rightarrow> EngineConfig \<Rightarrow> 'w \<Rightarrow> (terr + 'k) \<times> 'w" where
  "DialKeepAlive net MemoryDialer cfg w = nt_connect net InMemory (ec_KeepAlivePath cfg) w"
| "DialKeepAlive net SocketDialer cfg w = nt_connect net TCP (ec_KeepAlivePath cfg) w"
| "DialKeepAlive net ShmDialer cfg w = nt_connect net UnixSocket (ec_KeepAlivePath cfg) w"

text \<open>On other systems than Linux the shared-memory dialer is a stub.\<close>

definition stubDialer_Dial :: "string \<Rightarrow> 'w \<Rightarrow> (terr + 'k) \<times> 'w" where
  "stubDialer_Dial goos w =
     (Inl (ErrOther (''app: engine shared-memory transport is only available on linux, running on '' @ goos)), w)"

definition stubDialer_DialKeepAlive :: "string \<Rightarrow> 'w \<Rightarrow> (terr + 'k) \<times> 'w" where
  "stubDialer_DialKeepAlive goos w =
     (Inl (ErrOther (''app: engine keep-alive socket is only available on linux, running on '' @ goos)), w)"

section \<open>The frames of the handshake\<close>

lemma registrationFrame_encode:
  "registrationFrame cfg = Registration_Encode \<lparr>reg_AttachmentType = 0,
     reg_WorkerID = word_of_int (ec_WorkerID cfg + 1), reg_WorkersAmount = word_of_int (ec_Workers cfg),
     reg_FamilyName = ec_FamilyName cfg\<rparr>"
  by (simp add: registrationFrame_def attachmentTypeID_def Registration_Encode_def emit_simps
      w_u8_def w_str8_def)

section \<open>Connections left open\<close>

text \<open>
  The same operations with a record of the connections that are open: connecting adds one,
  closing removes it, and opening the rings takes over the comm connection.
\<close>

definition track :: "('k, 'w) net \<Rightarrow> ('k, 'w \<times> 'k list) net" where
  "track net = \<lparr>
     nt_connect = (\<lambda>m a (w, ks). case nt_connect net m a w of
        (Inr k, w) \<Rightarrow> (Inr k, (w, k # ks)) | (Inl e, w) \<Rightarrow> (Inl e, (w, ks))),
     nt_openRing = (\<lambda>n c (w, ks). case nt_openRing net n c w of
        (Inr k, w) \<Rightarrow> (Inr k, (w, k # remove1 c ks)) | (Inl e, w) \<Rightarrow> (Inl e, (w, ks))),
     nt_send = (\<lambda>k b (w, ks). apsnd (\<lambda>w. (w, ks)) (nt_send net k b w)),
     nt_recv = (\<lambda>k d (w, ks). apsnd (\<lambda>w. (w, ks)) (nt_recv net k d w)),
     nt_close = (\<lambda>k (w, ks). (nt_close net k w, remove1 k ks)),
     nt_is_ring = nt_is_ring net,
     nt_recvQueued = (\<lambda>k (w, ks). apsnd (\<lambda>w. (w, ks)) (nt_recvQueued net k w)),
     nt_signal = (\<lambda>k s (w, ks). apsnd (\<lambda>w. (w, ks)) (nt_signal net k s w)),
     nt_now = (\<lambda>(w, ks). nt_now net w),
     nt_sleep = (\<lambda>d (w, ks). (nt_sleep net d w, ks))\<rparr>"

lemma track_recv: "snd (snd (nt_recv (track net) k d s)) = snd s"
  by (cases s) (simp add: track_def)

lemma track_send: "snd (snd (nt_send (track net) k b s)) = snd s"
  by (cases s) (simp add: track_def)

lemma track_register: "snd (snd (register (track net) k cfg s)) = snd s"
proof -
  obtain e s1 where sent: "nt_send (track net) k (registrationFrame cfg) s = (e, s1)"
    by (cases "nt_send (track net) k (registrationFrame cfg) s")
  obtain r s2 where got: "nt_recv (track net) k None s1 = (r, s2)" by (cases "nt_recv (track net) k None s1")
  from track_send [of net k "registrationFrame cfg" s] track_recv [of net k None s1] sent got
  have "snd s1 = snd s" "snd s2 = snd s1" by simp_all
  then show ?thesis
    by (simp add: register_def recvSignalPath_def sent got split: option.splits sum.splits list.splits)
qed

lemma track_sendComm: "snd (snd (sendComm (track net) k cfg s)) = snd s"
proof -
  obtain e s1 where sent: "nt_send (track net) k (commFrame cfg) s = (e, s1)"
    by (cases "nt_send (track net) k (commFrame cfg) s")
  obtain r s2 where got: "nt_recv (track net) k None s1 = (r, s2)" by (cases "nt_recv (track net) k None s1")
  from track_send [of net k "commFrame cfg" s] track_recv [of net k None s1] sent got
  have "snd s1 = snd s" "snd s2 = snd s1" by simp_all
  then show ?thesis
    by (simp add: sendComm_def recvAck_def sent got split: option.splits sum.splits)
qed

lemma track_close: "snd (nt_close (track net) k s) = remove1 k (snd s)"
  by (cases s) (simp add: track_def)

lemma track_connect:
  "nt_connect (track net) m a s = (x, s') \<Longrightarrow>
   snd s' = (case x of Inr k \<Rightarrow> k # snd s | Inl _ \<Rightarrow> snd s)"
  by (cases s) (auto simp: track_def split: prod.splits sum.splits)

lemma track_openRing:
  "nt_openRing (track net) n c s = (x, s') \<Longrightarrow>
   snd s' = (case x of Inr k \<Rightarrow> k # remove1 c (snd s) | Inl _ \<Rightarrow> snd s)"
  by (cases s) (auto simp: track_def split: prod.splits sum.splits)

text \<open>The common shape of the dialers, and what it leaves open.\<close>

definition two_phase ::
  "('k, 'w) net \<Rightarrow> medium \<Rightarrow> EngineConfig \<Rightarrow> ('k \<Rightarrow> 'w \<Rightarrow> (terr + 'k) \<times> 'w) \<Rightarrow> 'w \<Rightarrow> (terr + 'k) \<times> 'w" where
  "two_phase net m cfg finish w =
     (case nt_connect net m (ec_RegistrationSocket cfg) w of
        (Inl e, w) \<Rightarrow> (Inl e, w)
      | (Inr sig, w) \<Rightarrow>
        let (r, w) = register net sig cfg w; w = nt_close net sig w in
        case r of
          Inl e \<Rightarrow> (Inl e, w)
        | Inr verdictPath \<Rightarrow>
          (case nt_connect net m verdictPath w of
             (Inl e, w) \<Rightarrow> (Inl e, w)
           | (Inr comm, w) \<Rightarrow>
             (case sendComm net comm cfg w of
                (Some e, w) \<Rightarrow> (Inl e, nt_close net comm w)
              | (None, w) \<Rightarrow> finish comm w)))"

lemma dialers_two_phase:
  "memoryDialer_Dial net cfg w = two_phase net InMemory cfg (\<lambda>comm w. (Inr comm, w)) w"
  "socketDialer_Dial net cfg w = two_phase net TCP cfg (\<lambda>comm w. (Inr comm, w)) w"
  "shmDialer_Dial net cfg w = two_phase net UnixSocket cfg (nt_openRing net (UniqueID cfg)) w"
  by (simp_all add: memoryDialer_Dial_def socketDialer_Dial_def shmDialer_Dial_def two_phase_def)

lemma two_phase_open:
  assumes "two_phase (track net) m cfg finish s = (x, s')"
  shows "(\<exists>e. x = Inl e \<and> snd s' = snd s) \<or> (\<exists>comm s1. snd s1 = comm # snd s \<and> finish comm s1 = (x, s'))"
proof -
  obtain c s1 where c: "nt_connect (track net) m (ec_RegistrationSocket cfg) s = (c, s1)"
    by (cases "nt_connect (track net) m (ec_RegistrationSocket cfg) s")
  show ?thesis
  proof (cases c)
    case (Inl e)
    with assms c track_connect [OF c] show ?thesis by (auto simp: two_phase_def)
  next
    case (Inr sig)
    obtain r s2 where r: "register (track net) sig cfg s1 = (r, s2)" by (cases "register (track net) sig cfg s1")
    define s3 where "s3 = nt_close (track net) sig s2"
    have s3: "snd s3 = snd s"
      using track_register [of net sig cfg s1] r track_close [of net sig s2] track_connect [OF c]
      by (simp add: s3_def Inr)
    show ?thesis
    proof (cases r)
      case (Inl e)
      with assms c r s3 Inr show ?thesis by (auto simp: two_phase_def s3_def)
    next
      case path: (Inr path)
      obtain d s4 where d: "nt_connect (track net) m path s3 = (d, s4)"
        by (cases "nt_connect (track net) m path s3")
      note dial = assms c r path Inr d [unfolded s3_def] track_connect [OF d]
      show ?thesis
      proof (cases d)
        case (Inl e)
        with dial s3 show ?thesis by (auto simp: two_phase_def s3_def)
      next
        case comm: (Inr comm)
        obtain z s5 where z: "sendComm (track net) comm cfg s4 = (z, s5)" by (cases "sendComm (track net) comm cfg s4")
        with track_sendComm [of net comm cfg s4] have "snd s5 = comm # snd s"
          using track_connect [OF d] comm s3 by simp
        then have "snd (nt_close (track net) comm s5) = snd s" by (simp add: track_close)
        moreover have "case z of Some e \<Rightarrow> x = Inl e \<and> s' = nt_close (track net) comm s5
            | None \<Rightarrow> finish comm s5 = (x, s')"
          using dial z comm by (cases z) (simp_all add: two_phase_def)
        ultimately show ?thesis using \<open>snd s5 = comm # snd s\<close> by (cases z; cases s5) auto
      qed
    qed
  qed
qed

section \<open>A scripted engine\<close>

text \<open>
  A concrete network for the witnesses: every connect succeeds, sends fail as scripted, receives
  hand out the scripted replies and then run into the deadline, and opening the rings fails or
  not as scripted.
\<close>

record script =
  sc_next :: nat
  sc_fails :: "bool list"
  sc_sent :: "(nat \<times> bytes) list"
  sc_replies :: "bytes list"
  sc_queued :: "bytes list"
  sc_rings :: bool
  sc_clock :: int

definition script_send :: "nat \<Rightarrow> bytes \<Rightarrow> script \<Rightarrow> terr option \<times> script" where
  "script_send k b w =
     (case sc_fails w of
        True # fs \<Rightarrow> (Some ErrClosed, w\<lparr>sc_fails := fs\<rparr>)
      | fs \<Rightarrow> (None, w\<lparr>sc_fails := tl fs, sc_sent := sc_sent w @ [(k, b)]\<rparr>))"

definition script_recv :: "nat \<Rightarrow> int option \<Rightarrow> script \<Rightarrow> (terr + bytes) \<times> script" where
  "script_recv k d w =
     (case sc_replies w of
        r # rs \<Rightarrow> (Inr r, w\<lparr>sc_replies := rs\<rparr>)
      | [] \<Rightarrow> (Inl (ErrCtx DeadlineExceeded), case d of None \<Rightarrow> w | Some t \<Rightarrow> w\<lparr>sc_clock := t\<rparr>))"

definition script_net :: "bool \<Rightarrow> (nat, script) net" where
  "script_net ring = \<lparr>
     nt_connect = (\<lambda>m a w. (Inr (sc_next w), w\<lparr>sc_next := Suc (sc_next w)\<rparr>)),
     nt_openRing = (\<lambda>n c w. if sc_rings w then (Inr (sc_next w), w\<lparr>sc_next := Suc (sc_next w)\<rparr>)
        else (Inl (ErrOther ''linux: open write queue''), w)),
     nt_send = script_send,
     nt_recv = script_recv,
     nt_close = (\<lambda>k w. w),
     nt_is_ring = (\<lambda>k. ring),
     nt_recvQueued = (\<lambda>k w. case sc_queued w of [] \<Rightarrow> (Inl (ErrRing RingEmpty), w)
        | q # qs \<Rightarrow> (Inr q, w\<lparr>sc_queued := qs\<rparr>)),
     nt_signal = (\<lambda>k sid w. (None, w)),
     nt_now = sc_clock,
     nt_sleep = (\<lambda>d w. w\<lparr>sc_clock := sc_clock w + d\<rparr>)\<rparr>"

definition script0 :: script where
  "script0 = \<lparr>sc_next = 0, sc_fails = [], sc_sent = [], sc_replies = [[1, 47], [0]], sc_queued = [],
     sc_rings = False, sc_clock = 0\<rparr>"

section \<open>Properties\<close>

text \<open>
  the engine reads back from the handshake frames what the attachment means to send: from the
  registration frame the type 0, the worker number plus one and the number of workers modulo
  256, and the family name when it is shorter than 256 bytes; from the comm frame the unique
  id, zero user and group ids and the core -1 when the id is shorter than 256 bytes.
\<close>

theorem handshake_frames_understood:
  "(length (ec_FamilyName cfg) < 256 \<longrightarrow>
      ParseRegistration (registrationFrame cfg) = Inr \<lparr>reg_AttachmentType = 0,
        reg_WorkerID = word_of_int (ec_WorkerID cfg + 1), reg_WorkersAmount = word_of_int (ec_Workers cfg),
        reg_FamilyName = ec_FamilyName cfg\<rparr>) \<and>
   (length (UniqueID cfg) < 256 \<longrightarrow>
      ParseCommData (commFrame cfg) = Inr \<lparr>cd_UID = UniqueID cfg, cd_UserID = 0, cd_GroupID = 0, cd_TargetCore = -1\<rparr>)"
  unfolding registrationFrame_encode commFrame_def
  by (simp add: registration.parse_encode comm_data.parse_encode Registration_wf_def CommData_wf_def str8_ok_def)

theorem handshake_frames_understood_witness:
  "ParseRegistration (registrationFrame (EngineConfig_zero\<lparr>ec_FamilyName := ''edge'', ec_Workers := 4\<rparr>)) =
     Inr \<lparr>reg_AttachmentType = 0, reg_WorkerID = 1, reg_WorkersAmount = 4, reg_FamilyName = ''edge''\<rparr>"
  using handshake_frames_understood [of "EngineConfig_zero\<lparr>ec_FamilyName := ''edge'', ec_Workers := 4\<rparr>"]
  by (simp add: EngineConfig_zero_def)

text \<open>
  a dial that succeeds leaves exactly the returned connection open, and a dial that fails
  leaves nothing open, except that the shared-memory dialer leaves the comm connection open
  when the handshake succeeds and the rings cannot be opened.
\<close>

theorem dial_leaves_open:
  assumes "Dial_engine (track net) d cfg (w, ks) = (x, (w', ks'))"
  shows "case x of Inr k \<Rightarrow> ks' = k # ks
    | Inl _ \<Rightarrow> ks' = ks \<or> (d = ShmDialer \<and> (\<exists>comm. ks' = comm # ks))"
proof (cases d)
  case MemoryDialer
  with assms two_phase_open [of net InMemory cfg "\<lambda>comm w. (Inr comm, w)" "(w, ks)" x "(w', ks')"]
  show ?thesis by (auto simp: dialers_two_phase)
next
  case SocketDialer
  with assms two_phase_open [of net TCP cfg "\<lambda>comm w. (Inr comm, w)" "(w, ks)" x "(w', ks')"]
  show ?thesis by (auto simp: dialers_two_phase)
next
  case ShmDialer
  with assms two_phase_open [of net UnixSocket cfg "nt_openRing (track net) (UniqueID cfg)" "(w, ks)" x "(w', ks')"]
  show ?thesis by (auto simp: dialers_two_phase dest!: track_openRing split: sum.splits)
qed

theorem dial_leaves_open_witness:
  "\<exists>e w comm. Dial_engine (track (script_net True)) ShmDialer EngineConfig_zero (script0, []) = (Inl e, (w, [comm]))"
proof -
  obtain x w ks where dial: "Dial_engine (track (script_net True)) ShmDialer EngineConfig_zero (script0, []) = (x, (w, ks))"
    using prod_cases3 by blast
  have "is_err x \<and> ks \<noteq> []"
    using dial
    by (auto simp: shmDialer_Dial_def track_def script_net_def script0_def register_def recvSignalPath_def
        sendComm_def recvAck_def script_send_def script_recv_def)
  with dial_leaves_open [OF dial] dial show ?thesis by (auto split: sum.splits)
qed

end
