(* ===== verification/App_Conn.thy ===== *)
theory App_Conn
  imports Handshake
begin

text \<open>
  The connection of internal/app/conn.go and its keep-alive loop, keepalive.go: sending with one
  redial, the transaction of a request, sessions, and the flow lock. A function that does not
  return yields \<open>None\<close>: it waits for a lock that is held, or the program stops because a lock
  is released that is not held.
\<close>

section \<open>Data\<close>

record RequestData =
  rq_Start :: RequestStart
  rq_Headers :: "Header list"
  rq_Body :: bytes

definition HeadersList :: "RequestData \<Rightarrow> Header list" where
  "HeadersList r = rq_Headers r"

record 'k Conn =
  cn_cfg :: EngineConfig
  cn_dialer :: dialer
  cn_addr :: string
  cn_conn :: 'k
  cn_closed :: bool
  cn_kaConn :: "'k option"
  cn_sessions :: SessionAllocator
  cn_flowSerial :: bool
  cn_flowHeld :: bool
  cn_stopped :: bool

section \<open>Reconnect backoff\<close>

fun backoff_loop :: "nat \<Rightarrow> int \<Rightarrow> int \<Rightarrow> int" where
  "backoff_loop 0 mx d = (if d > mx then mx else d)"
| "backoff_loop (Suc n) mx d =
     (if d < mx then
        let d = go_int (d * 2) in if d \<le> 0 then mx else backoff_loop n mx d
      else if d > mx then mx else d)"

definition backoffDelay :: "int \<Rightarrow> int \<Rightarrow> int \<Rightarrow> int" where
  "backoffDelay mn mx attempt = backoff_loop (nat attempt) mx mn"

section \<open>Connection\<close>

definition newConn :: "('k, 'w) net \<Rightarrow> EngineConfig \<Rightarrow> dialer \<Rightarrow> string \<Rightarrow> 'k \<Rightarrow> 'k Conn" where
  "newConn net cfg d addr conn = \<lparr>cn_cfg = cfg, cn_dialer = d, cn_addr = addr, cn_conn = conn,
     cn_closed = False, cn_kaConn = None, cn_sessions = NewSessionAllocator,
     cn_flowSerial = nt_is_ring net conn, cn_flowHeld = False, cn_stopped = False\<rparr>"

definition AppConn_Close :: "('k, 'w) net \<Rightarrow> 'k Conn \<Rightarrow> 'w \<Rightarrow> 'k Conn \<times> 'w" where
  "AppConn_Close net c w =
     (let c = c\<lparr>cn_stopped := True\<rparr> in
      if cn_closed c then (c, w)
      else
        let w = nt_close net (cn_conn c) w;
            w = (case cn_kaConn c of Some ka \<Rightarrow> nt_close net ka w | None \<Rightarrow> w)
        in (c\<lparr>cn_closed := True, cn_kaConn := None\<rparr>, w))"

definition reconnect :: "('k, 'w) net \<Rightarrow> 'k Conn \<Rightarrow> 'w \<Rightarrow> (terr + 'k) \<times> 'k Conn \<times> 'w" where
  "reconnect net c w =
     (case Dial_engine net (cn_dialer c) (cn_cfg c) w of
        (Inl e, w) \<Rightarrow> (Inl e, c, w)
      | (Inr nc, w) \<Rightarrow>
          if cn_closed c then (Inl ErrClosed, c, nt_close net nc w)
          else (Inr nc, c\<lparr>cn_conn := nc\<rparr>, nt_close net (cn_conn c) w))"

definition AppConn_send :: "('k, 'w) net \<Rightarrow> bytes \<Rightarrow> 'k Conn \<Rightarrow> 'w \<Rightarrow> terr option \<times> 'k Conn \<times> 'w" where
  "AppConn_send net payload c w =
     (if cn_closed c then (Some ErrClosed, c, w)
      else case nt_send net (cn_conn c) payload w of
        (None, w) \<Rightarrow> (None, c, w)
      | (Some _, w) \<Rightarrow>
          (case reconnect net c w of
             (Inl e, c, w) \<Rightarrow> (Some e, c, w)
           | (Inr nc, c, w) \<Rightarrow> (case nt_send net nc payload w of (e, w) \<Rightarrow> (e, c, w))))"

definition AppConn_recv :: "('k, 'w) net \<Rightarrow> int option \<Rightarrow> 'k Conn \<Rightarrow> 'w \<Rightarrow> (terr + bytes) \<times> 'w" where
  "AppConn_recv net deadline c w =
     (if cn_closed c then (Inl ErrClosed, w) else nt_recv net (cn_conn c) deadline w)"

definition AppConn_recvQueued :: "('k, 'w) net \<Rightarrow> 'k Conn \<Rightarrow> 'w \<Rightarrow> (terr + bytes) \<times> 'w" where
  "AppConn_recvQueued net c w =
     (if cn_closed c then (Inl ErrClosed, w)
      else if \<not> nt_is_ring net (cn_conn c) then (Inl ErrClosed, w)
      else nt_recvQueued net (cn_conn c) w)"

definition AppConn_signal :: "('k, 'w) net \<Rightarrow> u32 \<Rightarrow> 'k Conn \<Rightarrow> 'w \<Rightarrow> terr option \<times> 'w" where
  "AppConn_signal net sid c w =
     (if cn_closed c then (Some ErrClosed, w)
      else if nt_is_ring net (cn_conn c) then nt_signal net (cn_conn c) sid w
      else (None, w))"

definition lockFlow :: "'k Conn \<Rightarrow> 'k Conn option" where
  "lockFlow c =
     (if cn_flowSerial c then (if cn_flowHeld c then None else Some (c\<lparr>cn_flowHeld := True\<rparr>)) else Some c)"

definition unlockFlow :: "'k Conn \<Rightarrow> 'k Conn option" where
  "unlockFlow c =
     (if cn_flowSerial c then (if cn_flowHeld c then Some (c\<lparr>cn_flowHeld := False\<rparr>) else None) else Some c)"

definition EndRequest :: "u32 \<Rightarrow> 'k Conn \<Rightarrow> 'k Conn option" where
  "EndRequest sid c = unlockFlow (c\<lparr>cn_sessions := Reclaim sid (cn_sessions c)\<rparr>)"

text \<open>The frames of a request, \<open>sid\<close> being its session.\<close>

definition request_frames :: "u32 \<Rightarrow> RequestData \<Rightarrow> bytes list" where
  "request_frames sid req =
     [RequestStart_Encode ((rq_Start req)\<lparr>rs_SessionID := sid\<rparr>)] @
     (if rq_Headers req \<noteq> [] then
        [HeaderBulk_Encode \<lparr>hb_DataType = DataTypeRequestHeader, hb_SessionID = sid, hb_IsLastPart = True,
           hb_BulkPartIndex = 0, hb_Headers = rq_Headers req\<rparr>] else []) @
     (if rq_Body req \<noteq> [] then
        [BodyChunk_Encode \<lparr>bc_DataType = DataTypeRequestBody, bc_SessionID = sid, bc_IsLastChunk = True,
           bc_PartCount = 0, bc_Data = rq_Body req\<rparr>] else []) @
     [RequestEnd_Encode \<lparr>re_DataType = DataTypeRequestEnd, re_SessionID = sid\<rparr>]"

fun send_frames :: "('k, 'w) net \<Rightarrow> bytes list \<Rightarrow> 'k Conn \<Rightarrow> 'w \<Rightarrow> terr option \<times> 'k Conn \<times> 'w" where
  "send_frames net [] c w = (None, c, w)"
| "send_frames net (f # fs) c w =
     (case AppConn_send net f c w of
        (Some e, c, w) \<Rightarrow> (Some e, c, w)
      | (None, c, w) \<Rightarrow> send_frames net fs c w)"

definition SendRequest ::
  "('k, 'w) net \<Rightarrow> RequestData \<Rightarrow> 'k Conn \<Rightarrow> 'w \<Rightarrow> ((terr + u32) \<times> 'k Conn \<times> 'w) option" where
  "SendRequest net req c w =
     Option.bind (lockFlow c) (\<lambda>c.
       let (sid, a) = Allocate (cn_sessions c); c = c\<lparr>cn_sessions := a\<rparr> in
       case send_frames net (request_frames sid req) c w of
         (Some e, c, w) \<Rightarrow> Option.bind (EndRequest sid c) (\<lambda>c. Some (Inl e, c, w))
       | (None, c, w) \<Rightarrow>
           (case AppConn_signal net sid c w of
              (Some e, w) \<Rightarrow> Option.bind (EndRequest sid c) (\<lambda>c. Some (Inl e, c, w))
            | (None, w) \<Rightarrow> Some (Inr sid, c, w)))"

definition SendResponse ::
  "('k, 'w) net \<Rightarrow> int \<Rightarrow> int \<Rightarrow> 'k Conn \<Rightarrow> 'w \<Rightarrow> ((terr + u32) \<times> 'k Conn \<times> 'w) option" where
  "SendResponse net code contentLength c w =
     Option.bind (lockFlow c) (\<lambda>c.
       let (sid, a) = Allocate (cn_sessions c); c = c\<lparr>cn_sessions := a\<rparr> in
       case AppConn_send net (ResponseCode_Encode \<lparr>rc_SessionID = sid, rc_Code = word_of_int code\<rparr>) c w of
         (Some e, c, w) \<Rightarrow> Option.bind (EndRequest sid c) (\<lambda>c. Some (Inl e, c, w))
       | (None, c, w) \<Rightarrow>
           (case AppConn_send net (ContentLength_Encode \<lparr>cl_SessionID = sid, cl_Length = word_of_int contentLength\<rparr>) c w of
              (Some e, c, w) \<Rightarrow> Option.bind (EndRequest sid c) (\<lambda>c. Some (Inl e, c, w))
            | (None, c, w) \<Rightarrow> Some (Inr sid, c, w)))"

definition SendResponseBody ::
  "('k, 'w) net \<Rightarrow> u32 \<Rightarrow> bytes \<Rightarrow> bool \<Rightarrow> 'k Conn \<Rightarrow> 'w \<Rightarrow> terr option \<times> 'k Conn \<times> 'w" where
  "SendResponseBody net sid chunk isLast c w =
     AppConn_send net (BodyChunk_Encode \<lparr>bc_DataType = DataTypeResponseBody, bc_SessionID = sid,
       bc_IsLastChunk = isLast, bc_PartCount = 0, bc_Data = chunk\<rparr>) c w"

partial_function (option) AwaitVerdict ::
  "('k, 'w) net \<Rightarrow> u32 \<Rightarrow> 'k Conn \<Rightarrow> 'w \<Rightarrow> ((terr + Verdict) \<times> 'w) option" where
  "AwaitVerdict net sid c w =
     (case AppConn_recv net None c w of
        (Inl e, w) \<Rightarrow> Some (Inl e, w)
      | (Inr payload, w) \<Rightarrow>
          (case ParseVerdict payload of
             Inl _ \<Rightarrow> AwaitVerdict net sid c w
           | Inr v \<Rightarrow> if vd_SessionID v \<noteq> sid then AwaitVerdict net sid c w else Some (Inr v, w)))"

section \<open>Keep-alive\<close>

definition keepAliveSend :: "('k, 'w) net \<Rightarrow> 'k Conn \<Rightarrow> 'w \<Rightarrow> terr option \<times> 'k Conn \<times> 'w" where
  "keepAliveSend net c w =
     (case (case cn_kaConn c of
              Some ka \<Rightarrow> (Inr ka, c, w)
            | None \<Rightarrow>
                (case DialKeepAlive net (cn_dialer c) (cn_cfg c) w of
                   (Inl e, w) \<Rightarrow> (Inl e, c, w)
                 | (Inr nc, w) \<Rightarrow> (Inr nc, c\<lparr>cn_kaConn := Some nc\<rparr>, w))) of
        (Inl e, c, w) \<Rightarrow> (Some e, c, w)
      | (Inr ka, c, w) \<Rightarrow>
          (case nt_send net ka (KeepAlive_Encode \<lparr>ka_WorkerID = word_of_int (ec_WorkerID (cn_cfg c)),
               ka_FamilyName = ec_FamilyName (cn_cfg c)\<rparr>) w of
             (None, w) \<Rightarrow> (None, c, w)
           | (Some e, w) \<Rightarrow> (Some e, c\<lparr>cn_kaConn := None\<rparr>, nt_close net ka w)))"

text \<open>
  The loop as a machine: it waits for a tick or, after a failed send, for the backoff delay; a
  stop ends it in either state.
\<close>

datatype ka_event = KaStop | KaTick | KaDelayOver

record ka_state =
  kl_attempt :: int
  kl_delay :: "int option"
  kl_done :: bool

definition ka_interval :: "EngineConfig \<Rightarrow> int" where
  "ka_interval cfg = (let i = ms (ec_KeepAliveIntervalMs cfg) in if i \<le> 0 then 300000000000 else i)"

definition ka_start :: ka_state where
  "ka_start = \<lparr>kl_attempt = 0, kl_delay = None, kl_done = False\<rparr>"

fun keepAliveLoop_step ::
  "('k, 'w) net \<Rightarrow> ka_event \<Rightarrow> ka_state \<times> 'k Conn \<times> 'w \<Rightarrow> ka_state \<times> 'k Conn \<times> 'w" where
  "keepAliveLoop_step net ev (s, c, w) =
     (if kl_done s then (s, c, w)
      else case ev of
        KaStop \<Rightarrow> (s\<lparr>kl_done := True\<rparr>, c, w)
      | KaDelayOver \<Rightarrow> (s\<lparr>kl_delay := None\<rparr>, c, w)
      | KaTick \<Rightarrow>
          if kl_delay s \<noteq> None then (s, c, w)
          else case keepAliveSend net c w of
            (None, c, w) \<Rightarrow> (s\<lparr>kl_attempt := 0\<rparr>, c, w)
          | (Some e, c, w) \<Rightarrow>
              let attempt = kl_attempt s + 1 in
              (s\<lparr>kl_attempt := attempt,
                 kl_delay := Some (backoffDelay (ms (ec_ReconnectBackoffMinMs (cn_cfg c)))
                   (ms (ec_ReconnectBackoffMaxMs (cn_cfg c))) attempt)\<rparr>, c, w))"

section \<open>Backoff\<close>

lemma backoff_loop_eq:
  "0 < d \<Longrightarrow> mx < 2 ^ 63 \<Longrightarrow> backoff_loop n mx d = min mx (d * 2 ^ n)"
proof (induction n arbitrary: d)
  case (Suc n)
  show ?case
  proof (cases "d < mx")
    case False
    have "d * 1 \<le> d * 2 ^ Suc n" using Suc.prems(1) by (intro mult_left_mono one_le_power) simp_all
    with False show ?thesis by auto
  next
    case True
    show ?thesis
    proof (cases "d * 2 < 2 ^ 63")
      case small: True
      then have "go_int (d * 2) = d * 2" using Suc.prems(1) by (intro go_int_id) simp_all
      with True Suc.IH [of "d * 2"] Suc.prems show ?thesis by (simp add: mult.assoc)
    next
      case False
      then have "go_int (d * 2) = d * 2 - 2 ^ 64" using True Suc.prems(2) by (intro go_int_overflow) simp_all
      then have "go_int (d * 2) \<le> 0" using True Suc.prems(2) by simp
      moreover have le: "d * 2 * 1 \<le> d * 2 * 2 ^ n"
        using Suc.prems(1) by (intro mult_left_mono one_le_power) simp_all
      have "d * 2 * 2 ^ n = d * 2 ^ Suc n" by simp
      with le False Suc.prems(2) have "mx \<le> d * 2 ^ Suc n" by linarith
      ultimately show ?thesis using True by (simp add: min_def)
    qed
  qed
qed auto

section \<open>What a send leaves alone\<close>

text \<open>Sending may replace the transport connection, and nothing else of the state.\<close>

definition same_but_conn :: "'k Conn \<Rightarrow> 'k Conn \<Rightarrow> bool" where
  "same_but_conn c c' \<longleftrightarrow> (\<exists>k. c' = c\<lparr>cn_conn := k\<rparr>)"

lemma same_but_conn_refl [simp]: "same_but_conn c c"
  by (auto simp: same_but_conn_def intro!: exI [of _ "cn_conn c"])

lemma same_but_conn_update [simp]: "same_but_conn c (c\<lparr>cn_conn := k\<rparr>)"
  by (auto simp: same_but_conn_def)

lemma same_but_conn_trans: "same_but_conn c d \<Longrightarrow> same_but_conn d e \<Longrightarrow> same_but_conn c e"
  by (auto simp: same_but_conn_def)

lemma AppConn_send_same: "AppConn_send net p c w = (e, c', w') \<Longrightarrow> same_but_conn c c'"
  by (auto simp: AppConn_send_def reconnect_def split: if_splits prod.splits option.splits sum.splits)

lemma send_frames_same: "send_frames net fs c w = (e, c', w') \<Longrightarrow> same_but_conn c c'"
proof (induction fs arbitrary: c w)
  case (Cons f fs)
  obtain x c1 w1 where s: "AppConn_send net f c w = (x, c1, w1)" using prod_cases3 by blast
  with Cons.prems Cons.IH [of c1 w1] AppConn_send_same [OF s] show ?case
    by (cases x) (auto intro: same_but_conn_trans)
qed simp

lemma same_but_conn_fields:
  "same_but_conn c c' \<Longrightarrow> cn_sessions c' = cn_sessions c \<and> cn_flowHeld c' = cn_flowHeld c \<and>
     cn_flowSerial c' = cn_flowSerial c \<and> cn_closed c' = cn_closed c"
  by (auto simp: same_but_conn_def)

lemma lockFlow_free:
  "cn_flowHeld c = False \<Longrightarrow> lockFlow c = Some (c\<lparr>cn_flowHeld := cn_flowSerial c\<rparr>)"
  by (cases c) (auto simp: lockFlow_def)

text \<open>The state in which a session of \<open>c\<close> is open on a connection \<open>c'\<close>.\<close>

definition session_open :: "'k Conn \<Rightarrow> u32 \<Rightarrow> 'k Conn \<Rightarrow> bool" where
  "session_open c sid c' \<longleftrightarrow> sid = fst (Allocate (cn_sessions c)) \<and> cn_sessions c' = snd (Allocate (cn_sessions c)) \<and>
     cn_flowSerial c' = cn_flowSerial c \<and> cn_flowHeld c' = cn_flowSerial c \<and> cn_closed c' = cn_closed c"

definition session_over :: "'k Conn \<Rightarrow> 'k Conn \<Rightarrow> bool" where
  "session_over c c' \<longleftrightarrow> cn_sessions c' = cn_sessions c \<and> cn_flowSerial c' = cn_flowSerial c \<and>
     \<not> cn_flowHeld c' \<and> cn_closed c' = cn_closed c"

lemma EndRequest_over: "session_open c sid c' \<Longrightarrow> \<exists>d. EndRequest sid c' = Some d \<and> session_over c d"
  using Reclaim_Allocate [of "cn_sessions c"]
  by (auto simp: session_open_def session_over_def EndRequest_def unlockFlow_def)

lemma session_open_same: "session_open c sid c1 \<Longrightarrow> same_but_conn c1 c2 \<Longrightarrow> session_open c sid c2"
  by (auto simp: session_open_def dest: same_but_conn_fields)

lemma session_opened:
  "session_open c (fst (Allocate (cn_sessions c)))
     (c\<lparr>cn_flowHeld := cn_flowSerial c, cn_sessions := snd (Allocate (cn_sessions c))\<rparr>)"
  by (simp add: session_open_def)

lemma SendRequest_balanced:
  assumes "\<not> cn_flowHeld c"
  shows "\<exists>r c' w'. SendRequest net req c w = Some (r, c', w') \<and>
    (case r of Inr sid \<Rightarrow> session_open c sid c' | Inl _ \<Rightarrow> session_over c c')"
proof -
  let ?sid = "fst (Allocate (cn_sessions c))"
  let ?c = "c\<lparr>cn_flowHeld := cn_flowSerial c, cn_sessions := snd (Allocate (cn_sessions c))\<rparr>"
  obtain e c1 w1 where s: "send_frames net (request_frames ?sid req) ?c w = (e, c1, w1)"
    using prod_cases3 by blast
  have o1: "session_open c ?sid c1" using session_open_same [OF session_opened send_frames_same [OF s]] .
  obtain x w2 where g: "AppConn_signal net ?sid c1 w1 = (x, w2)" by (cases "AppConn_signal net ?sid c1 w1")
  from EndRequest_over [OF o1] obtain d where d: "EndRequest ?sid c1 = Some d" "session_over c d" by blast
  show ?thesis
    using assms o1 d s g
    by (cases e; cases x) (simp_all add: SendRequest_def lockFlow_free split_beta)
qed

lemma SendResponse_balanced:
  assumes "\<not> cn_flowHeld c"
  shows "\<exists>r c' w'. SendResponse net code len c w = Some (r, c', w') \<and>
    (case r of Inr sid \<Rightarrow> session_open c sid c' | Inl _ \<Rightarrow> session_over c c')"
proof -
  let ?sid = "fst (Allocate (cn_sessions c))"
  let ?c = "c\<lparr>cn_flowHeld := cn_flowSerial c, cn_sessions := snd (Allocate (cn_sessions c))\<rparr>"
  obtain e c1 w1 where s: "AppConn_send net (ResponseCode_Encode \<lparr>rc_SessionID = ?sid, rc_Code = word_of_int code\<rparr>) ?c w = (e, c1, w1)"
    using prod_cases3 by blast
  have o1: "session_open c ?sid c1" using session_open_same [OF session_opened AppConn_send_same [OF s]] .
  obtain x c2 w2 where t: "AppConn_send net (ContentLength_Encode \<lparr>cl_SessionID = ?sid, cl_Length = word_of_int len\<rparr>) c1 w1 = (x, c2, w2)"
    using prod_cases3 by blast
  have o2: "session_open c ?sid c2" using session_open_same [OF o1 AppConn_send_same [OF t]] .
  from EndRequest_over [OF o1] obtain d where d: "EndRequest ?sid c1 = Some d" "session_over c d" by blast
  from EndRequest_over [OF o2] obtain d' where d': "EndRequest ?sid c2 = Some d'" "session_over c d'" by blast
  show ?thesis
    using assms o2 d d' s t
    by (cases e; cases x) (simp_all add: SendResponse_def lockFlow_free split_beta)
qed

section \<open>What the engine receives\<close>

text \<open>The network with a record of what was sent on each connection.\<close>

definition wiretap :: "('k, 'w) net \<Rightarrow> ('k, 'w \<times> ('k \<times> bytes) list) net" where
  "wiretap net = \<lparr>
     nt_connect = (\<lambda>m a (w, l). apsnd (\<lambda>w. (w, l)) (nt_connect net m a w)),
     nt_openRing = (\<lambda>n c (w, l). apsnd (\<lambda>w. (w, l)) (nt_openRing net n c w)),
     nt_send = (\<lambda>k b (w, l). case nt_send net k b w of
        (None, w) \<Rightarrow> (None, (w, l @ [(k, b)])) | (Some e, w) \<Rightarrow> (Some e, (w, l))),
     nt_recv = (\<lambda>k d (w, l). apsnd (\<lambda>w. (w, l)) (nt_recv net k d w)),
     nt_close = (\<lambda>k (w, l). (nt_close net k w, l)),
     nt_is_ring = nt_is_ring net,
     nt_recvQueued = (\<lambda>k (w, l). apsnd (\<lambda>w. (w, l)) (nt_recvQueued net k w)),
     nt_signal = (\<lambda>k s (w, l). apsnd (\<lambda>w. (w, l)) (nt_signal net k s w)),
     nt_now = (\<lambda>(w, l). nt_now net w),
     nt_sleep = (\<lambda>d (w, l). (nt_sleep net d w, l))\<rparr>"

definition accepts_all :: "('k, 'w) net \<Rightarrow> 'k \<Rightarrow> bool" where
  "accepts_all net k \<longleftrightarrow> (\<forall>b w. fst (nt_send net k b w) = None \<and> (\<forall>sid. fst (nt_signal net k sid w) = None))"

lemma wiretap_send:
  "accepts_all net k \<Longrightarrow> \<exists>w'. nt_send (wiretap net) k b (w, l) = (None, (w', l @ [(k, b)]))"
  using prod.collapse [of "nt_send net k b w"] by (auto simp: wiretap_def accepts_all_def split: prod.splits option.splits)

lemma wiretap_frames:
  assumes "accepts_all net (cn_conn c)" and "\<not> cn_closed c"
  shows "\<exists>w'. send_frames (wiretap net) fs c (w, l) = (None, c, (w', l @ map (Pair (cn_conn c)) fs))"
proof (induction fs arbitrary: w l)
  case (Cons f fs)
  from wiretap_send [OF assms(1), of f w l] obtain w1
    where "nt_send (wiretap net) (cn_conn c) f (w, l) = (None, (w1, l @ [(cn_conn c, f)]))" by blast
  with assms(2) Cons.IH [of w1 "l @ [(cn_conn c, f)]"] show ?case by (simp add: AppConn_send_def)
qed simp

lemma wiretap_signal:
  assumes "accepts_all net (cn_conn c)" and "\<not> cn_closed c"
  shows "\<exists>w'. AppConn_signal (wiretap net) sid c (w, l) = (None, (w', l))"
proof -
  obtain x w1 where "nt_signal net (cn_conn c) sid w = (x, w1)" by (cases "nt_signal net (cn_conn c) sid w")
  moreover have "fst (nt_signal net (cn_conn c) sid w) = None" using assms(1) by (simp add: accepts_all_def)
  ultimately show ?thesis using assms(2) by (auto simp: AppConn_signal_def wiretap_def)
qed

text \<open>A request whose strings fit their length prefixes.\<close>

definition request_fits :: "RequestData \<Rightarrow> bool" where
  "request_fits req \<longleftrightarrow> RequestStart_wf (rq_Start req) \<and> list_all Header_wf (rq_Headers req)"

text \<open>What an engine makes of the frames of one transaction.\<close>

definition read_request :: "bytes list \<Rightarrow> (u32 \<times> RequestData) option" where
  "read_request fs =
     (case fs of
        [] \<Rightarrow> None
      | f # rest \<Rightarrow>
        (case ParseRequestStart f of
           Inl _ \<Rightarrow> None
         | Inr s \<Rightarrow>
           let sid = rs_SessionID s;
               hs = [h. f \<leftarrow> rest, h \<leftarrow> (case ParseHeaderBulk f of Inr b \<Rightarrow> if hb_SessionID b = sid then hb_Headers b else []
                      | Inl _ \<Rightarrow> [])];
               body = [x. f \<leftarrow> rest, x \<leftarrow> (case ParseBodyChunk f of Inr b \<Rightarrow> if bc_SessionID b = sid then bc_Data b else []
                      | Inl _ \<Rightarrow> [])]
           in if ParseRequestEnd (last fs) = Inr \<lparr>re_DataType = DataTypeRequestEnd, re_SessionID = sid\<rparr>
              then Some (sid, \<lparr>rq_Start = s, rq_Headers = hs, rq_Body = body\<rparr>) else None))"

lemma frame_type_of:
  assumes "parse b = Inr m" and "\<And>m. parse b = Inr m \<Longrightarrow> frame_type b = Some t"
  shows "frame_type b = Some t"
  using assms by blast

lemma own_frames:
  assumes "request_fits req" and "s = (rq_Start req)\<lparr>rs_SessionID := sid\<rparr>"
    and "h = \<lparr>hb_DataType = DataTypeRequestHeader, hb_SessionID = sid, hb_IsLastPart = True,
      hb_BulkPartIndex = 0, hb_Headers = rq_Headers req\<rparr>"
    and "b = \<lparr>bc_DataType = DataTypeRequestBody, bc_SessionID = sid, bc_IsLastChunk = True,
      bc_PartCount = 0, bc_Data = rq_Body req\<rparr>"
    and "e = \<lparr>re_DataType = DataTypeRequestEnd, re_SessionID = sid\<rparr>"
  shows "ParseRequestStart (RequestStart_Encode s) = Inr s"
    and "ParseHeaderBulk (HeaderBulk_Encode h) = Inr h"
    and "ParseBodyChunk (BodyChunk_Encode b) = Inr b"
    and "ParseRequestEnd (RequestEnd_Encode e) = Inr e"
proof -
  have "RequestStart_wf s" using assms(1,2) by (simp add: request_fits_def RequestStart_wf_def)
  then show "ParseRequestStart (RequestStart_Encode s) = Inr s" by (rule request_start.parse_encode)
  have "HeaderBulk_wf h" using assms(1,3) by (simp add: request_fits_def HeaderBulk_wf_def)
  then show "ParseHeaderBulk (HeaderBulk_Encode h) = Inr h" by (rule header_bulk.parse_encode)
  have "BodyChunk_wf b" using assms(4) by (simp add: BodyChunk_wf_def)
  then show "ParseBodyChunk (BodyChunk_Encode b) = Inr b" by (rule body_chunk.parse_encode)
  have "RequestEnd_wf e" using assms(5) by (simp add: RequestEnd_wf_def)
  then show "ParseRequestEnd (RequestEnd_Encode e) = Inr e" by (rule request_end.parse_encode)
qed

lemma other_frames:
  "ParseBodyChunk b = Inr m \<Longrightarrow> is_err (ParseHeaderBulk b)"
  "ParseRequestEnd b = Inr e \<Longrightarrow> is_err (ParseHeaderBulk b) \<and> is_err (ParseBodyChunk b)"
  "ParseHeaderBulk b = Inr h \<Longrightarrow> is_err (ParseBodyChunk b)"
  by (cases "ParseHeaderBulk b"; cases "ParseBodyChunk b"; auto dest!: accepted_types simp: go_consts)+

lemma not_a_start:
  "ParseBodyChunk b = Inr m \<Longrightarrow> is_err (ParseRequestStart b)"
  "ParseRequestEnd b = Inr e \<Longrightarrow> is_err (ParseRequestStart b)"
  "ParseHeaderBulk b = Inr h \<Longrightarrow> is_err (ParseRequestStart b)"
  by (cases "ParseRequestStart b"; auto dest!: accepted_types simp: go_consts)+

lemma is_err_Inl: "is_err x \<Longrightarrow> \<exists>e. x = Inl e"
  by (cases x) auto

lemma read_request_frames:
  assumes "request_fits req"
  shows "read_request (request_frames sid req) =
    Some (sid, req\<lparr>rq_Start := (rq_Start req)\<lparr>rs_SessionID := sid\<rparr>\<rparr>)"
proof -
  define s where "s = (rq_Start req)\<lparr>rs_SessionID := sid\<rparr>"
  define h where "h = \<lparr>hb_DataType = DataTypeRequestHeader, hb_SessionID = sid, hb_IsLastPart = True,
    hb_BulkPartIndex = 0, hb_Headers = rq_Headers req\<rparr>"
  define b where "b = \<lparr>bc_DataType = DataTypeRequestBody, bc_SessionID = sid, bc_IsLastChunk = True,
    bc_PartCount = 0, bc_Data = rq_Body req\<rparr>"
  define e where "e = \<lparr>re_DataType = DataTypeRequestEnd, re_SessionID = sid\<rparr>"
  note own = own_frames [OF assms s_def h_def b_def e_def]
  from other_frames(1) [OF own(3)] other_frames(2) [OF own(4)] other_frames(3) [OF own(2)]
  obtain x1 x2 x3 x4 where err: "ParseHeaderBulk (BodyChunk_Encode b) = Inl x1"
      "ParseHeaderBulk (RequestEnd_Encode e) = Inl x2" "ParseBodyChunk (RequestEnd_Encode e) = Inl x3"
      "ParseBodyChunk (HeaderBulk_Encode h) = Inl x4"
    using is_err_Inl by metis
  have fields: "rs_SessionID s = sid" "hb_SessionID h = sid" "hb_Headers h = rq_Headers req"
      "bc_SessionID b = sid" "bc_Data b = rq_Body req"
    by (simp_all add: s_def h_def b_def)
  have "request_frames sid req = [RequestStart_Encode s] @
      (if rq_Headers req \<noteq> [] then [HeaderBulk_Encode h] else []) @
      (if rq_Body req \<noteq> [] then [BodyChunk_Encode b] else []) @ [RequestEnd_Encode e]"
    by (simp add: request_frames_def s_def h_def b_def e_def)
  then have "read_request (request_frames sid req) =
      Some (sid, \<lparr>rq_Start = s, rq_Headers = rq_Headers req, rq_Body = rq_Body req\<rparr>)"
    using own err fields by (simp add: read_request_def Let_def e_def [symmetric])
  then show ?thesis by (simp add: s_def)
qed

section \<open>Properties\<close>

lemma SendRequest_sends:
  assumes "accepts_all net (cn_conn c)" and "\<not> cn_closed c" and "\<not> cn_flowHeld c"
    and "sid = fst (Allocate (cn_sessions c))"
  shows "\<exists>c' w'. SendRequest (wiretap net) req c (w, []) =
    Some (Inr sid, c', (w', map (Pair (cn_conn c)) (request_frames sid req)))"
proof -
  let ?c = "c\<lparr>cn_flowHeld := cn_flowSerial c, cn_sessions := snd (Allocate (cn_sessions c))\<rparr>"
  let ?sent = "map (Pair (cn_conn c)) (request_frames sid req)"
  obtain w1 where "send_frames (wiretap net) (request_frames sid req) ?c (w, []) = (None, ?c, (w1, ?sent))"
    using wiretap_frames [of net ?c "request_frames sid req" w "[]"] assms(1,2) by auto
  moreover obtain w2 where "AppConn_signal (wiretap net) sid ?c (w1, ?sent) = (None, (w2, ?sent))"
    using wiretap_signal [of net ?c] assms(1,2) by fastforce
  ultimately show ?thesis
    using assms(3,4) by (simp add: SendRequest_def lockFlow_free split_beta)
qed

text \<open>
  over a connection that takes everything, \<open>SendRequest\<close> returns a fresh session id, and what
  the engine has received on that connection, and nowhere else, reads back as exactly the
  request under that id, headers and body included and in order.
\<close>

theorem send_request_understood:
  assumes "request_fits req" and "accepts_all net (cn_conn c)" and "\<not> cn_closed c" and "\<not> cn_flowHeld c"
  shows "\<exists>sid c' w' sent. SendRequest (wiretap net) req c (w, []) = Some (Inr sid, c', (w', sent)) \<and>
    sid = fst (Allocate (cn_sessions c)) \<and> fst ` set sent \<subseteq> {cn_conn c} \<and>
    read_request (map snd sent) = Some (sid, req\<lparr>rq_Start := (rq_Start req)\<lparr>rs_SessionID := sid\<rparr>\<rparr>)"
proof -
  from SendRequest_sends [OF assms(2,3,4) refl, of req w] obtain c' w' where
    s: "SendRequest (wiretap net) req c (w, []) = Some (Inr (fst (Allocate (cn_sessions c))), c',
      (w', map (Pair (cn_conn c)) (request_frames (fst (Allocate (cn_sessions c))) req)))" by blast
  have "map snd (map (Pair (cn_conn c)) fs) = fs" for fs :: "bytes list" by (simp add: comp_def)
  with s read_request_frames [OF assms(1)] show ?thesis by (auto simp: image_image)
qed

definition example_conn :: "nat Conn" where
  "example_conn = newConn (script_net False) (EngineConfig_zero\<lparr>ec_FamilyName := ''edge''\<rparr>) SocketDialer ''reg'' 0"

definition example_request :: RequestData where
  "example_request = \<lparr>rq_Start = example_start, rq_Headers = [\<lparr>hd_Key = ''Host'', hd_Value = ''a.example''\<rparr>],
     rq_Body = [1, 2, 3]\<rparr>"

lemma example_request_fits: "request_fits example_request"
  by (simp add: request_fits_def example_request_def example_start_def RequestStart_wf_def Header_wf_def str_ok_def)

definition calm_net :: "(nat, script) net" where
  "calm_net = (script_net True)\<lparr>nt_send := \<lambda>k b w. (None, w)\<rparr>"

lemma calm_net_accepts: "accepts_all calm_net k"
  by (simp add: accepts_all_def calm_net_def script_net_def)

theorem send_request_understood_witness:
  "\<exists>sid c' w' sent. SendRequest (wiretap calm_net) example_request example_conn (script0, []) =
      Some (Inr sid, c', (w', sent)) \<and> sid = 3 \<and> read_request (map snd sent) \<noteq> None"
  using send_request_understood [OF example_request_fits calm_net_accepts, of example_conn script0]
  by (auto simp: example_conn_def newConn_def NewSessionAllocator_def Allocate_def)

text \<open>
  opening a session always returns when the flow lock is free; on success the session's id is
  the allocator's next one and the lock is held on a transport that needs it, and \<open>EndRequest\<close>
  then puts the allocator back and frees the lock; on an error both are back already.
\<close>

theorem sessions_balanced:
  assumes "\<not> cn_flowHeld c" and "x = SendRequest net req c w \<or> x = SendResponse net code len c w"
  shows "\<exists>r c' w'. x = Some (r, c', w') \<and>
    (case r of
       Inr sid \<Rightarrow> sid = fst (Allocate (cn_sessions c)) \<and> cn_flowHeld c' = cn_flowSerial c \<and>
         (\<exists>d. EndRequest sid c' = Some d \<and> cn_sessions d = cn_sessions c \<and> \<not> cn_flowHeld d)
     | Inl _ \<Rightarrow> cn_sessions c' = cn_sessions c \<and> \<not> cn_flowHeld c')"
proof -
  obtain r c' w' where x: "x = Some (r, c', w')"
      and r: "case r of Inr sid \<Rightarrow> session_open c sid c' | Inl _ \<Rightarrow> session_over c c'"
    using SendRequest_balanced [OF assms(1), of net req w] SendResponse_balanced [OF assms(1), of net code len w] assms(2)
    by blast
  show ?thesis
  proof (cases r)
    case (Inl e)
    with x r show ?thesis by (auto simp: session_over_def)
  next
    case (Inr sid)
    with r obtain d where "EndRequest sid c' = Some d" "session_over c d"
      using EndRequest_over [of c sid c'] by auto
    with Inr x r show ?thesis by (auto simp: session_open_def session_over_def)
  qed
qed

theorem sessions_balanced_witness:
  "SendRequest (script_net True) example_request example_conn script0 \<noteq> None"
  using sessions_balanced [of example_conn "SendRequest (script_net True) example_request example_conn script0"
      "script_net True" example_request script0]
  by (auto simp: example_conn_def newConn_def)

definition redial_script :: script where
  "redial_script = script0\<lparr>sc_next := 1, sc_fails := [False, True]\<rparr>"

definition bare_request :: RequestData where
  "bare_request = example_request\<lparr>rq_Headers := []\<rparr>"

text \<open>What a dial sends, whatever it returns: at most the two frames of the handshake.\<close>

lemma wiretap_register:
  "\<exists>hs. register (wiretap net) k cfg (w, l) = apsnd (\<lambda>w. (w, l @ hs)) (register net k cfg w) \<and>
     snd ` set hs \<subseteq> {registrationFrame cfg}"
  by (cases "nt_send net k (registrationFrame cfg) w"; cases "fst (nt_send net k (registrationFrame cfg) w)")
    (auto simp: register_def recvSignalPath_def wiretap_def split: prod.splits sum.splits list.splits
      intro: exI [of _ "[]"] exI [of _ "[(k, registrationFrame cfg)]"])

lemma wiretap_sendComm:
  "\<exists>hs. sendComm (wiretap net) k cfg (w, l) = apsnd (\<lambda>w. (w, l @ hs)) (sendComm net k cfg w) \<and>
     snd ` set hs \<subseteq> {commFrame cfg}"
  by (cases "nt_send net k (commFrame cfg) w"; cases "fst (nt_send net k (commFrame cfg) w)")
    (auto simp: sendComm_def recvAck_def wiretap_def split: prod.splits sum.splits option.splits
      intro: exI [of _ "[]"] exI [of _ "[(k, commFrame cfg)]"])

lemma wiretap_two_phase:
  assumes "\<And>comm w l. finish' comm (w, l) = apsnd (\<lambda>w. (w, l)) (finish comm w)"
  shows "\<exists>hs. two_phase (wiretap net) m cfg finish' (w, l) = apsnd (\<lambda>w. (w, l @ hs)) (two_phase net m cfg finish w) \<and>
    snd ` set hs \<subseteq> {registrationFrame cfg, commFrame cfg}"
proof -
  obtain x w1 where c1: "nt_connect net m (ec_RegistrationSocket cfg) w = (x, w1)" by force
  show ?thesis
  proof (cases x)
    case (Inl e)
    with c1 show ?thesis by (auto simp: two_phase_def wiretap_def)
  next
    case sig: (Inr sig)
    obtain r w2 where r: "register net sig cfg w1 = (r, w2)" by force
    with wiretap_register [of net sig cfg w1 l] obtain h1 where
      h1: "register (wiretap net) sig cfg (w1, l) = (r, (w2, l @ h1))" "snd ` set h1 \<subseteq> {registrationFrame cfg}" by auto
    show ?thesis
    proof (cases r)
      case (Inl e)
      with c1 sig r h1 show ?thesis by (intro exI [of _ h1]) (auto simp: two_phase_def wiretap_def)
    next
      case path: (Inr path)
      obtain y w3 where c2: "nt_connect net m path (nt_close net sig w2) = (y, w3)" by force
      show ?thesis
      proof (cases y)
        case (Inl e)
        with c1 sig r h1 path c2 show ?thesis by (intro exI [of _ h1]) (auto simp: two_phase_def wiretap_def)
      next
        case comm: (Inr comm)
        obtain z w4 where z: "sendComm net comm cfg w3 = (z, w4)" by force
        with wiretap_sendComm [of net comm cfg w3 "l @ h1"] obtain h2 where
          "sendComm (wiretap net) comm cfg (w3, l @ h1) = (z, (w4, l @ h1 @ h2))" "snd ` set h2 \<subseteq> {commFrame cfg}" by auto
        with c1 sig r h1 path c2 comm z assms show ?thesis
          by (intro exI [of _ "h1 @ h2"]) (cases z; auto simp: two_phase_def wiretap_def)
      qed
    qed
  qed
qed

lemma wiretap_dial:
  "\<exists>hs. Dial_engine (wiretap net) d cfg (w, l) = apsnd (\<lambda>w. (w, l @ hs)) (Dial_engine net d cfg w) \<and>
    snd ` set hs \<subseteq> {registrationFrame cfg, commFrame cfg}"
  by (cases d) (simp_all add: dialers_two_phase wiretap_two_phase wiretap_def [of net, THEN arg_cong, of nt_openRing])

text \<open>All of the frames are taken by one connection.\<close>

fun takes :: "('k, 'w) net \<Rightarrow> 'k \<Rightarrow> bytes list \<Rightarrow> 'w \<Rightarrow> 'w option" where
  "takes net k [] w = Some w"
| "takes net k (f # fs) w = (case nt_send net k f w of (None, w) \<Rightarrow> takes net k fs w | (Some _, _) \<Rightarrow> None)"

lemma wiretap_takes:
  assumes "takes net (cn_conn c) fs w = Some w'" and "\<not> cn_closed c"
  shows "send_frames (wiretap net) (fs @ gs) c (w, l) =
    send_frames (wiretap net) gs c (w', l @ map (Pair (cn_conn c)) fs)"
  using assms
  by (induction fs arbitrary: w l) (auto simp: AppConn_send_def wiretap_def split: prod.splits option.splits)

lemma later_frames:
  assumes "request_fits req" and "request_frames sid req = before @ rest" and "before \<noteq> []" and "g \<in> set rest"
  shows "is_err (ParseRequestStart g)"
proof -
  have "g \<in> set (tl (request_frames sid req))"
    using assms(2-4) by (cases before) auto
  then show ?thesis
    using not_a_start own_frames(2-4) [OF assms(1) refl refl refl refl, of sid]
    by (auto simp: request_frames_def split: if_splits)
qed

text \<open>
  C39: A connection that fails in the middle of a transaction splits it: when the old connection takes the
  first frames of a request, at least its REQUEST_START, and fails on a later one, the redial
  succeeds, and the new connection takes that frame and the remaining ones, then \<open>SendRequest\<close>
  succeeds. What was sent is the first frames on the old connection, at most the two frames of
  the handshake, and the rest of the request on the new connection, none of it a REQUEST_START.
  Required are an open connection with a free flow lock, a request whose strings fit their length
  prefixes and, where the new connection is a ring, a signal that succeeds.
\<close>

theorem redial_splits_transaction:
  assumes "request_fits req" and "\<not> cn_closed c" and "\<not> cn_flowHeld c" and "sid = fst (Allocate (cn_sessions c))"
    and "request_frames sid req = before @ f # after" and "before \<noteq> []"
    and "takes net (cn_conn c) before w = Some w1" and "nt_send net (cn_conn c) f w1 = (Some err, w2)"
    and "Dial_engine net (cn_dialer c) (cn_cfg c) w2 = (Inr k, w3)"
    and "takes net k (f # after) (nt_close net (cn_conn c) w3) = Some w4"
    and "nt_is_ring net k \<longrightarrow> fst (nt_signal net k sid w4) = None"
  shows "\<exists>c' w' hs. SendRequest (wiretap net) req c (w, []) =
      Some (Inr sid, c', (w', map (Pair (cn_conn c)) before @ hs @ map (Pair k) (f # after))) \<and> cn_conn c' = k \<and>
    snd ` set hs \<subseteq> {registrationFrame (cn_cfg c), commFrame (cn_cfg c)} \<and>
    (\<forall>g \<in> set (f # after). is_err (ParseRequestStart g))"
proof -
  let ?c = "c\<lparr>cn_flowHeld := cn_flowSerial c, cn_sessions := snd (Allocate (cn_sessions c))\<rparr>"
  let ?old = "map (Pair (cn_conn c)) before"
  obtain w5 where f: "nt_send net k f (nt_close net (cn_conn c) w3) = (None, w5)" "takes net k after w5 = Some w4"
    using assms(10) by (auto split: prod.splits option.splits)
  from wiretap_dial [of net "cn_dialer c" "cn_cfg c" w2 ?old] assms(9) obtain hs where
    hs: "Dial_engine (wiretap net) (cn_dialer c) (cn_cfg c) (w2, ?old) = (Inr k, (w3, ?old @ hs))"
      "snd ` set hs \<subseteq> {registrationFrame (cn_cfg c), commFrame (cn_cfg c)}" by auto
  have "AppConn_send (wiretap net) f ?c (w1, ?old) = (None, ?c\<lparr>cn_conn := k\<rparr>, (w5, ?old @ hs @ [(k, f)]))"
    using assms(2,8) hs(1) f(1) by (simp add: AppConn_send_def reconnect_def wiretap_def)
  then have "send_frames (wiretap net) (request_frames sid req) ?c (w, []) =
      (None, ?c\<lparr>cn_conn := k\<rparr>, (w4, ?old @ hs @ map (Pair k) (f # after)))"
    using wiretap_takes [of net ?c before w w1 "f # after" "[]"] wiretap_takes [of net "?c\<lparr>cn_conn := k\<rparr>" after w5 w4 "[]"]
      assms(2,5,7) f(2) by simp
  moreover define w6 where "w6 = (if nt_is_ring net k then snd (nt_signal net k sid w4) else w4)"
  have "AppConn_signal (wiretap net) sid (?c\<lparr>cn_conn := k\<rparr>) (w4, l) = (None, (w6, l))" for l
    using assms(2,11) by (cases "nt_signal net k sid w4") (simp add: AppConn_signal_def wiretap_def w6_def)
  ultimately have "SendRequest (wiretap net) req c (w, []) =
      Some (Inr sid, ?c\<lparr>cn_conn := k\<rparr>, (w6, ?old @ hs @ map (Pair k) (f # after)))"
    using assms(3,4) by (simp add: SendRequest_def lockFlow_free split_beta)
  moreover have "\<forall>g \<in> set (f # after). is_err (ParseRequestStart g)" using later_frames [OF assms(1,5,6)] by blast
  moreover have "cn_conn (?c\<lparr>cn_conn := k\<rparr>) = k" by simp
  ultimately show ?thesis using hs(2) by blast
qed

theorem redial_splits_transaction_witness:
  "\<exists>a b d c' w' hs. request_frames 3 bare_request = [a, b, d] \<and>
     SendRequest (wiretap (script_net False)) bare_request example_conn (redial_script, []) =
       Some (Inr 3, c', (w', [(0, a)] @ hs @ [(2, b), (2, d)])) \<and>
     is_err (ParseRequestStart b) \<and> is_err (ParseRequestStart d)"
proof -
  obtain a b d where fs: "request_frames 3 bare_request = [a] @ b # [d]"
    by (simp add: request_frames_def bare_request_def example_request_def)
  have fits: "request_fits bare_request"
    using example_request_fits by (simp add: bare_request_def request_fits_def)
  have c: "\<not> cn_closed example_conn" "\<not> cn_flowHeld example_conn" "3 = fst (Allocate (cn_sessions example_conn))"
      "cn_conn example_conn = 0"
    by (simp_all add: example_conn_def newConn_def NewSessionAllocator_def Allocate_def)
  define w1 where "w1 = script0\<lparr>sc_next := 1, sc_fails := [True], sc_sent := [(0, a)]\<rparr>"
  define w3 where "w3 = script0\<lparr>sc_next := 3, sc_replies := [], sc_sent := [(0, a),
      (1, registrationFrame (cn_cfg example_conn)), (2, commFrame (cn_cfg example_conn))]\<rparr>"
  define w4 where "w4 = w3\<lparr>sc_sent := sc_sent w3 @ [(2, b), (2, d)]\<rparr>"
  let ?net = "script_net False"
  have old: "takes ?net (cn_conn example_conn) [a] redial_script = Some w1"
      "nt_send ?net (cn_conn example_conn) b w1 = (Some ErrClosed, w1\<lparr>sc_fails := []\<rparr>)"
    by (simp_all add: c(4) script_net_def script_send_def redial_script_def script0_def w1_def)
  have dial: "Dial_engine ?net (cn_dialer example_conn) (cn_cfg example_conn) (w1\<lparr>sc_fails := []\<rparr>) = (Inr 2, w3)"
    by (simp add: script_net_def script_send_def script0_def w1_def w3_def example_conn_def newConn_def
        socketDialer_Dial_def register_def recvSignalPath_def script_recv_def sendComm_def recvAck_def)
  have new: "takes ?net 2 (b # [d]) (nt_close ?net (cn_conn example_conn) w3) = Some w4"
    by (simp add: script_net_def script_send_def script0_def w3_def w4_def)
  have "\<not> nt_is_ring ?net 2" by (simp add: script_net_def)
  then show ?thesis
    using redial_splits_transaction [OF fits c(1-3) fs _ old dial new] fs c(4) by auto
qed

text \<open>
  the delay before the next attempt is the smaller of the maximum and the minimum doubled
  once per failed attempt, for any number of attempts: it never falls below the minimum, never
  exceeds the maximum, and the doubling in 64-bit arithmetic never turns negative.
\<close>

theorem backoff_exact:
  assumes "0 < mn" and "mn \<le> mx" and "mx < 2 ^ 63"
  shows "backoffDelay mn mx attempt = min mx (mn * 2 ^ nat attempt) \<and>
    mn \<le> backoffDelay mn mx attempt \<and> backoffDelay mn mx attempt \<le> mx"
proof -
  have eq: "backoffDelay mn mx attempt = min mx (mn * 2 ^ nat attempt)"
    using backoff_loop_eq [OF assms(1,3)] by (simp add: backoffDelay_def)
  moreover have "mn * 1 \<le> mn * 2 ^ nat attempt" using assms(1) by (intro mult_left_mono one_le_power) simp_all
  ultimately show ?thesis using assms(2) by simp
qed

theorem backoff_exact_witness:
  "backoffDelay 100000000 5000000000 5 = 3200000000 \<and> backoffDelay 100000000 5000000000 1000 \<le> 5000000000"
  using backoff_exact [of 100000000 5000000000 5] backoff_exact [of 100000000 5000000000 1000] by simp

lemma Dial_ignores_signal: "Dial_engine (net\<lparr>nt_signal := f\<rparr>) d cfg w = Dial_engine net d cfg w"
  by (cases d) (simp_all add: memoryDialer_Dial_def socketDialer_Dial_def shmDialer_Dial_def register_def
      recvSignalPath_def sendComm_def recvAck_def Let_def cong: option.case_cong sum.case_cong prod.case_cong)

lemma AppConn_send_ignores_signal: "AppConn_send (net\<lparr>nt_signal := f\<rparr>) p c w = AppConn_send net p c w"
  by (simp add: AppConn_send_def reconnect_def Dial_ignores_signal
      cong: option.case_cong sum.case_cong prod.case_cong)

text \<open>
  neither opening a response session nor submitting a response body ever signals the engine:
  the outcome is the same whatever \<open>Signal\<close> does. On the shared-memory transport, where the
  engine reads the ring only after a signal, the response frames stay unread.
\<close>

theorem response_never_signals:
  "SendResponse (net\<lparr>nt_signal := f\<rparr>) code len c w = SendResponse net code len c w \<and>
   SendResponseBody (net\<lparr>nt_signal := f\<rparr>) sid chunk isLast c w = SendResponseBody net sid chunk isLast c w"
  by (simp add: SendResponse_def SendResponseBody_def AppConn_send_ignores_signal
      cong: option.case_cong prod.case_cong)

end
