(* ===== verification/Pool.thy ===== *)
theory Pool
  imports App_Conn
begin

text \<open>
  The connection pool of internal/app/pool.go. Entries and connections are numbered in order of
  creation and shared by number, as the source shares them by pointer, because an acquirer may
  still hold an entry that has been removed from the map. \<open>Acquire\<close> is cut into its critical
  sections, from which both the operation of a single caller and the interleavings of many
  are composed.
\<close>

section \<open>State and critical sections\<close>

record pool_entry =
  pe_refs :: int
  pe_conn :: "nat option"
  pe_err :: "terr option"
  pe_ready :: bool

record 'k Pool =
  pl_cfg :: EngineConfig
  pl_dialer :: dialer
  pl_entries :: "string \<rightharpoonup> nat"
  pl_entry :: "nat \<Rightarrow> pool_entry"
  pl_nexte :: nat
  pl_conns :: "nat \<Rightarrow> 'k Conn"
  pl_nextc :: nat

definition NewPool :: "EngineConfig \<Rightarrow> dialer \<Rightarrow> (nat \<Rightarrow> 'k Conn) \<Rightarrow> 'k Pool" where
  "NewPool cfg d none = \<lparr>pl_cfg = cfg, pl_dialer = d, pl_entries = Map.empty,
     pl_entry = (\<lambda>_. \<lparr>pe_refs = 0, pe_conn = None, pe_err = None, pe_ready = False\<rparr>), pl_nexte = 0,
     pl_conns = none, pl_nextc = 0\<rparr>"

definition set_entry :: "nat \<Rightarrow> pool_entry \<Rightarrow> 'k Pool \<Rightarrow> 'k Pool" where
  "set_entry e x p = p\<lparr>pl_entry := (pl_entry p)(e := x)\<rparr>"

definition add_refs :: "int \<Rightarrow> nat \<Rightarrow> 'k Pool \<Rightarrow> 'k Pool" where
  "add_refs d e p = set_entry e ((pl_entry p e)\<lparr>pe_refs := pe_refs (pl_entry p e) + d\<rparr>) p"

text \<open>The first critical section: whether the caller is the one to dial, and its entry.\<close>

definition acquire_enter :: "string \<Rightarrow> 'k Pool \<Rightarrow> (bool \<times> nat) \<times> 'k Pool" where
  "acquire_enter addr p =
     (case pl_entries p addr of
        None \<Rightarrow>
          let e = pl_nexte p in
          ((True, e), set_entry e \<lparr>pe_refs = 1, pe_conn = None, pe_err = None, pe_ready = False\<rparr>
             (p\<lparr>pl_nexte := Suc e, pl_entries := (pl_entries p)(addr \<mapsto> e)\<rparr>))
      | Some e \<Rightarrow> ((False, e), add_refs 1 e p))"

text \<open>The second one of the caller that dialed, given what the dial returned.\<close>

definition acquire_dialed ::
  "('k, 'w) net \<Rightarrow> string \<Rightarrow> nat \<Rightarrow> terr + 'k \<Rightarrow> 'k Pool \<Rightarrow> (terr + nat) \<times> 'k Pool" where
  "acquire_dialed net addr e r p =
     (case r of
        Inl err \<Rightarrow>
          (Inl err, set_entry e ((pl_entry p e)\<lparr>pe_err := Some err, pe_ready := True\<rparr>)
             (p\<lparr>pl_entries := (pl_entries p)(addr := None)\<rparr>))
      | Inr k \<Rightarrow>
          let c = pl_nextc p in
          (Inr c, set_entry e ((pl_entry p e)\<lparr>pe_conn := Some c, pe_ready := True\<rparr>)
             (p\<lparr>pl_nextc := Suc c, pl_conns := (pl_conns p)(c := newConn net (pl_cfg p) (pl_dialer p) addr k)\<rparr>)))"

text \<open>What a waiting caller reads once the entry is ready.\<close>

definition acquire_ready :: "nat \<Rightarrow> 'k Pool \<Rightarrow> terr + nat" where
  "acquire_ready e p =
     (case (pe_err (pl_entry p e), pe_conn (pl_entry p e)) of
        (Some err, _) \<Rightarrow> Inl err
      | (None, Some c) \<Rightarrow> Inr c
      | (None, None) \<Rightarrow> Inl ErrPanic)"

definition Pool_Acquire ::
  "('k, 'w) net \<Rightarrow> ctx \<Rightarrow> string \<Rightarrow> 'k Pool \<Rightarrow> 'w \<Rightarrow> ((terr + nat) \<times> 'k Pool \<times> 'w) option" where
  "Pool_Acquire net ctx addr p w =
     (case acquire_enter addr p of
        ((True, e), p) \<Rightarrow>
          (case Dial_engine net (pl_dialer p) (pl_cfg p) w of
             (r, w) \<Rightarrow> (case acquire_dialed net addr e r p of (x, p) \<Rightarrow> Some (x, p, w)))
      | ((False, e), p) \<Rightarrow>
          if pe_ready (pl_entry p e) then Some (acquire_ready e p, p, w)
          else case ctx of
            Some err \<Rightarrow> Some (Inl (ErrCtx err), add_refs (- 1) e p, w)
          | None \<Rightarrow> None)"

definition close_conn :: "('k, 'w) net \<Rightarrow> nat option \<Rightarrow> 'k Pool \<Rightarrow> 'w \<Rightarrow> 'k Pool \<times> 'w" where
  "close_conn net x p w =
     (case x of
        None \<Rightarrow> (p, w)
      | Some c \<Rightarrow> (case AppConn_Close net (pl_conns p c) w of (k, w) \<Rightarrow> (p\<lparr>pl_conns := (pl_conns p)(c := k)\<rparr>, w)))"

definition Pool_Release :: "('k, 'w) net \<Rightarrow> string \<Rightarrow> 'k Pool \<Rightarrow> 'w \<Rightarrow> 'k Pool \<times> 'w" where
  "Pool_Release net addr p w =
     (case pl_entries p addr of
        None \<Rightarrow> (p, w)
      | Some e \<Rightarrow>
          let p = add_refs (- 1) e p in
          if pe_refs (pl_entry p e) > 0 then (p, w)
          else close_conn net (pe_conn (pl_entry p e)) (p\<lparr>pl_entries := (pl_entries p)(addr := None)\<rparr>) w)"

text \<open>\<open>Close\<close> visits the addresses of the map in any order; \<open>addrs\<close> is that order.\<close>

definition Pool_Close :: "('k, 'w) net \<Rightarrow> string list \<Rightarrow> 'k Pool \<Rightarrow> 'w \<Rightarrow> 'k Pool \<times> 'w" where
  "Pool_Close net addrs p w =
     (let entries = pl_entries p in
      fold (\<lambda>a (p, w). case entries a of None \<Rightarrow> (p, w) | Some e \<Rightarrow> close_conn net (pe_conn (pl_entry p e)) p w)
        addrs (p\<lparr>pl_entries := Map.empty\<rparr>, w))"

definition GlobalPool :: "EngineConfig \<Rightarrow> dialer \<Rightarrow> (nat \<Rightarrow> 'k Conn) \<Rightarrow> 'k Pool option \<Rightarrow> 'k Pool" where
  "GlobalPool cfg d none g = (case g of None \<Rightarrow> NewPool cfg d none | Some p \<Rightarrow> p)"

section \<open>Many users\<close>

text \<open>
  Each user is idle, dials, waits for another's dial, or holds a connection; it releases what it
  acquired, once. Any user may take the next step; a waiting user's context may end at any time.
  That is the discipline that \<open>Release\<close> documents. A \<open>Release\<close> by a user that holds nothing, as
  \<open>App.Stop\<close> followed by \<open>App.Cleanup\<close> and \<open>Handler.Cleanup\<close> can make it (\<open>app_releases_twice\<close>,
  \<open>cleanup_takes_others_connection\<close>), and \<open>Pool.Close\<close>, which empties the pool under its users, are no
  steps.
\<close>

datatype pool_user = Idle | Dialing string nat | WaitingFor string nat | Holding string nat nat

inductive pool_step ::
  "('k, 'w) net \<Rightarrow> nat \<Rightarrow> 'k Pool \<times> 'w \<times> (nat \<Rightarrow> pool_user) \<Rightarrow> 'k Pool \<times> 'w \<times> (nat \<Rightarrow> pool_user) \<Rightarrow> bool"
  for net :: "('k, 'w) net" and n :: nat where
  enter: "i < n \<Longrightarrow> us i = Idle \<Longrightarrow> acquire_enter addr p = ((first, e), p') \<Longrightarrow>
    pool_step net n (p, w, us) (p', w, us(i := if first then Dialing addr e else WaitingFor addr e))"
| dialed: "i < n \<Longrightarrow> us i = Dialing addr e \<Longrightarrow> Dial_engine net (pl_dialer p) (pl_cfg p) w = (r, w') \<Longrightarrow>
    acquire_dialed net addr e r p = (x, p') \<Longrightarrow>
    pool_step net n (p, w, us) (p', w', us(i := case x of Inl _ \<Rightarrow> Idle | Inr c \<Rightarrow> Holding addr e c))"
| ready: "i < n \<Longrightarrow> us i = WaitingFor addr e \<Longrightarrow> pe_ready (pl_entry p e) \<Longrightarrow>
    pool_step net n (p, w, us) (p, w, us(i := case acquire_ready e p of Inl _ \<Rightarrow> Idle | Inr c \<Rightarrow> Holding addr e c))"
| cancel: "i < n \<Longrightarrow> us i = WaitingFor addr e \<Longrightarrow>
    pool_step net n (p, w, us) (add_refs (- 1) e p, w, us(i := Idle))"
| release: "i < n \<Longrightarrow> us i = Holding addr e c \<Longrightarrow> Pool_Release net addr p w = (p', w') \<Longrightarrow>
    pool_step net n (p, w, us) (p', w', us(i := Idle))"

inductive pool_reach :: "('k, 'w) net \<Rightarrow> nat \<Rightarrow> 'k Pool \<times> 'w \<times> (nat \<Rightarrow> pool_user) \<Rightarrow> bool"
  for net :: "('k, 'w) net" and n :: nat where
  start: "pool_reach net n (NewPool cfg d none, w, \<lambda>_. Idle)"
| step: "pool_reach net n s \<Longrightarrow> pool_step net n s s' \<Longrightarrow> pool_reach net n s'"

fun at_entry :: "nat \<Rightarrow> pool_user \<Rightarrow> bool" where
  "at_entry e Idle = False"
| "at_entry e (Dialing _ e') = (e' = e)"
| "at_entry e (WaitingFor _ e') = (e' = e)"
| "at_entry e (Holding _ e' _) = (e' = e)"

definition users_of :: "nat \<Rightarrow> (nat \<Rightarrow> pool_user) \<Rightarrow> nat \<Rightarrow> int" where
  "users_of n us e = (\<Sum>i<n. if at_entry e (us i) then 1 else 0)"

lemma users_of_update:
  assumes "i < n"
  shows "users_of n (us(i := u)) e =
    users_of n us e - (if at_entry e (us i) then 1 else 0) + (if at_entry e u then 1 else 0)"
proof -
  have i: "finite {..<n}" "i \<in> {..<n}" using assms by simp_all
  have "(\<Sum>j\<in>{..<n} - {i}. if at_entry e ((us(i := u)) j) then 1 else 0) =
      (\<Sum>j\<in>{..<n} - {i}. if at_entry e (us j) then 1 else (0::int))"
    by (rule sum.cong) auto
  then show ?thesis unfolding users_of_def sum.remove [OF i] by simp
qed

lemma users_of_pos:
  assumes "i < n" and "at_entry e (us i)"
  shows "1 \<le> users_of n us e"
proof -
  have i: "finite {..<n}" "i \<in> {..<n}" using assms by simp_all
  have "0 \<le> (\<Sum>j\<in>{..<n} - {i}. if at_entry e (us j) then 1 else (0::int))" by (rule sum_nonneg) simp
  then show ?thesis unfolding users_of_def sum.remove [OF i] using assms(2) by simp
qed

lemma users_of_two:
  assumes "i < n" "j < n" "i \<noteq> j" and "at_entry e (us i)" "at_entry e (us j)"
  shows "2 \<le> users_of n us e"
proof -
  have "users_of n (us(i := Idle)) e = users_of n us e - 1"
    using users_of_update [OF assms(1), of us Idle e] assms(4) by simp
  moreover have "1 \<le> users_of n (us(i := Idle)) e"
    by (rule users_of_pos [OF assms(2)]) (use assms in simp)
  ultimately show ?thesis by simp
qed

lemma users_of_none:
  assumes "\<And>i. i < n \<Longrightarrow> \<not> at_entry e (us i)"
  shows "users_of n us e = 0"
  unfolding users_of_def by (rule sum.neutral) (use assms in simp)

section \<open>The invariant\<close>

text \<open>What is known of an entry in the map, of \<open>k\<close> users.\<close>

definition entry_ok :: "'k Pool \<Rightarrow> int \<Rightarrow> nat \<Rightarrow> bool" where
  "entry_ok p k e \<longleftrightarrow> e < pl_nexte p \<and> pe_refs (pl_entry p e) = k \<and> pe_err (pl_entry p e) = None \<and>
     (if pe_ready (pl_entry p e)
      then \<exists>c. pe_conn (pl_entry p e) = Some c \<and> c < pl_nextc p \<and> \<not> cn_closed (pl_conns p c)
      else pe_conn (pl_entry p e) = None)"

text \<open>What is known of a user.\<close>

fun user_ok :: "'k Pool \<Rightarrow> pool_user \<Rightarrow> bool" where
  "user_ok p Idle = True"
| "user_ok p (Dialing addr e) \<longleftrightarrow> pl_entries p addr = Some e \<and> \<not> pe_ready (pl_entry p e)"
| "user_ok p (WaitingFor addr e) \<longleftrightarrow> e < pl_nexte p \<and>
     (pl_entries p addr = Some e \<or> pl_entries p addr \<noteq> Some e \<and> pe_ready (pl_entry p e) \<and> pe_err (pl_entry p e) \<noteq> None)"
| "user_ok p (Holding addr e c) \<longleftrightarrow> pl_entries p addr = Some e \<and> pe_ready (pl_entry p e) \<and> pe_conn (pl_entry p e) = Some c"

definition pool_inv :: "nat \<Rightarrow> 'k Pool \<Rightarrow> (nat \<Rightarrow> pool_user) \<Rightarrow> bool" where
  "pool_inv n p us \<longleftrightarrow>
     (\<forall>addr e. pl_entries p addr = Some e \<longrightarrow> entry_ok p (users_of n us e) e) \<and>
     (\<forall>a b e. pl_entries p a = Some e \<longrightarrow> pl_entries p b = Some e \<longrightarrow> a = b) \<and>
     (\<forall>a b e f c. pl_entries p a = Some e \<longrightarrow> pl_entries p b = Some f \<longrightarrow>
        pe_conn (pl_entry p e) = Some c \<longrightarrow> pe_conn (pl_entry p f) = Some c \<longrightarrow> e = f) \<and>
     (\<forall>i < n. user_ok p (us i)) \<and>
     (\<forall>i < n. \<forall>j < n. \<forall>addr a e. us i = Dialing addr e \<longrightarrow> us j = Dialing a e \<longrightarrow> i = j)"

lemma pool_invD:
  assumes "pool_inv n p us"
  shows "pl_entries p addr = Some e \<Longrightarrow> entry_ok p (users_of n us e) e"
    and "pl_entries p a = Some e \<Longrightarrow> pl_entries p b = Some e \<Longrightarrow> a = b"
    and "pl_entries p a = Some e \<Longrightarrow> pl_entries p b = Some f \<Longrightarrow> pe_conn (pl_entry p e) = Some c \<Longrightarrow>
      pe_conn (pl_entry p f) = Some c \<Longrightarrow> e = f"
    and "i < n \<Longrightarrow> user_ok p (us i)"
    and "i < n \<Longrightarrow> j < n \<Longrightarrow> us i = Dialing addr e \<Longrightarrow> us j = Dialing a e \<Longrightarrow> i = j"
  using assms unfolding pool_inv_def by blast+

lemma pool_invI:
  assumes "\<And>addr e. pl_entries p addr = Some e \<Longrightarrow> entry_ok p (users_of n us e) e"
    and "\<And>a b e. pl_entries p a = Some e \<Longrightarrow> pl_entries p b = Some e \<Longrightarrow> a = b"
    and "\<And>a b e f c. pl_entries p a = Some e \<Longrightarrow> pl_entries p b = Some f \<Longrightarrow>
      pe_conn (pl_entry p e) = Some c \<Longrightarrow> pe_conn (pl_entry p f) = Some c \<Longrightarrow> e = f"
    and "\<And>i. i < n \<Longrightarrow> user_ok p (us i)"
    and "\<And>i j addr a e. i < n \<Longrightarrow> j < n \<Longrightarrow> us i = Dialing addr e \<Longrightarrow> us j = Dialing a e \<Longrightarrow> i = j"
  shows "pool_inv n p us"
  using assms unfolding pool_inv_def by blast

lemma user_entry_lt:
  assumes "pool_inv n p us" and "i < n" and "at_entry e (us i)"
  shows "e < pl_nexte p"
  using pool_invD(4) [OF assms(1,2)] assms(3) pool_invD(1) [OF assms(1)]
  by (cases "us i") (auto simp: entry_ok_def)

lemma pool_inv_start: "pool_inv n (NewPool cfg d none) (\<lambda>_. Idle)"
  by (simp add: pool_inv_def NewPool_def)

lemma pool_inv_enter:
  assumes inv: "pool_inv n p us" and i: "i < n" "us i = Idle" and enter: "acquire_enter addr p = ((first, e), p')"
  shows "pool_inv n p' (us(i := if first then Dialing addr e else WaitingFor addr e))"
proof (cases "pl_entries p addr")
  case None
  let ?us = "us(i := Dialing addr e)"
  have e: "first" "e = pl_nexte p" "p' = set_entry e \<lparr>pe_refs = 1, pe_conn = None, pe_err = None, pe_ready = False\<rparr>
      (p\<lparr>pl_nexte := Suc e, pl_entries := (pl_entries p)(addr \<mapsto> e)\<rparr>)"
    using enter None by (auto simp: acquire_enter_def Let_def)
  have fresh: "\<not> at_entry e (us j)" if "j < n" for j
    using user_entry_lt [OF inv that, of e] e(2) by auto
  have new: "pl_entries p a \<noteq> Some e" for a
    using pool_invD(1) [OF inv, of a e] e(2) by (auto simp: entry_ok_def)
  have count1: "users_of n ?us e = 1"
    using users_of_update [OF i(1), of us "Dialing addr e" e] users_of_none [of n e us] fresh i by simp
  have count2: "users_of n ?us f = users_of n us f" if "f \<noteq> e" for f
    using users_of_update [OF i(1), of us "Dialing addr e" f] that i(2) by auto
  have users: "user_ok p' (us j)" if j: "j < n" for j
  proof (cases "us j")
    case (Dialing a f)
    with pool_invD(4) [OF inv j] fresh [OF j] None show ?thesis by (auto simp: e set_entry_def)
  next
    case (WaitingFor a f)
    with pool_invD(4) [OF inv j] fresh [OF j] None new show ?thesis by (auto simp: e set_entry_def)
  next
    case (Holding a f c)
    with pool_invD(4) [OF inv j] fresh [OF j] None show ?thesis by (auto simp: e set_entry_def)
  qed simp

  have ent: "pl_entries p' = (pl_entries p)(addr \<mapsto> e)" "pl_nexte p' = Suc e" "pl_nextc p' = pl_nextc p"
      "pl_conns p' = pl_conns p" "pl_entry p' e = \<lparr>pe_refs = 1, pe_conn = None, pe_err = None, pe_ready = False\<rparr>"
    and old: "\<And>f. f \<noteq> e \<Longrightarrow> pl_entry p' f = pl_entry p f"
    by (simp_all add: e set_entry_def)
  have nd: "us j \<noteq> Dialing a e" if "j < n" for j a using fresh [OF that] by auto
  have "pool_inv n p' ?us"
  proof (rule pool_invI)
    fix a f assume f: "pl_entries p' a = Some f"
    show "entry_ok p' (users_of n ?us f) f"
    proof (cases "f = e")
      case True
      with count1 show ?thesis by (simp add: entry_ok_def ent)
    next
      case False
      with f have "pl_entries p a = Some f" by (simp add: ent split: if_splits)
      from pool_invD(1) [OF inv this] show ?thesis
        unfolding entry_ok_def old [OF False] ent count2 [OF False] using e(2) by simp
    qed
  next
    fix a b f assume "pl_entries p' a = Some f" "pl_entries p' b = Some f"
    then show "a = b" using pool_invD(2) [OF inv] new by (auto simp: ent split: if_splits)
  next
    fix a b f g c
    assume *: "pl_entries p' a = Some f" "pl_entries p' b = Some g" "pe_conn (pl_entry p' f) = Some c"
      "pe_conn (pl_entry p' g) = Some c"
    then have "f \<noteq> e" "g \<noteq> e" by (auto simp: ent)
    with * show "f = g" using pool_invD(3) [OF inv, of a f b g c] by (auto simp: ent old split: if_splits)
  next
    fix j assume "j < n"
    then show "user_ok p' (?us j)" using users by (simp add: ent)
  next
    fix j k a b f assume "j < n" "k < n" "?us j = Dialing a f" "?us k = Dialing b f"
    then show "j = k" using pool_invD(5) [OF inv] nd by (auto split: if_splits)
  qed
  with e(1) show ?thesis by simp
next
  case (Some f)
  let ?us = "us(i := WaitingFor addr e)"
  have e: "\<not> first" "e = f" "p' = add_refs 1 e p" using enter Some by (auto simp: acquire_enter_def)
  have "users_of n ?us e = users_of n us e + 1"
    using users_of_update [OF i(1), of us "WaitingFor addr e" e] i by simp
  moreover have "users_of n ?us g = users_of n us g" if "g \<noteq> e" for g
    using users_of_update [OF i(1), of us "WaitingFor addr e" g] that i(2) by auto
  moreover have "user_ok p' u = user_ok p u" for u
    by (cases u) (simp_all add: e add_refs_def set_entry_def)
  ultimately show ?thesis
    using inv e(1) Some pool_invD(1) [OF inv Some] unfolding pool_inv_def
    by (auto simp: e(2,3) add_refs_def set_entry_def entry_ok_def)
qed

text \<open>An entry that failed is nowhere in the map.\<close>

lemma failed_not_mapped:
  "pool_inv n p us \<Longrightarrow> pe_err (pl_entry p e) \<noteq> None \<Longrightarrow> pl_entries p a \<noteq> Some e"
  using pool_invD(1) [of n p us a e] by (auto simp: entry_ok_def)

lemma waiting_cases:
  assumes "pool_inv n p us" and "i < n" and "us i = WaitingFor addr e"
  obtains "pl_entries p addr = Some e" | "\<And>a. pl_entries p a \<noteq> Some e"
  using pool_invD(4) [OF assms(1,2)] assms(3) failed_not_mapped [OF assms(1), of e] by auto

lemma pool_inv_ready:
  assumes inv: "pool_inv n p us" and i: "i < n" "us i = WaitingFor addr e" and r: "pe_ready (pl_entry p e)"
  shows "pool_inv n p (us(i := case acquire_ready e p of Inl _ \<Rightarrow> Idle | Inr c \<Rightarrow> Holding addr e c))"
    (is "pool_inv n p ?us")
proof -
  let ?u = "case acquire_ready e p of Inl _ \<Rightarrow> Idle | Inr c \<Rightarrow> Holding addr e c"
  consider (mapped) "pl_entries p addr = Some e" | (gone) "\<forall>a. pl_entries p a \<noteq> Some e"
    using waiting_cases [OF inv i] by blast
  then have "(pl_entries p a = Some f \<longrightarrow> users_of n ?us f = users_of n us f) \<and> user_ok p ?u" for a f
  proof cases
    case mapped
    then obtain c where c: "pe_conn (pl_entry p e) = Some c" "pe_err (pl_entry p e) = None"
      using pool_invD(1) [OF inv mapped] r by (auto simp: entry_ok_def)
    then have "acquire_ready e p = Inr c" by (simp add: acquire_ready_def)
    with mapped r c i show ?thesis using users_of_update [OF i(1), of us "Holding addr e c" f] by simp
  next
    case gone
    then have "pe_err (pl_entry p e) \<noteq> None" using pool_invD(4) [OF inv i(1)] i(2) by auto
    then have "?u = Idle" by (auto simp: acquire_ready_def)
    with gone i show ?thesis using users_of_update [OF i(1), of us Idle f] by auto
  qed
  moreover have "?u \<noteq> Dialing a f" for a f by (simp split: sum.splits)
  ultimately show ?thesis
    using pool_invD [OF inv] i by (intro pool_invI) (auto split: if_splits)
qed

text \<open>A user leaves an entry that stays in the map.\<close>

lemma users_leave:
  assumes "i < n" and "at_entry e (us i)"
  shows "users_of n (us(i := Idle)) e = users_of n us e - 1"
    and "f \<noteq> e \<Longrightarrow> users_of n (us(i := Idle)) f = users_of n us f"
proof -
  have "at_entry f (us i) \<longleftrightarrow> f = e" for f using assms(2) by (cases "us i") auto
  then show "users_of n (us(i := Idle)) e = users_of n us e - 1"
      and "f \<noteq> e \<Longrightarrow> users_of n (us(i := Idle)) f = users_of n us f"
    using users_of_update [OF assms(1), of us Idle] by simp_all
qed

lemma add_refs_simps [simp]:
  "pl_entries (add_refs d e p) = pl_entries p" "pl_nexte (add_refs d e p) = pl_nexte p"
  "pl_nextc (add_refs d e p) = pl_nextc p" "pl_conns (add_refs d e p) = pl_conns p"
  "pe_conn (pl_entry (add_refs d e p) f) = pe_conn (pl_entry p f)"
  "pe_err (pl_entry (add_refs d e p) f) = pe_err (pl_entry p f)"
  "pe_ready (pl_entry (add_refs d e p) f) = pe_ready (pl_entry p f)"
  "pe_refs (pl_entry (add_refs d e p) f) = pe_refs (pl_entry p f) + (if f = e then d else 0)"
  by (simp_all add: add_refs_def set_entry_def)

lemma user_ok_add_refs [simp]: "user_ok (add_refs d e p) u = user_ok p u"
  by (cases u) simp_all

lemma pool_inv_leave:
  assumes inv: "pool_inv n p us" and i: "i < n" "at_entry e (us i)"
  shows "pool_inv n (add_refs (- 1) e p) (us(i := Idle))"
proof -
  have "entry_ok (add_refs (- 1) e p) (users_of n (us(i := Idle)) f) f" if "pl_entries p a = Some f" for a f
    using pool_invD(1) [OF inv that] users_leave(1) [where us = us and i = i and e = e, OF i]
      users_leave(2) [where us = us and i = i and e = e and f = f, OF i]
    by (cases "f = e") (auto simp: entry_ok_def)
  then show ?thesis
    using pool_invD [OF inv] by (intro pool_invI) (auto split: if_splits)
qed

lemma pool_inv_dial_failed:
  assumes inv: "pool_inv n p us" and i: "i < n" "us i = Dialing addr e"
    and p': "p' = set_entry e ((pl_entry p e)\<lparr>pe_err := Some err, pe_ready := True\<rparr>)
      (p\<lparr>pl_entries := (pl_entries p)(addr := None)\<rparr>)"
  shows "pool_inv n p' (us(i := Idle))"
proof -
  have e: "pl_entries p addr = Some e" "\<not> pe_ready (pl_entry p e)" "at_entry e (us i)"
    using pool_invD(4) [OF inv i(1)] i(2) by simp_all
  have gone: "pl_entries p' a = Some f \<Longrightarrow> pl_entries p a = Some f \<and> f \<noteq> e \<and> a \<noteq> addr" for a f
    using pool_invD(2) [OF inv e(1)] by (auto simp: p' set_entry_def split: if_splits)
  have old: "f \<noteq> e \<Longrightarrow> pl_entry p' f = pl_entry p f" and rest: "pl_nexte p' = pl_nexte p"
      "pl_nextc p' = pl_nextc p" "pl_conns p' = pl_conns p" "pe_ready (pl_entry p' e)"
      "pe_err (pl_entry p' e) = Some err" for f
    by (simp_all add: p' set_entry_def)
  show ?thesis
  proof (rule pool_invI)
    fix a f assume "pl_entries p' a = Some f"
    from gone [OF this] have f: "pl_entries p a = Some f" "f \<noteq> e" by auto
    show "entry_ok p' (users_of n (us(i := Idle)) f) f"
      using pool_invD(1) [OF inv f(1)] users_leave(2) [where us = us and i = i and e = e, OF i(1) e(3) f(2)]
      by (simp add: entry_ok_def old [OF f(2)] rest)
  next
    fix a b f assume "pl_entries p' a = Some f" "pl_entries p' b = Some f"
    then show "a = b" using gone pool_invD(2) [OF inv] by blast
  next
    fix a b f g c assume "pl_entries p' a = Some f" "pl_entries p' b = Some g"
      "pe_conn (pl_entry p' f) = Some c" "pe_conn (pl_entry p' g) = Some c"
    then show "f = g" using gone [of a f] gone [of b g] old [of f] old [of g] pool_invD(3) [OF inv, of a f b g c] by auto
  next
    fix j assume j: "j < n"
    show "user_ok p' ((us(i := Idle)) j)"
    proof (cases "j = i")
      case False
      note ok = pool_invD(4) [OF inv j]
      show ?thesis
      proof (cases "us j")
        case (Dialing a f)
        then have "f \<noteq> e" using pool_invD(5) [OF inv i(1) j i(2)] False by auto
        moreover have "a \<noteq> addr" using ok Dialing e(1) calculation by auto
        ultimately show ?thesis using ok Dialing False by (simp add: p' set_entry_def)
      next
        case (WaitingFor a f)
        then show ?thesis using ok False e(1) by (cases "f = e"; cases "a = addr") (auto simp: p' set_entry_def)
      next
        case (Holding a f c)
        then have "f \<noteq> e" using ok e(2) by auto
        moreover have "a \<noteq> addr" using ok Holding e(1) calculation by auto
        ultimately show ?thesis using ok Holding False by (simp add: p' set_entry_def)
      qed (simp add: False)
    qed simp
  next
    fix j k a b f assume "j < n" "k < n" "(us(i := Idle)) j = Dialing a f" "(us(i := Idle)) k = Dialing b f"
    then show "j = k" using pool_invD(5) [OF inv] by (auto split: if_splits)
  qed
qed

lemma pool_inv_dial_ok:
  assumes inv: "pool_inv n p us" and i: "i < n" "us i = Dialing addr e" and c: "c = pl_nextc p"
    and p': "p' = set_entry e ((pl_entry p e)\<lparr>pe_conn := Some c, pe_ready := True\<rparr>)
      (p\<lparr>pl_nextc := Suc c, pl_conns := (pl_conns p)(c := newConn net (pl_cfg p) (pl_dialer p) addr k)\<rparr>)"
  shows "pool_inv n p' (us(i := Holding addr e c))"
proof -
  let ?us = "us(i := Holding addr e c)"
  have e: "pl_entries p addr = Some e" "\<not> pe_ready (pl_entry p e)"
    using pool_invD(4) [OF inv i(1)] i(2) by simp_all
  have old: "f \<noteq> e \<Longrightarrow> pl_entry p' f = pl_entry p f" and rest: "pl_entries p' = pl_entries p"
      "pl_nexte p' = pl_nexte p" "pl_nextc p' = Suc c" "pe_ready (pl_entry p' e)" "pe_conn (pl_entry p' e) = Some c"
      "pe_err (pl_entry p' e) = pe_err (pl_entry p e)" "pe_refs (pl_entry p' e) = pe_refs (pl_entry p e)"
      "\<not> cn_closed (pl_conns p' c)" "d \<noteq> c \<Longrightarrow> pl_conns p' d = pl_conns p d" for f d
    by (simp_all add: p' set_entry_def newConn_def)
  have count: "users_of n ?us f = users_of n us f" for f
    using users_of_update [OF i(1), of us "Holding addr e c" f] i(2) by simp
  have conn_lt: "pl_entries p a = Some f \<Longrightarrow> pe_conn (pl_entry p f) = Some d \<Longrightarrow> d < c" for a f d
    using pool_invD(1) [OF inv, of a f] by (auto simp: entry_ok_def c split: if_splits)
  show ?thesis
  proof (rule pool_invI)
    fix a f assume "pl_entries p' a = Some f"
    then have f: "pl_entries p a = Some f" by (simp add: rest)
    show "entry_ok p' (users_of n ?us f) f"
    proof (cases "f = e")
      case True
      with pool_invD(1) [OF inv f] show ?thesis by (simp add: entry_ok_def rest count)
    next
      case False
      show ?thesis
        using pool_invD(1) [OF inv f] conn_lt [OF f]
        unfolding entry_ok_def old [OF False] rest count by (auto simp: c rest)
    qed
  next
    fix a b f assume "pl_entries p' a = Some f" "pl_entries p' b = Some f"
    then show "a = b" using pool_invD(2) [OF inv] by (simp add: rest)
  next
    fix a b f g d assume *: "pl_entries p' a = Some f" "pl_entries p' b = Some g"
      "pe_conn (pl_entry p' f) = Some d" "pe_conn (pl_entry p' g) = Some d"
    show "f = g"
    proof (cases "f = e \<or> g = e")
      case True
      then have d: "d = c" using * by (auto simp: rest)
      have "h = e" if "pl_entries p x = Some h" "pe_conn (pl_entry p' h) = Some c" for x h
        using that conn_lt [of x h c] old [of h] by (cases "h = e") auto
      then show ?thesis using * unfolding d rest by blast
    next
      case False
      with * show ?thesis using pool_invD(3) [OF inv, of a f b g d] old [of f] old [of g] by (simp add: rest)
    qed
  next
    fix j assume j: "j < n"
    show "user_ok p' (?us j)"
    proof (cases "j = i")
      case True
      then show ?thesis using e(1) by (simp add: rest)
    next
      case False
      note ok = pool_invD(4) [OF inv j]
      show ?thesis
      proof (cases "us j")
        case (Dialing a f)
        then have "f \<noteq> e" using pool_invD(5) [OF inv i(1) j i(2)] False by auto
        then show ?thesis using ok Dialing False by (simp add: rest old)
      next
        case (WaitingFor a f)
        then show ?thesis using ok False by (cases "f = e") (auto simp: rest old)
      next
        case (Holding a f d)
        then have "f \<noteq> e" using ok e(2) by auto
        then show ?thesis using ok Holding False by (simp add: rest old)
      qed (simp add: False)
    qed
  next
    fix j k a b f assume "j < n" "k < n" "?us j = Dialing a f" "?us k = Dialing b f"
    then show "j = k" using pool_invD(5) [OF inv] by (auto split: if_splits)
  qed
qed

lemma pool_inv_release:
  assumes inv: "pool_inv n p us" and i: "i < n" "us i = Holding addr e c" and rel: "Pool_Release net addr p w = (p', w')"
  shows "pool_inv n p' (us(i := Idle))"
proof -
  have e: "pl_entries p addr = Some e" "pe_conn (pl_entry p e) = Some c" "at_entry e (us i)"
    using pool_invD(4) [OF inv i(1)] i(2) by simp_all
  let ?q = "add_refs (- 1) e p" and ?us = "us(i := Idle)"
  have left: "pool_inv n ?q ?us" using pool_inv_leave [OF inv i(1) e(3)] .
  have refs: "pe_refs (pl_entry ?q e) = users_of n ?us e"
    using pool_invD(1) [OF left, of addr e] e(1) by (simp add: entry_ok_def)
  show ?thesis
  proof (cases "pe_refs (pl_entry ?q e) > 0")
    case True
    with rel e(1) have "p' = ?q" by (simp add: Pool_Release_def Let_def split: if_splits)
    with left show ?thesis by simp
  next
    case False
    then have none: "\<not> at_entry e (?us j)" if "j < n" for j
      using users_of_pos [OF that, of e ?us] refs by auto
    obtain k w1 where k: "AppConn_Close net (pl_conns p c) w = (k, w1)" by (cases "AppConn_Close net (pl_conns p c) w")
    have p': "p' = ?q\<lparr>pl_entries := (pl_entries p)(addr := None), pl_conns := (pl_conns p)(c := k)\<rparr>"
      using rel e(1,2) False k by (simp add: Pool_Release_def close_conn_def Let_def)
    have still: "pl_entries p' a = Some f \<Longrightarrow> pl_entries ?q a = Some f \<and> f \<noteq> e" for a f
      using pool_invD(2) [OF inv e(1)] by (auto simp: p' split: if_splits)
    have same: "pl_entry p' = pl_entry ?q" "pl_nexte p' = pl_nexte ?q" "pl_nextc p' = pl_nextc ?q"
        "d \<noteq> c \<Longrightarrow> pl_conns p' d = pl_conns ?q d" for d
      by (simp_all add: p')
    show ?thesis
    proof (rule pool_invI)
      fix a f assume "pl_entries p' a = Some f"
      from still [OF this] have f: "pl_entries ?q a = Some f" "f \<noteq> e" by auto
      have other: "pe_conn (pl_entry p f) \<noteq> Some c"
        using pool_invD(3) [OF inv _ e(1) _ e(2), of a f] f by auto
      then show "entry_ok p' (users_of n ?us f) f"
        using pool_invD(1) [OF left f(1)] same(4) by (auto simp: entry_ok_def same)
    next
      fix a b f assume "pl_entries p' a = Some f" "pl_entries p' b = Some f"
      then show "a = b" using still pool_invD(2) [OF left] by blast
    next
      fix a b f g d assume "pl_entries p' a = Some f" "pl_entries p' b = Some g"
        "pe_conn (pl_entry p' f) = Some d" "pe_conn (pl_entry p' g) = Some d"
      then show "f = g" using still pool_invD(3) [OF left, of a f b g d] unfolding same by blast
    next
      fix j assume j: "j < n"
      have "user_ok ?q (?us j)" using pool_invD(4) [OF left j] .
      then show "user_ok p' (?us j)"
        using none [OF j] pool_invD(2) [OF inv] e(1)
        by (cases "?us j") (auto simp: p')
    next
      fix j k a b f assume "j < n" "k < n" "?us j = Dialing a f" "?us k = Dialing b f"
      then show "j = k" using pool_invD(5) [OF left] by blast
    qed
  qed
qed

lemma pool_inv_step:
  assumes "pool_step net n (p, w, us) (p', w', us')" and inv: "pool_inv n p us"
  shows "pool_inv n p' us'"
  using assms(1)
proof cases
  case (enter i addr first e)
  then show ?thesis using pool_inv_enter [OF inv] by auto
next
  case (dialed i addr e r x)
  show ?thesis
  proof (cases r)
    case (Inl err)
    with dialed pool_inv_dial_failed [OF inv, of i addr e p' err] show ?thesis by (auto simp: acquire_dialed_def)
  next
    case (Inr k)
    with dialed pool_inv_dial_ok [OF inv, of i addr e "pl_nextc p" p' net k] show ?thesis
      by (auto simp: acquire_dialed_def Let_def)
  qed
next
  case (ready i addr e)
  then show ?thesis using pool_inv_ready [OF inv] by auto
next
  case (cancel i addr e)
  then show ?thesis using pool_inv_leave [OF inv, of i e] by auto
next
  case (release i addr e c)
  then show ?thesis using pool_inv_release [OF inv] by auto
qed

lemma pool_inv_reach: "pool_reach net n (p, w, us) \<Longrightarrow> pool_inv n p us"
proof (induction "(p, w, us)" arbitrary: p w us rule: pool_reach.induct)
  case start
  then show ?case by (simp add: pool_inv_start)
next
  case (step s)
  obtain p1 w1 us1 where s: "s = (p1, w1, us1)" using prod_cases3 by blast
  with step pool_inv_step [of net n p1 w1 us1 p w us] show ?case by simp
qed

section \<open>Properties\<close>

text \<open>
  C15: however many users acquire and release connections in whatever order, each releasing only what
  it acquired and once, and nobody closing the pool, and whichever dials fail or waits are cancelled: a connection that a user holds is not closed and is the pool's
  one for its address, so two users of one address share it; no two users dial for the same
  entry; and the reference count of an entry is the number of its users.
\<close>

theorem pool_sharing_safe:
  assumes "pool_reach net n (p, w, us)" and "i < n" and "j < n"
  shows "(us i = Holding addr e c \<longrightarrow> \<not> cn_closed (pl_conns p c) \<and> pl_entries p addr = Some e \<and>
      pe_refs (pl_entry p e) = users_of n us e \<and> 1 \<le> pe_refs (pl_entry p e)) \<and>
    (us i = Holding addr e c \<longrightarrow> us j = Holding addr f d \<longrightarrow> c = d) \<and>
    (us i = Dialing addr e \<longrightarrow> us j = Dialing addr f \<longrightarrow> i = j)"
proof -
  note inv = pool_inv_reach [OF assms(1)]
  have held: "\<not> cn_closed (pl_conns p c) \<and> pl_entries p addr = Some e \<and>
      pe_refs (pl_entry p e) = users_of n us e \<and> 1 \<le> pe_refs (pl_entry p e)" if "us i = Holding addr e c"
    using pool_invD(4) [OF inv assms(2)] pool_invD(1) [OF inv, of addr e] users_of_pos [OF assms(2), of e us] that
    by (auto simp: entry_ok_def)
  have "c = d" if "us i = Holding addr e c" "us j = Holding addr f d"
    using pool_invD(4) [OF inv assms(2)] pool_invD(4) [OF inv assms(3)] that by auto
  moreover have "i = j" if "us i = Dialing addr e" "us j = Dialing addr f"
    using pool_invD(4) [OF inv assms(2)] pool_invD(4) [OF inv assms(3)] pool_invD(5) [OF inv assms(2,3)] that by auto
  ultimately show ?thesis using held by blast
qed

text \<open>A first user of an address, on the scripted network: it dials and holds connection 0.\<close>

lemma script_dial:
  "Dial_engine (script_net False) SocketDialer cfg script0 = (Inr 1, script0\<lparr>sc_next := 2, sc_replies := [],
     sc_sent := [(0, registrationFrame cfg), (1, commFrame cfg)]\<rparr>)"
  by (simp add: socketDialer_Dial_def script_net_def script0_def register_def recvSignalPath_def script_send_def
      script_recv_def sendComm_def recvAck_def)

definition pool0 :: "nat Pool" where
  "pool0 = NewPool EngineConfig_zero SocketDialer (\<lambda>_. example_conn)"

lemma first_user:
  "\<exists>p w. pool_reach (script_net False) (Suc n) (p, w, (\<lambda>_. Idle)(0 := Holding a 0 0)) \<and>
     pl_entries p = [a \<mapsto> 0] \<and> pe_ready (pl_entry p 0) \<and> pe_refs (pl_entry p 0) = 1 \<and>
     pe_conn (pl_entry p 0) = Some 0 \<and> pe_err (pl_entry p 0) = None"
proof -
  obtain p1 where enter: "acquire_enter a pool0 = ((True, 0), p1)" and p1: "pl_entries p1 = [a \<mapsto> 0]"
      "pe_refs (pl_entry p1 0) = 1" "pe_err (pl_entry p1 0) = None" "pl_nextc p1 = 0"
      "pl_dialer p1 = SocketDialer" "pl_cfg p1 = EngineConfig_zero"
    by (auto simp: acquire_enter_def pool0_def NewPool_def set_entry_def)
  have "pool_reach (script_net False) (Suc n) (pool0, script0, \<lambda>_. Idle)"
    unfolding pool0_def by (rule pool_reach.start)
  then have "pool_reach (script_net False) (Suc n) (p1, script0, (\<lambda>_. Idle)(0 := Dialing a 0))"
    by (rule pool_reach.step) (use pool_step.enter [OF _ _ enter, of 0 "Suc n" "\<lambda>_. Idle" "script_net False" script0] in simp)
  moreover obtain w where w: "Dial_engine (script_net False) SocketDialer EngineConfig_zero script0 = (Inr 1, w)"
    using script_dial by blast
  obtain p2 where d: "acquire_dialed (script_net False) a 0 (Inr 1) p1 = (Inr 0, p2)" and p2: "pl_entries p2 = [a \<mapsto> 0]"
      "pe_ready (pl_entry p2 0)" "pe_refs (pl_entry p2 0) = 1" "pe_conn (pl_entry p2 0) = Some 0" "pe_err (pl_entry p2 0) = None"
    using p1 by (auto simp: acquire_dialed_def set_entry_def Let_def)
  ultimately have "pool_reach (script_net False) (Suc n) (p2, w, (\<lambda>_. Idle)(0 := Holding a 0 0))"
    by (elim pool_reach.step)
      (use pool_step.dialed [OF _ _ _ d, of 0 "Suc n" "(\<lambda>_. Idle)(0 := Dialing a 0)" script0 w] w p1 in simp)
  with p2 show ?thesis by blast
qed

theorem pool_sharing_safe_witness:
  "\<exists>p w. pool_reach (script_net False) 1 (p, w, (\<lambda>_. Idle)(0 := Holding ''a'' 0 0)) \<and> \<not> cn_closed (pl_conns p 0)"
proof -
  obtain p w where reach: "pool_reach (script_net False) (Suc 0) (p, w, (\<lambda>_. Idle)(0 := Holding ''a'' 0 0))"
    using first_user by blast
  from pool_sharing_safe [OF this, of 0 0 "''a''" 0 0] reach show ?thesis by auto
qed

text \<open>
  C37: a cancelled wait can leave a connection open that nobody uses: the waiter's cancellation
  gives its reference back without closing the connection, so after the other user's release
  the entry stays, ready and with no reference, until someone acquires the address again.
\<close>

theorem cancelled_wait_leaks:
  "\<exists>p w c. pool_reach (script_net False) 2 (p, w, \<lambda>_. Idle) \<and> pl_entries p a = Some 0 \<and>
     pe_refs (pl_entry p 0) = 0 \<and> pe_conn (pl_entry p 0) = Some c \<and> \<not> cn_closed (pl_conns p c)"
proof -
  let ?net = "script_net False" and ?h = "(\<lambda>_ :: nat. Idle)(0 := Holding a 0 0)"
  obtain p w where r0: "pool_reach ?net (Suc 1) (p, w, ?h)" and p: "pl_entries p = [a \<mapsto> 0]"
      "pe_refs (pl_entry p 0) = 1" "pe_conn (pl_entry p 0) = Some 0" "pe_ready (pl_entry p 0)"
    using first_user [of 1 a] by blast
  have open0: "\<not> cn_closed (pl_conns p 0)"
    using pool_invD(1) [OF pool_inv_reach [OF r0], of a 0] p by (auto simp: entry_ok_def)
  let ?p1 = "add_refs 1 0 p"
  define us where "us = ?h(1 := WaitingFor a 0)"
  define us' where "us' = us(0 := Idle)"
  have us: "us 0 = Holding a 0 0" "us' 1 = WaitingFor a 0" "us'(1 := Idle) = (\<lambda>_. Idle)"
    by (simp_all add: us_def us'_def fun_eq_iff)
  have "acquire_enter a p = ((False, 0), ?p1)" using p by (simp add: acquire_enter_def)
  from pool_step.enter [OF _ _ this, of 1 "Suc 1" ?h ?net w] have "pool_step ?net (Suc 1) (p, w, ?h) (?p1, w, us)"
    by (simp add: us_def)
  with r0 have r1: "pool_reach ?net (Suc 1) (?p1, w, us)" by (rule pool_reach.step)
  let ?p2 = "add_refs (- 1) 0 ?p1"
  have "Pool_Release ?net a ?p1 w = (?p2, w)" using p by (simp add: Pool_Release_def Let_def)
  from pool_step.release [where us = us and i = 0, OF _ us(1) this, of "Suc 1"]
  have "pool_step ?net (Suc 1) (?p1, w, us) (?p2, w, us')" by (simp add: us'_def)
  with r1 have r2: "pool_reach ?net (Suc 1) (?p2, w, us')" by (rule pool_reach.step)
  from pool_step.cancel [where us = us' and i = 1, OF _ us(2), of "Suc 1" ?net ?p2 w]
  have "pool_step ?net (Suc 1) (?p2, w, us') (add_refs (- 1) 0 ?p2, w, \<lambda>_. Idle)" by (simp only: us(3) lessI)
  with r2 have "pool_reach ?net (Suc 1) (add_refs (- 1) 0 ?p2, w, \<lambda>_. Idle)" by (rule pool_reach.step)
  then have "pool_reach ?net 2 (add_refs (- 1) 0 ?p2, w, \<lambda>_. Idle)" by (simp add: numeral_2_eq_2)
  with p open0 show ?thesis by fastforce
qed

text \<open>
  the address an entry is kept under is not the address that is dialed: every first
  \<open>Acquire\<close> dials with the dialer and configuration the pool was created with, so the pool of an
  earlier configuration connects users of a new address to the earlier engine.
\<close>

theorem pool_dials_first_configuration:
  "fst (the (Pool_Acquire net ctx a (NewPool cfg d none) w)) = fst (the (Pool_Acquire net ctx b (NewPool cfg d none) w)) \<and>
   GlobalPool cfg' d' none (Some (NewPool cfg d none)) = NewPool cfg d none"
  by (simp add: Pool_Acquire_def acquire_enter_def acquire_dialed_def NewPool_def GlobalPool_def set_entry_def Let_def
      split: prod.splits sum.splits)

end
