(* ===== verification/Policy.thy ===== *)
theory Policy
  imports Pool
begin

text \<open>
  The fail-open policy of internal/app/policy.go and the application module of
  internal/app/app.go. Waiting for a verdict may not end, so \<open>await\<close> is a partial function into
  \<open>option\<close>; \<open>None\<close> stands for a call that does not return. Deferred calls run where the
  function returns, the last one first.
\<close>

section \<open>Timing and fail-open default\<close>

definition verdictBudget :: "EngineConfig \<Rightarrow> int" where
  "verdictBudget cfg =
     (let budget = go_int (go_int (ec_MaxRetriesForVerdict cfg * ec_ReqMaxProcessingMs cfg) * 1000000)
      in if budget \<le> 0 then 3000000000 else budget)"

definition failOpenEnabled :: "EngineConfig \<Rightarrow> bool" where
  "failOpenEnabled cfg = (case ec_FailOpen cfg of None \<Rightarrow> True | Some b \<Rightarrow> b)"

definition failOpenVerdict :: "u32 \<Rightarrow> Verdict" where
  "failOpenVerdict sid = \<lparr>vd_Kind = VerdictAccept, vd_SessionID = sid, vd_WebResponse = None, vd_Injections = []\<rparr>"

text \<open>What the policy returns after an error.\<close>

definition on_error :: "EngineConfig \<Rightarrow> u32 \<Rightarrow> terr \<Rightarrow> terr + Verdict" where
  "on_error cfg sid err = (if failOpenEnabled cfg then Inr (failOpenVerdict sid) else Inl err)"

section \<open>Waiting for the verdict\<close>

text \<open>The verdict a frame carries for a session, and whether it puts the session's verdict off.\<close>

definition own_verdict :: "u32 \<Rightarrow> bytes \<Rightarrow> Verdict option" where
  "own_verdict sid payload =
     (case ParseVerdict payload of
        Inl _ \<Rightarrow> None
      | Inr v \<Rightarrow> if vd_SessionID v = sid then Some v else None)"

definition own_delay :: "u32 \<Rightarrow> bytes \<Rightarrow> bool" where
  "own_delay sid payload =
     (case ParseDelayedVerdict payload of Inl _ \<Rightarrow> False | Inr d \<Rightarrow> dv_SessionID d = sid)"

text \<open>The inner loop over the queued frames; \<open>None\<close> within the result when the ring is drained.\<close>

partial_function (option) drain ::
  "('k, 'w) net \<Rightarrow> int \<Rightarrow> u32 \<Rightarrow> 'k Conn \<Rightarrow> 'w \<Rightarrow> (Verdict option \<times> 'w) option" where
  "drain net hold sid c w =
     (case AppConn_recvQueued net c w of
        (Inl _, w) \<Rightarrow> Some (None, w)
      | (Inr q, w) \<Rightarrow>
          (case own_verdict sid q of
             Some vq \<Rightarrow> if vd_Kind vq \<noteq> VerdictInspect then Some (Some vq, w) else drain net hold sid c w
           | None \<Rightarrow>
               if own_delay sid q then drain net hold sid c (nt_sleep net hold w)
               else drain net hold sid c w))"

partial_function (option) await_loop ::
  "('k, 'w) net \<Rightarrow> int \<Rightarrow> int \<Rightarrow> int \<Rightarrow> u32 \<Rightarrow> 'k Conn \<Rightarrow> 'w \<Rightarrow> ((terr + Verdict) \<times> 'w) option" where
  "await_loop net poll hold deadline sid c w =
     (if \<not> nt_now net w < deadline then Some (Inl (ErrCtx DeadlineExceeded), w)
      else case AppConn_recv net (Some deadline) c w of
        (Inl e, w) \<Rightarrow> Some (Inl e, w)
      | (Inr payload, w) \<Rightarrow>
          (case own_verdict sid payload of
             Some v \<Rightarrow>
               if vd_Kind v \<noteq> VerdictInspect then Some (Inr v, w)
               else Option.bind (drain net hold sid c w) (\<lambda>(r, w).
                 case r of
                   Some vq \<Rightarrow> Some (Inr vq, w)
                 | None \<Rightarrow> await_loop net poll hold deadline sid c w)
           | None \<Rightarrow>
               if own_delay sid payload then await_loop net poll hold deadline sid c (nt_sleep net hold w)
               else await_loop net poll hold deadline sid c (nt_sleep net poll w)))"

definition await_poll :: "EngineConfig \<Rightarrow> int" where
  "await_poll cfg = (let poll = ms (ec_FailOpenTimeoutMs cfg) in if poll \<le> 0 then 50000000 else poll)"

definition await_hold :: "EngineConfig \<Rightarrow> int" where
  "await_hold cfg = go_int (go_int (ec_HoldVerdictRetries cfg * ec_HoldVerdictPollingMs cfg) * 1000000)"

definition await :: "('k, 'w) net \<Rightarrow> EngineConfig \<Rightarrow> u32 \<Rightarrow> 'k Conn \<Rightarrow> 'w \<Rightarrow> ((terr + Verdict) \<times> 'w) option" where
  "await net cfg sid c w =
     await_loop net (await_poll cfg) (await_hold cfg) (nt_now net w + verdictBudget cfg) sid c w"

section \<open>Acquiring a verdict\<close>

definition put_conn :: "nat \<Rightarrow> 'k Conn \<Rightarrow> 'k Pool \<Rightarrow> 'k Pool" where
  "put_conn i c p = p\<lparr>pl_conns := (pl_conns p)(i := c)\<rparr>"

text \<open>The two deferred calls, and the first alone where no session was opened.\<close>

definition release_with ::
  "('k, 'w) net \<Rightarrow> EngineConfig \<Rightarrow> 'r \<Rightarrow> 'k Pool \<Rightarrow> 'w \<Rightarrow> 'r \<times> 'k Pool \<times> 'w" where
  "release_with net cfg res p w = (res, Pool_Release net (ec_RegistrationSocket cfg) p w)"

definition finish ::
  "('k, 'w) net \<Rightarrow> EngineConfig \<Rightarrow> nat \<Rightarrow> u32 \<Rightarrow> 'r \<Rightarrow> 'k Conn \<Rightarrow> 'k Pool \<Rightarrow> 'w \<Rightarrow> ('r \<times> 'k Pool \<times> 'w) option" where
  "finish net cfg i sid res c p w =
     Option.bind (EndRequest sid c) (\<lambda>c. Some (release_with net cfg res (put_conn i c p) w))"

definition AcquireVerdict ::
  "('k, 'w) net \<Rightarrow> EngineConfig \<Rightarrow> ctx \<Rightarrow> RequestData \<Rightarrow> 'k Pool \<Rightarrow> 'w \<Rightarrow> ((terr + Verdict) \<times> 'k Pool \<times> 'w) option" where
  "AcquireVerdict net cfg ctx req p w =
     Option.bind (Pool_Acquire net ctx (ec_RegistrationSocket cfg) p w) (\<lambda>(r, p, w).
       case r of
         Inl err \<Rightarrow> Some (on_error cfg 0 err, p, w)
       | Inr i \<Rightarrow>
           Option.bind (SendRequest net req (pl_conns p i) w) (\<lambda>(r, c, w).
             case r of
               Inl err \<Rightarrow> Some (release_with net cfg (on_error cfg 0 err) (put_conn i c p) w)
             | Inr sid \<Rightarrow>
                 Option.bind (await net cfg sid c w) (\<lambda>(v, w).
                   finish net cfg i sid (case v of Inl err \<Rightarrow> on_error cfg sid err | Inr v \<Rightarrow> Inr v) c p w)))"

definition AcquireResponseVerdict ::
  "('k, 'w) net \<Rightarrow> EngineConfig \<Rightarrow> ctx \<Rightarrow> int \<Rightarrow> int \<Rightarrow> bytes \<Rightarrow> 'k Pool \<Rightarrow> 'w \<Rightarrow>
   ((terr + Verdict) \<times> 'k Pool \<times> 'w) option" where
  "AcquireResponseVerdict net cfg ctx code contentLength body p w =
     Option.bind (Pool_Acquire net ctx (ec_RegistrationSocket cfg) p w) (\<lambda>(r, p, w).
       case r of
         Inl err \<Rightarrow> Some (on_error cfg 0 err, p, w)
       | Inr i \<Rightarrow>
           Option.bind (SendResponse net code contentLength (pl_conns p i) w) (\<lambda>(r, c, w).
             case r of
               Inl err \<Rightarrow> Some (release_with net cfg (on_error cfg 0 err) (put_conn i c p) w)
             | Inr sid \<Rightarrow>
                 (case SendResponseBody net sid body True c w of
                    (Some err, c, w) \<Rightarrow> finish net cfg i sid (on_error cfg sid err) c p w
                  | (None, c, w) \<Rightarrow>
                      Option.bind (await net cfg sid c w) (\<lambda>(v, w).
                        finish net cfg i sid (case v of Inl err \<Rightarrow> on_error cfg sid err | Inr v \<Rightarrow> Inr v) c p w))))"

section \<open>The application module\<close>

text \<open>Whether the module has a pool and the configuration of its policy; the pool is the process's.\<close>

record App =
  app_Config :: EngineConfig
  app_pool :: bool
  app_policy :: "EngineConfig option"

definition App_Provision :: "(nat \<Rightarrow> 'k Conn) \<Rightarrow> App \<times> 'k Pool option \<Rightarrow> App \<times> 'k Pool option" where
  "App_Provision none = (\<lambda>(a, g).
     (a\<lparr>app_pool := True, app_policy := Some (app_Config a)\<rparr>,
      if app_pool a then g else Some (GlobalPool (app_Config a) (NewDialer (app_Config a)) none g)))"

text \<open>The wait of \<open>Start\<close> is bounded: when it waits for another's dial, the timeout ends it.\<close>

definition App_Start :: "('k, 'w) net \<Rightarrow> App \<Rightarrow> 'k Pool \<Rightarrow> 'w \<Rightarrow> (terr option \<times> 'k Pool \<times> 'w) option" where
  "App_Start net a p w =
     Option.bind (Pool_Acquire net (Some DeadlineExceeded) (ec_RegistrationSocket (app_Config a)) p w)
       (\<lambda>(r, p, w). case r of
          Inl err \<Rightarrow> Some (if \<not> failOpenEnabled (app_Config a) then Some err else None, p, w)
        | Inr _ \<Rightarrow> Some (None, p, w))"

definition App_Stop :: "('k, 'w) net \<Rightarrow> App \<Rightarrow> 'k Pool \<Rightarrow> 'w \<Rightarrow> 'k Pool \<times> 'w" where
  "App_Stop net a p w = Pool_Release net (ec_RegistrationSocket (app_Config a)) p w"

definition App_Cleanup :: "('k, 'w) net \<Rightarrow> App \<Rightarrow> 'k Pool \<Rightarrow> 'w \<Rightarrow> 'k Pool \<times> 'w" where
  "App_Cleanup = App_Stop"

section \<open>Waiting ends\<close>

text \<open>
  An engine that sends finitely many frames: \<open>left\<close> bounds the number still to come; a receive
  that returns a frame uses one up, and neither time nor an empty poll makes new ones.
\<close>

locale finite_engine =
  fixes net :: "('k, 'w) net" and left :: "'w \<Rightarrow> nat"
  assumes recv: "nt_recv net k d w = (Inr x, w') \<Longrightarrow> left w' < left w"
    and queued: "nt_recvQueued net k w = (Inr x, w') \<Longrightarrow> left w' < left w"
    and empty: "nt_recvQueued net k w = (Inl e, w') \<Longrightarrow> left w' \<le> left w"
    and sleep: "left (nt_sleep net t w) \<le> left w"
begin

lemma conn_queued: "AppConn_recvQueued net c w = (Inr q, w') \<Longrightarrow> left w' < left w"
  by (auto simp: AppConn_recvQueued_def split: if_splits dest: queued)

lemma conn_empty: "AppConn_recvQueued net c w = (Inl e, w') \<Longrightarrow> left w' \<le> left w"
  by (auto simp: AppConn_recvQueued_def split: if_splits dest: empty)

lemma conn_recv: "AppConn_recv net d c w = (Inr q, w') \<Longrightarrow> left w' < left w"
  by (auto simp: AppConn_recv_def split: if_splits dest: recv)

lemma drain_returns: "\<exists>r w'. drain net hold sid c w = Some (r, w') \<and> left w' \<le> left w"
proof (induction "left w" arbitrary: w rule: less_induct)
  case less
  obtain x w1 where x: "AppConn_recvQueued net c w = (x, w1)" by (cases "AppConn_recvQueued net c w")
  show ?case
  proof (cases x)
    case (Inl e)
    with x conn_empty [of c w e w1] show ?thesis by (simp add: drain.simps [of net hold sid c w])
  next
    case (Inr q)
    with x have lt: "left w1 < left w" by (auto dest: conn_queued)
    then have lt': "left (nt_sleep net hold w1) < left w" using sleep [of hold w1] by simp
    from less [OF lt] less [OF lt'] lt lt' x Inr show ?thesis
      by (subst drain.simps) (auto split: option.splits intro: order_trans less_imp_le)
  qed
qed

lemma await_loop_returns: "\<exists>y. await_loop net poll hold deadline sid c w = Some y"
proof (induction "left w" arbitrary: w rule: less_induct)
  case less
  obtain x w1 where x: "AppConn_recv net (Some deadline) c w = (x, w1)"
    by (cases "AppConn_recv net (Some deadline) c w")
  show ?case
  proof (cases x)
    case (Inl e)
    with x show ?thesis by (simp add: await_loop.simps [of net poll hold deadline sid c w])
  next
    case (Inr q)
    with x have lt: "left w1 < left w" by (auto dest: conn_recv)
    have later: "\<exists>y. await_loop net poll hold deadline sid c (nt_sleep net d w1) = Some y" for d
      by (rule less) (use sleep [of d w1] lt in simp)
    obtain r w2 where d: "drain net hold sid c w1 = Some (r, w2)" "left w2 \<le> left w1"
      using drain_returns by blast
    with lt have "\<exists>y. await_loop net poll hold deadline sid c w2 = Some y" by (intro less) simp
    with x Inr d(1) later show ?thesis
      by (subst await_loop.simps) (auto split: option.splits)
  qed
qed

lemma await_returns: "\<exists>y. await net cfg sid c w = Some y"
  unfolding await_def by (rule await_loop_returns)

end

interpretation scripted: finite_engine "script_net ring" "\<lambda>w. length (sc_replies w) + length (sc_queued w)" for ring
  by unfold_locales
    (auto simp: script_net_def script_recv_def split: list.splits option.splits)

section \<open>Where verdicts come from\<close>

text \<open>The network with a record of the frames it delivered.\<close>

definition rx_tap :: "('k, 'w) net \<Rightarrow> ('k, 'w \<times> bytes list) net" where
  "rx_tap net = \<lparr>
     nt_connect = (\<lambda>m a (w, l). apsnd (\<lambda>w. (w, l)) (nt_connect net m a w)),
     nt_openRing = (\<lambda>n c (w, l). apsnd (\<lambda>w. (w, l)) (nt_openRing net n c w)),
     nt_send = (\<lambda>k b (w, l). apsnd (\<lambda>w. (w, l)) (nt_send net k b w)),
     nt_recv = (\<lambda>k d (w, l). case nt_recv net k d w of
        (Inr b, w) \<Rightarrow> (Inr b, (w, l @ [b])) | (Inl e, w) \<Rightarrow> (Inl e, (w, l))),
     nt_close = (\<lambda>k (w, l). (nt_close net k w, l)),
     nt_is_ring = nt_is_ring net,
     nt_recvQueued = (\<lambda>k (w, l). case nt_recvQueued net k w of
        (Inr b, w) \<Rightarrow> (Inr b, (w, l @ [b])) | (Inl e, w) \<Rightarrow> (Inl e, (w, l))),
     nt_signal = (\<lambda>k s (w, l). apsnd (\<lambda>w. (w, l)) (nt_signal net k s w)),
     nt_now = (\<lambda>(w, l). nt_now net w),
     nt_sleep = (\<lambda>d (w, l). (nt_sleep net d w, l))\<rparr>"

text \<open>A final verdict of a session that one of the delivered frames carries.\<close>

definition genuine :: "u32 \<Rightarrow> Verdict \<Rightarrow> bytes list \<Rightarrow> bool" where
  "genuine sid v log \<longleftrightarrow> (\<exists>q \<in> set log. own_verdict sid q = Some v) \<and> vd_Kind v \<noteq> VerdictInspect"

lemma genuine_mono: "genuine sid v l \<Longrightarrow> set l \<subseteq> set l' \<Longrightarrow> genuine sid v l'"
  by (auto simp: genuine_def)

lemma tap_queued:
  "AppConn_recvQueued (rx_tap net) c s = (r, s') \<Longrightarrow>
   set (snd s) \<subseteq> set (snd s') \<and> (case r of Inr q \<Rightarrow> q \<in> set (snd s') | Inl _ \<Rightarrow> True)"
  by (cases s) (auto simp: AppConn_recvQueued_def rx_tap_def split: if_splits prod.splits sum.splits)

lemma tap_recv:
  "AppConn_recv (rx_tap net) d c s = (r, s') \<Longrightarrow>
   set (snd s) \<subseteq> set (snd s') \<and> (case r of Inr q \<Rightarrow> q \<in> set (snd s') | Inl _ \<Rightarrow> True)"
  by (cases s) (auto simp: AppConn_recv_def rx_tap_def split: if_splits prod.splits sum.splits)

lemma tap_sleep: "snd (nt_sleep (rx_tap net) d s) = snd s"
  by (cases s) (simp add: rx_tap_def)

text \<open>
  What a call has at most done to the log, and what it may return: \<open>verdict_of\<close> picks the verdict
  out of a result.
\<close>

definition tapped :: "('r \<Rightarrow> Verdict option) \<Rightarrow> u32 \<Rightarrow> 'w \<times> bytes list \<Rightarrow> 'r \<times> 'w \<times> bytes list \<Rightarrow> bool" where
  "tapped verdict_of sid s y \<longleftrightarrow> set (snd s) \<subseteq> set (snd (snd y)) \<and>
     (case verdict_of (fst y) of Some v \<Rightarrow> genuine sid v (snd (snd y)) | None \<Rightarrow> True)"

lemma tapped_later: "tapped f sid s1 y \<Longrightarrow> set (snd s) \<subseteq> set (snd s1) \<Longrightarrow> tapped f sid s y"
  by (auto simp: tapped_def)

lemma tapped_pair: "tapped f sid s (r, s') \<longleftrightarrow> set (snd s) \<subseteq> set (snd s') \<and>
    (case f r of Some v \<Rightarrow> genuine sid v (snd s') | None \<Rightarrow> True)"
  unfolding tapped_def fst_conv snd_conv ..

lemma drain_tapped:
  assumes "drain net' hold sid c s = Some y" and "net' = rx_tap net"
  shows "tapped (\<lambda>r. r) sid s y"
proof -
  have "net' = rx_tap net \<longrightarrow> tapped (\<lambda>r. r) sid s y"
  proof (rule drain.raw_induct [where P = "\<lambda>net' hold sid c s y. net' = rx_tap net \<longrightarrow> tapped (\<lambda>r. r) sid s y", OF _ assms(1)],
      intro impI)
    fix loop :: "('b, 'a \<times> bytes list) net \<Rightarrow> int \<Rightarrow> u32 \<Rightarrow> 'b Conn \<Rightarrow> 'a \<times> bytes list \<Rightarrow> (Verdict option \<times> 'a \<times> bytes list) option"
      and n hold sid c s y
    assume IH: "\<And>n hold sid c s y. loop n hold sid c s = Some y \<Longrightarrow> n = rx_tap net \<longrightarrow> tapped (\<lambda>r. r) sid s y"
      and body: "(case AppConn_recvQueued n c s of
          (Inl _, w) \<Rightarrow> Some (None, w)
        | (Inr q, w) \<Rightarrow>
            (case own_verdict sid q of
               None \<Rightarrow> if own_delay sid q then loop n hold sid c (nt_sleep n hold w) else loop n hold sid c w
             | Some vq \<Rightarrow> if vd_Kind vq \<noteq> VerdictInspect then Some (Some vq, w) else loop n hold sid c w)) = Some y"
      and n: "n = rx_tap net"
    obtain x s1 where x: "AppConn_recvQueued (rx_tap net) c s = (x, s1)"
      by (cases "AppConn_recvQueued (rx_tap net) c s")
    note t = tap_queued [OF x] and sl = tap_sleep [of net hold s1]
    have again: "tapped (\<lambda>r. r) sid s y" if "loop n hold sid c s0 = Some y" "snd s0 = snd s1" for s0
      using IH [OF that(1)] n t that(2) tapped_later [of _ sid s0 y s] by simp
    show "tapped (\<lambda>r. r) sid s y"
      using body x n t again [of s1] again [of "nt_sleep n hold s1"] sl
      by (auto simp: tapped_pair genuine_def split: sum.splits option.splits if_splits)
  qed
  with assms(2) show ?thesis by blast
qed

lemma await_loop_tapped:
  assumes "await_loop net' poll hold deadline sid c s = Some y" and "net' = rx_tap net"
  shows "tapped (\<lambda>r. case r of Inr v \<Rightarrow> Some v | Inl _ \<Rightarrow> None) sid s y"
proof -
  let ?T = "tapped (\<lambda>r :: terr + Verdict. case r of Inr v \<Rightarrow> Some v | Inl _ \<Rightarrow> None)"
  have "net' = rx_tap net \<longrightarrow> ?T sid s y"
  proof (rule await_loop.raw_induct [where P = "\<lambda>net' poll hold deadline sid c s y. net' = rx_tap net \<longrightarrow> ?T sid s y", OF _ assms(1)],
      intro impI)
    fix loop :: "('b, 'a \<times> bytes list) net \<Rightarrow> int \<Rightarrow> int \<Rightarrow> int \<Rightarrow> u32 \<Rightarrow> 'b Conn \<Rightarrow> 'a \<times> bytes list \<Rightarrow>
        ((terr + Verdict) \<times> 'a \<times> bytes list) option"
      and n poll hold deadline sid c s y
    assume IH: "\<And>n poll hold deadline sid c s y. loop n poll hold deadline sid c s = Some y \<Longrightarrow>
        n = rx_tap net \<longrightarrow> ?T sid s y"
      and body: "(if \<not> nt_now n s < deadline then Some (Inl (ErrCtx DeadlineExceeded), s)
        else case AppConn_recv n (Some deadline) c s of
          (Inl e, w) \<Rightarrow> Some (Inl e, w)
        | (Inr payload, w) \<Rightarrow>
            (case own_verdict sid payload of
               None \<Rightarrow>
                 if own_delay sid payload then loop n poll hold deadline sid c (nt_sleep n hold w)
                 else loop n poll hold deadline sid c (nt_sleep n poll w)
             | Some v \<Rightarrow>
                 if vd_Kind v \<noteq> VerdictInspect then Some (Inr v, w)
                 else Option.bind (drain n hold sid c w) (\<lambda>(r, w).
                   case r of None \<Rightarrow> loop n poll hold deadline sid c w | Some vq \<Rightarrow> Some (Inr vq, w)))) = Some y"
      and n: "n = rx_tap net"
    obtain x s1 where x: "AppConn_recv (rx_tap net) (Some deadline) c s = (x, s1)"
      by (cases "AppConn_recv (rx_tap net) (Some deadline) c s")
    note t = tap_recv [OF x]
    have again: "?T sid s y" if "loop n poll hold deadline sid c s0 = Some y" "set (snd s1) \<subseteq> set (snd s0)" for s0
      using IH [OF that(1)] n t that(2) tapped_later [of _ sid s0 y s] by auto
    have drained: "?T sid s y"
      if d: "drain n hold sid c s1 = Some (r, s2)"
        and "(case r of None \<Rightarrow> loop n poll hold deadline sid c s2 | Some vq \<Rightarrow> Some (Inr vq, s2)) = Some y" for r s2
      using drain_tapped [OF d n] that(2) again [of s2] t
      by (auto simp: tapped_pair split: option.splits)
    show "?T sid s y"
    proof (cases "nt_now n s < deadline \<and> (\<exists>q. x = Inr q)")
      case False
      with body x n t show ?thesis by (auto simp: tapped_pair split: sum.splits if_splits)
    next
      case True
      then obtain q where q: "x = Inr q" "nt_now n s < deadline" by blast
      with t have log: "set (snd s) \<subseteq> set (snd s1)" "q \<in> set (snd s1)" by auto
      show ?thesis
      proof (cases "own_verdict sid q")
        case None
        with body x n q log again [of "nt_sleep n poll s1"] again [of "nt_sleep n hold s1"] show ?thesis
          by (simp add: tap_sleep split: if_splits)
      next
        case (Some v)
        with body x n q log drained show ?thesis
          by (auto simp: tapped_pair genuine_def bind_eq_Some_conv split: if_splits)
      qed
    qed
  qed
  with assms(2) show ?thesis by blast
qed

lemma await_genuine:
  assumes "await (rx_tap net) cfg sid c s = Some (Inr v, s')"
  shows "genuine sid v (snd s')"
  using await_loop_tapped [OF assms [unfolded await_def] refl] by (simp add: tapped_def)

lemma tap_release: "snd (snd (Pool_Release (rx_tap net) addr p s)) = snd s"
  by (cases s)
    (simp add: Pool_Release_def close_conn_def AppConn_Close_def rx_tap_def Let_def split: option.splits prod.splits)

lemma tap_finish:
  "finish (rx_tap net) cfg i sid res c p s = Some (r, p', s') \<Longrightarrow> r = res \<and> snd s' = snd s"
  using tap_release [of net "ec_RegistrationSocket cfg" "put_conn i (the (EndRequest sid c)) p" s]
  by (auto simp: finish_def release_with_def bind_eq_Some_conv)

lemma tap_release_with: "release_with (rx_tap net) cfg res p s = (r, p', s') \<Longrightarrow> r = res"
  by (simp add: release_with_def)

text \<open>
  The session a call opens: the next id of the connection it acquires. What the policy may return,
  given this session and the frames delivered.
\<close>

definition own_session :: "('k, 'w) net \<Rightarrow> EngineConfig \<Rightarrow> ctx \<Rightarrow> 'k Pool \<Rightarrow> 'w \<Rightarrow> u32 \<Rightarrow> bool" where
  "own_session net cfg ctx p w sid \<longleftrightarrow>
     (\<exists>i p' w'. Pool_Acquire net ctx (ec_RegistrationSocket cfg) p w = Some (Inr i, p', w') \<and>
        sid = fst (Allocate (cn_sessions (pl_conns p' i))))"

definition policy_ok :: "(u32 \<Rightarrow> bool) \<Rightarrow> EngineConfig \<Rightarrow> terr + Verdict \<Rightarrow> bytes list \<Rightarrow> bool" where
  "policy_ok own cfg r log \<longleftrightarrow> (case r of
     Inl _ \<Rightarrow> \<not> failOpenEnabled cfg
   | Inr v \<Rightarrow> (\<exists>sid. own sid \<and> genuine sid v log) \<or> failOpenEnabled cfg \<and> (\<exists>sid. v = failOpenVerdict sid))"

lemma SendRequest_sid: "SendRequest net req c w = Some (Inr sid, c', w') \<Longrightarrow> sid = fst (Allocate (cn_sessions c))"
  by (auto simp: SendRequest_def lockFlow_def bind_eq_Some_conv Let_def split: if_splits prod.splits option.splits)

lemma SendResponse_sid: "SendResponse net code len c w = Some (Inr sid, c', w') \<Longrightarrow> sid = fst (Allocate (cn_sessions c))"
  by (auto simp: SendResponse_def lockFlow_def bind_eq_Some_conv Let_def split: if_splits prod.splits option.splits)

lemma policy_ok_error [simp]: "policy_ok own cfg (on_error cfg sid e) log"
  by (auto simp: policy_ok_def on_error_def)

lemma policy_ok_await:
  assumes "await (rx_tap net) cfg sid c s = Some (v, s1)"
    and "finish (rx_tap net) cfg i sid (case v of Inl err \<Rightarrow> on_error cfg sid err | Inr v \<Rightarrow> Inr v) c p s1 = Some (r, p', s')"
    and "own sid"
  shows "policy_ok own cfg r (snd s')"
  using assms tap_finish [OF assms(2)]
  by (cases v) (auto simp: policy_ok_def [of _ _ "Inr _"] dest: await_genuine)

lemma AcquireVerdict_ok:
  assumes "AcquireVerdict (rx_tap net) cfg ctx req p s = Some (r, p', s')"
  shows "policy_ok (own_session (rx_tap net) cfg ctx p s) cfg r (snd s')"
proof -
  obtain x p1 s1 where a: "Pool_Acquire (rx_tap net) ctx (ec_RegistrationSocket cfg) p s = Some (x, p1, s1)"
    using assms by (auto simp: AcquireVerdict_def bind_eq_Some_conv)
  show ?thesis
  proof (cases x)
    case (Inl e)
    with a assms show ?thesis by (auto simp: AcquireVerdict_def)
  next
    case (Inr i)
    with a assms obtain y c s2 where q: "SendRequest (rx_tap net) req (pl_conns p1 i) s1 = Some (y, c, s2)"
      by (auto simp: AcquireVerdict_def bind_eq_Some_conv)
    have own: "own_session (rx_tap net) cfg ctx p s sid" if "y = Inr sid" for sid
      using a q that Inr by (auto simp: own_session_def dest: SendRequest_sid)
    with q a assms Inr show ?thesis
      by (cases y) (auto simp: AcquireVerdict_def bind_eq_Some_conv dest: tap_release_with intro: policy_ok_await)
  qed
qed

lemma AcquireResponseVerdict_ok:
  assumes "AcquireResponseVerdict (rx_tap net) cfg ctx code len body p s = Some (r, p', s')"
  shows "policy_ok (own_session (rx_tap net) cfg ctx p s) cfg r (snd s')"
proof -
  obtain x p1 s1 where a: "Pool_Acquire (rx_tap net) ctx (ec_RegistrationSocket cfg) p s = Some (x, p1, s1)"
    using assms by (auto simp: AcquireResponseVerdict_def bind_eq_Some_conv)
  show ?thesis
  proof (cases x)
    case (Inl e)
    with a assms show ?thesis by (auto simp: AcquireResponseVerdict_def)
  next
    case (Inr i)
    with a assms obtain y c s2 where q: "SendResponse (rx_tap net) code len (pl_conns p1 i) s1 = Some (y, c, s2)"
      by (auto simp: AcquireResponseVerdict_def bind_eq_Some_conv)
    show ?thesis
    proof (cases y)
      case Inl
      with a assms \<open>x = Inr i\<close> q show ?thesis by (auto simp: AcquireResponseVerdict_def dest: tap_release_with)
    next
      case (Inr sid)
      with a q \<open>x = Inr i\<close> have own: "own_session (rx_tap net) cfg ctx p s sid"
        by (auto simp: own_session_def dest: SendResponse_sid)
      obtain z c2 s3 where b: "SendResponseBody (rx_tap net) sid body True c s2 = (z, c2, s3)" using prod_cases3 by blast
      with own a assms \<open>x = Inr i\<close> q Inr show ?thesis
        by (cases z) (auto simp: AcquireResponseVerdict_def bind_eq_Some_conv dest: tap_finish intro: policy_ok_await)
    qed
  qed
qed

section \<open>What is given back\<close>

text \<open>A pool with a ready entry that someone holds, its connection open and its flow lock free.\<close>

definition pool_ready :: "string \<Rightarrow> nat \<Rightarrow> nat \<Rightarrow> 'k Pool \<Rightarrow> bool" where
  "pool_ready addr e i p \<longleftrightarrow> pl_entries p addr = Some e \<and> pe_ready (pl_entry p e) \<and> pe_err (pl_entry p e) = None \<and>
     pe_conn (pl_entry p e) = Some i \<and> 1 \<le> pe_refs (pl_entry p e) \<and> \<not> cn_flowHeld (pl_conns p i)"

text \<open>What a call may have changed: the transport below the connection, and nothing else.\<close>

definition pool_kept :: "nat \<Rightarrow> 'k Pool \<Rightarrow> 'k Pool \<Rightarrow> bool" where
  "pool_kept i p p' \<longleftrightarrow> (\<exists>c. p' = put_conn i c p \<and> session_over (pl_conns p i) c)"

lemma ready_acquire:
  "pool_ready addr e i p \<Longrightarrow> Pool_Acquire net ctx addr p w = Some (Inr i, add_refs 1 e p, w)"
  by (simp add: pool_ready_def Pool_Acquire_def acquire_enter_def acquire_ready_def add_refs_def set_entry_def)

lemma ready_release:
  "pool_ready addr e i p \<Longrightarrow> Pool_Release net addr (put_conn i c (add_refs 1 e p)) w = (put_conn i c p, w)"
  by (simp add: pool_ready_def Pool_Release_def put_conn_def add_refs_def set_entry_def Let_def)

lemma ready_finish:
  assumes "pool_ready (ec_RegistrationSocket cfg) e i p" and "session_open (pl_conns p i) sid c"
    and "finish net cfg i sid res c (add_refs 1 e p) w = Some (r, p', w')"
  shows "pool_kept i p p'"
  using assms(3) EndRequest_over [OF assms(2)] ready_release [OF assms(1), of net _ w]
  by (auto simp: finish_def release_with_def pool_kept_def bind_eq_Some_conv)

lemma ready_release_with:
  assumes "pool_ready (ec_RegistrationSocket cfg) e i p" and "session_over (pl_conns p i) c"
    and "release_with net cfg res (put_conn i c (add_refs 1 e p)) w = (r, p', w')"
  shows "pool_kept i p p'"
  using assms(2,3) ready_release [OF assms(1), of net c w] by (auto simp: release_with_def pool_kept_def)

lemma AcquireVerdict_kept:
  assumes "pool_ready (ec_RegistrationSocket cfg) e i p" and "AcquireVerdict net cfg ctx req p w = Some (r, p', w')"
  shows "pool_kept i p p'"
proof -
  have "\<not> cn_flowHeld (pl_conns p i)" using assms(1) by (simp add: pool_ready_def)
  from SendRequest_balanced [OF this, of net req w] obtain x c w1 where
    s: "SendRequest net req (pl_conns p i) w = Some (x, c, w1)"
      "case x of Inr sid \<Rightarrow> session_open (pl_conns p i) sid c | Inl _ \<Rightarrow> session_over (pl_conns p i) c" by blast
  show ?thesis
    using assms(2) s ready_acquire [OF assms(1), of net ctx w]
    by (cases x) (auto simp: AcquireVerdict_def bind_eq_Some_conv
        dest: ready_finish [OF assms(1)] ready_release_with [OF assms(1)])
qed

lemma AcquireResponseVerdict_kept:
  assumes "pool_ready (ec_RegistrationSocket cfg) e i p"
    and "AcquireResponseVerdict net cfg ctx code len body p w = Some (r, p', w')"
  shows "pool_kept i p p'"
proof -
  have "\<not> cn_flowHeld (pl_conns p i)" using assms(1) by (simp add: pool_ready_def)
  from SendResponse_balanced [OF this, of net code len w] obtain x c w1 where
    s: "SendResponse net code len (pl_conns p i) w = Some (x, c, w1)"
      "case x of Inr sid \<Rightarrow> session_open (pl_conns p i) sid c | Inl _ \<Rightarrow> session_over (pl_conns p i) c" by blast
  show ?thesis
  proof (cases x)
    case (Inl err)
    with assms(2) s ready_acquire [OF assms(1), of net ctx w] show ?thesis
      by (auto simp: AcquireResponseVerdict_def dest: ready_release_with [OF assms(1)])
  next
    case (Inr sid)
    obtain y c2 w2 where b: "SendResponseBody net sid body True c w1 = (y, c2, w2)" using prod_cases3 by blast
    have "session_open (pl_conns p i) sid c2"
      using session_open_same [OF _ AppConn_send_same [OF b [unfolded SendResponseBody_def]]] s(2) Inr by simp
    with assms(2) s(1) Inr b ready_acquire [OF assms(1), of net ctx w] show ?thesis
      by (auto simp: AcquireResponseVerdict_def bind_eq_Some_conv split: option.split_asm
          dest: ready_finish [OF assms(1)])
  qed
qed

text \<open>Either call gives the pool as \<open>Acquire\<close> left it when that failed, and otherwise releases once at its end.\<close>

lemma ending_releases:
  "release_with net cfg res (put_conn i c p) w = (r, p', w') \<Longrightarrow>
     \<exists>c w2. Pool_Release net (ec_RegistrationSocket cfg) (put_conn i c p) w2 = (p', w')"
  "finish net cfg i sid res c p w = Some (r, p', w') \<Longrightarrow>
     \<exists>c w2. Pool_Release net (ec_RegistrationSocket cfg) (put_conn i c p) w2 = (p', w')"
  by (auto simp: finish_def release_with_def bind_eq_Some_conv)

lemma calls_release:
  assumes "AcquireVerdict net cfg ctx req p w = Some (r, p', w') \<or>
      AcquireResponseVerdict net cfg ctx code len body p w = Some (r, p', w')"
    and addr: "addr = ec_RegistrationSocket cfg" and acq: "Pool_Acquire net ctx addr p w = Some (x, p1, w1)"
  shows "case x of Inl err \<Rightarrow> p' = p1 | Inr i \<Rightarrow> \<exists>c w2. Pool_Release net addr (put_conn i c p1) w2 = (p', w')"
proof (cases x)
  case (Inl err)
  with assms show ?thesis by (auto simp: AcquireVerdict_def AcquireResponseVerdict_def)
next
  case (Inr i)
  from assms(1) have "\<exists>c w2. Pool_Release net addr (put_conn i c p1) w2 = (p', w')"
  proof
    assume "AcquireVerdict net cfg ctx req p w = Some (r, p', w')"
    with acq Inr addr obtain y c w2 where s: "SendRequest net req (pl_conns p1 i) w1 = Some (y, c, w2)"
      by (auto simp: AcquireVerdict_def bind_eq_Some_conv)
    with \<open>AcquireVerdict net cfg ctx req p w = Some (r, p', w')\<close> acq Inr addr show ?thesis
      by (cases y) (auto simp: AcquireVerdict_def bind_eq_Some_conv dest: ending_releases)
  next
    assume "AcquireResponseVerdict net cfg ctx code len body p w = Some (r, p', w')"
    with acq Inr addr obtain y c w2 where s: "SendResponse net code len (pl_conns p1 i) w1 = Some (y, c, w2)"
      by (auto simp: AcquireResponseVerdict_def bind_eq_Some_conv)
    with \<open>AcquireResponseVerdict net cfg ctx code len body p w = Some (r, p', w')\<close> acq Inr addr show ?thesis
      by (cases y) (auto simp: AcquireResponseVerdict_def bind_eq_Some_conv dest: ending_releases
          split: prod.split_asm option.split_asm)
  qed
  with Inr show ?thesis by simp
qed

lemma waiting_gives_back:
  assumes "pl_entries p addr = Some e \<and> \<not> pe_ready (pl_entry p e)"
    and "AcquireVerdict net cfg ctx req p w = Some (r, p', w') \<or>
      AcquireResponseVerdict net cfg ctx code len body p w = Some (r, p', w')"
    and addr: "addr = ec_RegistrationSocket cfg"
  shows "p' = p"
proof -
  have undone: "add_refs (- 1) e (add_refs 1 e p) = p" by (simp add: add_refs_def set_entry_def)
  have "ctx \<noteq> None"
  proof
    assume "ctx = None"
    with assms(1) have "Pool_Acquire net ctx addr p w = None"
      by (simp add: Pool_Acquire_def acquire_enter_def add_refs_def set_entry_def)
    with assms(2) addr show False by (auto simp: AcquireVerdict_def AcquireResponseVerdict_def)
  qed
  then obtain x where "ctx = Some x" by blast
  with assms(1) undone have "Pool_Acquire net ctx addr p w = Some (Inl (ErrCtx x), p, w)"
    by (simp add: Pool_Acquire_def acquire_enter_def add_refs_def set_entry_def)
  from calls_release [OF assms(2) addr this] show ?thesis by simp
qed

lemma dialer_gives_back:
  assumes "pl_entries p addr = None"
    and "AcquireVerdict net cfg ctx req p w = Some (r, p', w') \<or>
      AcquireResponseVerdict net cfg ctx code len body p w = Some (r, p', w')"
    and addr: "addr = ec_RegistrationSocket cfg"
  shows "pl_entries p' = pl_entries p \<and> (\<forall>e < pl_nexte p. pl_entry p' e = pl_entry p e) \<and>
    (\<forall>j < pl_nextc p. pl_conns p' j = pl_conns p j) \<and>
    (\<forall>j \<ge> pl_nextc p. j < pl_nextc p' \<longrightarrow> cn_closed (pl_conns p' j))"
proof -
  have gone: "(pl_entries p)(addr := None) = pl_entries p" using assms(1) by auto
  obtain x w1 where dial: "Dial_engine net (pl_dialer p) (pl_cfg p) w = (x, w1)" by force
  show ?thesis
  proof (cases x)
    case (Inl err)
    with assms(1) dial obtain p1 where "Pool_Acquire net ctx addr p w = Some (Inl err, p1, w1)"
      and p1: "pl_entries p1 = pl_entries p" "\<forall>e < pl_nexte p. pl_entry p1 e = pl_entry p e"
        "pl_conns p1 = pl_conns p" "pl_nextc p1 = pl_nextc p"
      using gone by (auto simp: Pool_Acquire_def acquire_enter_def acquire_dialed_def set_entry_def Let_def)
    from calls_release [OF assms(2) addr this(1)] p1 show ?thesis by simp
  next
    case (Inr k)
    let ?i = "pl_nextc p"
    from assms(1) dial Inr obtain p1 where "Pool_Acquire net ctx addr p w = Some (Inr ?i, p1, w1)"
      and p1: "pl_entries p1 = (pl_entries p)(addr \<mapsto> pl_nexte p)" "\<forall>e < pl_nexte p. pl_entry p1 e = pl_entry p e"
        "pe_refs (pl_entry p1 (pl_nexte p)) = 1" "pe_conn (pl_entry p1 (pl_nexte p)) = Some ?i"
        "\<forall>j < ?i. pl_conns p1 j = pl_conns p j" "pl_nextc p1 = Suc ?i"
      by (auto simp: Pool_Acquire_def acquire_enter_def acquire_dialed_def set_entry_def Let_def)
    from calls_release [OF assms(2) addr this(1)] obtain c w2 where
      "Pool_Release net addr (put_conn ?i c p1) w2 = (p', w')" by auto
    with p1 gone show ?thesis
      by (auto simp: Pool_Release_def put_conn_def add_refs_def set_entry_def close_conn_def AppConn_Close_def Let_def
          less_Suc_eq split: if_splits prod.splits)
  qed
qed

section \<open>Properties\<close>

text \<open>
  C1: whatever the pool, the dials and the engine do: the policy returns an error only when
  fail-open is switched off; and a verdict it returns is either one that a delivered frame carries
  for the session the call opened, and final, or the fail-open ACCEPT, the latter only when fail-open is on. With
  fail-open off nothing is let through that the engine has not decided.
\<close>

theorem policy_verdict_genuine:
  assumes "AcquireVerdict (rx_tap net) cfg ctx req p (w, []) = Some (r, p', (w', log)) \<or>
      AcquireResponseVerdict (rx_tap net) cfg ctx code len body p (w, []) = Some (r, p', (w', log))"
  shows "case r of
      Inl e \<Rightarrow> \<not> failOpenEnabled cfg
    | Inr v \<Rightarrow>
        (own_session (rx_tap net) cfg ctx p (w, []) (vd_SessionID v) \<and> Inr v \<in> ParseVerdict ` set log \<and>
           vd_Kind v \<noteq> VerdictInspect) \<or>
        failOpenEnabled cfg \<and> (\<exists>sid. v = failOpenVerdict sid)"
proof -
  have own: "vd_SessionID v = sid \<and> Inr v \<in> ParseVerdict ` set log \<and> vd_Kind v \<noteq> VerdictInspect"
    if "genuine sid v log" for sid v
  proof -
    from that obtain q where "q \<in> set log" "own_verdict sid q = Some v" "vd_Kind v \<noteq> VerdictInspect"
      by (auto simp: genuine_def)
    then show ?thesis by (cases "ParseVerdict q") (auto simp: own_verdict_def split: if_splits intro: rev_image_eqI)
  qed
  have "policy_ok (own_session (rx_tap net) cfg ctx p (w, [])) cfg r log"
    using assms by (auto dest: AcquireVerdict_ok AcquireResponseVerdict_ok)
  then show ?thesis unfolding policy_ok_def using own by (auto split: sum.splits)
qed

text \<open>
  C19: the policy gives back all it takes, on every path through either call that returns. On a pool
  whose entry is ready and without error, referenced by someone and its flow lock free, the references, the map of
  entries and every other connection are as before, and on the connection used the session
  allocator is as before and the flow lock is free again. When the entry is still being dialed by
  another caller, and so the call only returns because its context has ended, the whole pool is as
  before. When there is no entry and the call dials itself, successfully or not, the map of entries,
  the earlier entries and the earlier connections are as before, and a connection it made is closed.
\<close>

theorem policy_gives_back:
  assumes "AcquireVerdict net cfg ctx req p w = Some (r, p', w') \<or>
      AcquireResponseVerdict net cfg ctx code len body p w = Some (r, p', w')"
    and addr: "addr = ec_RegistrationSocket cfg"
  shows "(\<forall>e i. pool_ready addr e i p \<longrightarrow> pl_entries p' = pl_entries p \<and> pl_entry p' = pl_entry p \<and>
      (\<forall>j. j \<noteq> i \<longrightarrow> pl_conns p' j = pl_conns p j) \<and>
      cn_sessions (pl_conns p' i) = cn_sessions (pl_conns p i) \<and> \<not> cn_flowHeld (pl_conns p' i) \<and>
      cn_closed (pl_conns p' i) = cn_closed (pl_conns p i)) \<and>
    (\<forall>e. pl_entries p addr = Some e \<and> \<not> pe_ready (pl_entry p e) \<longrightarrow> p' = p) \<and>
    (pl_entries p addr = None \<longrightarrow> pl_entries p' = pl_entries p \<and>
      (\<forall>e < pl_nexte p. pl_entry p' e = pl_entry p e) \<and> (\<forall>j < pl_nextc p. pl_conns p' j = pl_conns p j) \<and>
      (\<forall>j \<ge> pl_nextc p. j < pl_nextc p' \<longrightarrow> cn_closed (pl_conns p' j)))"
proof (intro conjI allI impI)
  fix e i assume "pool_ready addr e i p"
  then have "pool_kept i p p'" using assms by (auto dest: AcquireVerdict_kept AcquireResponseVerdict_kept)
  then show "pl_entries p' = pl_entries p" "pl_entry p' = pl_entry p"
      "cn_sessions (pl_conns p' i) = cn_sessions (pl_conns p i)" "\<not> cn_flowHeld (pl_conns p' i)"
      "cn_closed (pl_conns p' i) = cn_closed (pl_conns p i)"
      "\<And>j. j \<noteq> i \<Longrightarrow> pl_conns p' j = pl_conns p j"
    by (auto simp: pool_kept_def put_conn_def session_over_def)
next
  fix e assume "pl_entries p addr = Some e \<and> \<not> pe_ready (pl_entry p e)"
  from waiting_gives_back [OF this assms(1) addr] show "p' = p" .
next
  assume "pl_entries p addr = None"
  from dialer_gives_back [OF this assms(1) addr]
  show "pl_entries p' = pl_entries p" "\<And>e. e < pl_nexte p \<Longrightarrow> pl_entry p' e = pl_entry p e"
      "\<And>j. j < pl_nextc p \<Longrightarrow> pl_conns p' j = pl_conns p j"
      "\<And>j. pl_nextc p \<le> j \<Longrightarrow> j < pl_nextc p' \<Longrightarrow> cn_closed (pl_conns p' j)"
    by blast+
qed

text \<open>
  C20: waiting for a verdict ends whenever the engine sends finitely many frames: if every frame
  received uses up one of those left, and sleeping or an empty poll makes no new ones, \<open>await\<close>
  returns.
\<close>

theorem await_terminates:
  fixes left :: "'w \<Rightarrow> nat"
  assumes "\<And>k d w x w'. nt_recv net k d w = (Inr x, w') \<Longrightarrow> left w' < left w"
    and "\<And>k w x w'. nt_recvQueued net k w = (Inr x, w') \<Longrightarrow> left w' < left w"
    and "\<And>k w e w'. nt_recvQueued net k w = (Inl e, w') \<Longrightarrow> left w' \<le> left w"
    and "\<And>d w. left (nt_sleep net d w) \<le> left w"
  shows "\<exists>r w'. await net cfg sid c w = Some (r, w')"
  using finite_engine.await_returns [OF finite_engine.intro, OF assms, where cfg = cfg and sid = sid and c = c and w = w] by simp

text \<open>
  the wait is not bounded by the verdict budget: while the ring keeps delivering INSPECT
  frames of the session, the inner loop never looks at the clock and \<open>await\<close> never returns.
\<close>

theorem await_ignores_budget:
  assumes "own_verdict sid q = Some v" and "vd_Kind v = VerdictInspect"
    and "\<And>w. fst (nt_recv net (cn_conn c) (Some (nt_now net w + verdictBudget cfg)) w) = Inr q"
    and "\<And>w. fst (nt_recvQueued net (cn_conn c) w) = Inr q"
    and "nt_is_ring net (cn_conn c)" and "\<not> cn_closed c"
  shows "await net cfg sid c w = None"
proof -
  have "drain net hold sid c w = None" for hold w
  proof (rule ccontr)
    assume "drain net hold sid c w \<noteq> None"
    then obtain y where "drain net hold sid c w = Some y" by blast
    then have "net = net \<and> sid = sid \<and> c = c \<longrightarrow> False"
    proof (rule drain.raw_induct [where P = "\<lambda>n h s k w y. n = net \<and> s = sid \<and> k = c \<longrightarrow> False", rotated], intro impI)
      fix loop n h s k w y
      assume IH: "\<And>n h s k w y. loop n h s k w = Some y \<Longrightarrow> n = net \<and> s = sid \<and> k = c \<longrightarrow> False"
        and body: "(case AppConn_recvQueued n k w of
            (Inl _, w) \<Rightarrow> Some (None, w)
          | (Inr q, w) \<Rightarrow>
              (case own_verdict s q of
                 None \<Rightarrow> if own_delay s q then loop n h s k (nt_sleep n h w) else loop n h s k w
               | Some vq \<Rightarrow> if vd_Kind vq \<noteq> VerdictInspect then Some (Some vq, w) else loop n h s k w)) = Some y"
        and at: "n = net \<and> s = sid \<and> k = c"
      obtain w1 where "AppConn_recvQueued net c w = (Inr q, w1)"
        using assms(4) [of w] assms(5,6) by (cases "nt_recvQueued net (cn_conn c) w") (auto simp: AppConn_recvQueued_def)
      with body at assms(1,2) have "loop net h sid c w1 = Some y" by simp
      from IH [OF this] show False by blast
    qed
    then show False by blast
  qed
  moreover obtain w1 where "AppConn_recv net (Some (nt_now net w + verdictBudget cfg)) c w = (Inr q, w1)"
    using assms(3) [of w] assms(6)
    by (cases "nt_recv net (cn_conn c) (Some (nt_now net w + verdictBudget cfg)) w") (auto simp: AppConn_recv_def)
  moreover have "0 < verdictBudget cfg" by (simp add: verdictBudget_def Let_def)
  ultimately show ?thesis
    unfolding await_def by (subst await_loop.simps) (simp add: assms(1,2))
qed

text \<open>
  the verdict budget is always positive and fits a duration; with the default configuration
  it is 45 seconds, not the 3 seconds of the comment.
\<close>

theorem verdict_budget_bounds:
  "0 < verdictBudget cfg \<and> verdictBudget cfg < 2 ^ 63 \<and>
   verdictBudget (EngineConfig_SetDefaults EngineConfig_zero) = 45000000000"
proof -
  have "go_int i < 2 ^ 63" for i using sint_less [of "word_of_int i :: 64 word"] by (simp add: go_int_def)
  moreover have "verdictBudget (EngineConfig_SetDefaults EngineConfig_zero) = 45000000000"
    by (simp add: verdictBudget_def EngineConfig_SetDefaults_def EngineConfig_zero_def dflt_int_def
        DefaultMaxRetriesForVerdict_def DefaultReqMaxProcessingMs_def go_int_id Let_def)
  ultimately show ?thesis by (simp add: verdictBudget_def Let_def)
qed

text \<open>
  the application releases its connection twice on a configuration change, once in \<open>Stop\<close> and
  once in \<open>Cleanup\<close>, for one \<open>Acquire\<close> in \<open>Start\<close>: with one other user of the connection the first
  release keeps it, and the second closes it under that user.
\<close>

theorem app_releases_twice:
  assumes "pl_entries p (ec_RegistrationSocket (app_Config a)) = Some e" and "pe_refs (pl_entry p e) = 2"
    and "pe_conn (pl_entry p e) = Some i" and "\<not> cn_closed (pl_conns p i)"
  shows "case App_Stop net a p w of (p1, w1) \<Rightarrow> \<not> cn_closed (pl_conns p1 i) \<and> pe_refs (pl_entry p1 e) = 1 \<and>
    (case App_Cleanup net a p1 w1 of (p2, w2) \<Rightarrow> cn_closed (pl_conns p2 i) \<and>
       pl_entries p2 (ec_RegistrationSocket (app_Config a)) = None)"
  using assms
  by (simp add: App_Stop_def App_Cleanup_def Pool_Release_def add_refs_def set_entry_def close_conn_def
      AppConn_Close_def Let_def split: prod.splits)

section \<open>Witnesses\<close>

text \<open>
  A pool with one connection that someone holds, and an engine that answers session 3 with
  INSPECT and then ACCEPT; fail-open is off.
\<close>

definition strict_cfg :: EngineConfig where
  "strict_cfg = EngineConfig_zero\<lparr>ec_FailOpen := Some False\<rparr>"

definition accept_frame :: bytes where
  "accept_frame = projr (Verdict_Encode (failOpenVerdict 3))"

definition inspect_frame :: bytes where
  "inspect_frame = projr (Verdict_Encode ((failOpenVerdict 3)\<lparr>vd_Kind := VerdictInspect\<rparr>))"

definition accepting :: script where
  "accepting = script0\<lparr>sc_replies := [inspect_frame, accept_frame]\<rparr>"

definition shared_pool :: "int \<Rightarrow> nat Pool" where
  "shared_pool n = pool0\<lparr>pl_entries := [ec_RegistrationSocket strict_cfg \<mapsto> 0], pl_nexte := 1, pl_nextc := 1,
     pl_entry := (\<lambda>_. \<lparr>pe_refs = n, pe_conn = Some 0, pe_err = None, pe_ready = True\<rparr>)\<rparr>"

lemma shared_pool_ready: "1 \<le> n \<Longrightarrow> pool_ready (ec_RegistrationSocket strict_cfg) 0 0 (shared_pool n)"
  by (simp add: pool_ready_def shared_pool_def pool0_def NewPool_def example_conn_def newConn_def)

lemma accepting_frames:
  "own_verdict 3 inspect_frame = Some ((failOpenVerdict 3)\<lparr>vd_Kind := VerdictInspect\<rparr>)"
  "own_verdict 3 accept_frame = Some (failOpenVerdict 3)"
  by code_simp+

lemma accepting_sent:
  "\<exists>l c. SendRequest (rx_tap (script_net False)) bare_request example_conn (accepting, []) =
     Some (Inr 3, c, (accepting\<lparr>sc_sent := l\<rparr>, [])) \<and> cn_conn c = 0 \<and> \<not> cn_closed c"
proof -
  define fa fb fc where "fa = request_frames 3 bare_request ! 0" and "fb = request_frames 3 bare_request ! 1"
    and "fc = request_frames 3 bare_request ! 2"
  have fs: "request_frames 3 bare_request = [fa, fb, fc]"
    by (simp add: fa_def fb_def fc_def request_frames_def bare_request_def example_request_def)
  show ?thesis
    by (simp add: SendRequest_def lockFlow_def example_conn_def newConn_def script_net_def NewSessionAllocator_def
        Allocate_def AppConn_send_def script_send_def accepting_def script0_def AppConn_signal_def rx_tap_def fs)
qed

lemma accepting_await:
  assumes "cn_conn c = 0" and "\<not> cn_closed c"
  shows "\<exists>w log. await (rx_tap (script_net False)) strict_cfg 3 c (accepting\<lparr>sc_sent := l\<rparr>, []) =
    Some (Inr (failOpenVerdict 3), (w, log))"
proof -
  let ?N = "rx_tap (script_net False)"
  have budget: "0 < verdictBudget strict_cfg" by (simp add: verdictBudget_def Let_def)
  have net: "nt_now ?N (w, log) = sc_clock w" "nt_is_ring ?N k = False"
      "sc_replies w = q # qs \<Longrightarrow> nt_recv ?N k d (w, log) = (Inr q, (w\<lparr>sc_replies := qs\<rparr>, log @ [q]))"
    for w log k q qs d
    by (simp_all add: rx_tap_def script_net_def script_recv_def)
  have drained: "drain ?N hold sid c s = Some (None, s)" for hold sid s
    using assms by (simp add: drain.simps [of ?N] AppConn_recvQueued_def net)
  have "await_loop ?N poll hold (verdictBudget strict_cfg) 3 c (w\<lparr>sc_replies := [accept_frame]\<rparr>, log) =
      Some (Inr (failOpenVerdict 3), (w\<lparr>sc_replies := []\<rparr>, log @ [accept_frame]))" if "sc_clock w = 0" for poll hold w log
    using assms that budget accepting_frames(2)
    by (simp add: await_loop.simps [of ?N _ _ _ 3 c "(w\<lparr>sc_replies := [accept_frame]\<rparr>, log)"] AppConn_recv_def net failOpenVerdict_def go_consts)
  from this [of "accepting\<lparr>sc_sent := l\<rparr>"] show ?thesis
    using assms accepting_frames(1) budget
    unfolding await_def
    by (subst await_loop.simps)
      (simp add: AppConn_recv_def net drained accepting_def script0_def)
qed

lemma accepting_run:
  "\<exists>p' w' log. AcquireVerdict (rx_tap (script_net False)) strict_cfg None bare_request (shared_pool 1) (accepting, []) =
     Some (Inr (failOpenVerdict 3), p', (w', log))"
proof -
  obtain l c where s: "SendRequest (rx_tap (script_net False)) bare_request example_conn (accepting, []) =
      Some (Inr 3, c, (accepting\<lparr>sc_sent := l\<rparr>, []))" "cn_conn c = 0" "\<not> cn_closed c"
    using accepting_sent by blast
  from accepting_await [OF s(2,3)] obtain w log where a: "await (rx_tap (script_net False)) strict_cfg 3 c
      (accepting\<lparr>sc_sent := l\<rparr>, []) = Some (Inr (failOpenVerdict 3), (w, log))" by blast
  have conn: "pl_conns (add_refs 1 0 (shared_pool 1)) 0 = example_conn"
    by (simp add: shared_pool_def pool0_def NewPool_def)
  have free: "\<not> cn_flowHeld example_conn" by (simp add: example_conn_def newConn_def)
  from SendRequest_balanced [OF free, of "rx_tap (script_net False)" bare_request "(accepting, [])"] s(1)
  have "session_open example_conn 3 c" by auto
  from EndRequest_over [OF this] obtain d where "EndRequest 3 c = Some d" by blast
  moreover obtain p' s' where "Pool_Release (rx_tap (script_net False)) (ec_RegistrationSocket strict_cfg)
      (put_conn 0 d (add_refs 1 0 (shared_pool 1))) (w, log) = (p', s')"
    by (cases "Pool_Release (rx_tap (script_net False)) (ec_RegistrationSocket strict_cfg)
      (put_conn 0 d (add_refs 1 0 (shared_pool 1))) (w, log)")
  ultimately show ?thesis
    using s(1) a conn ready_acquire [OF shared_pool_ready [of 1], of "rx_tap (script_net False)" None "(accepting, [])"]
    by (cases s') (simp add: AcquireVerdict_def finish_def release_with_def)
qed

theorem policy_verdict_genuine_witness:
  "\<exists>p' w' log. AcquireVerdict (rx_tap (script_net False)) strict_cfg None bare_request (shared_pool 1) (accepting, []) =
     Some (Inr (failOpenVerdict 3), p', (w', log)) \<and> Inr (failOpenVerdict 3) \<in> ParseVerdict ` set log"
proof -
  from accepting_run obtain p' w' log where
    run: "AcquireVerdict (rx_tap (script_net False)) strict_cfg None bare_request (shared_pool 1) (accepting, []) =
      Some (Inr (failOpenVerdict 3), p', (w', log))" by blast
  have "\<not> failOpenEnabled strict_cfg" by (simp add: failOpenEnabled_def strict_cfg_def)
  with policy_verdict_genuine [OF disjI1 [OF run]] run show ?thesis by auto
qed

theorem policy_gives_back_witness:
  "\<exists>r p' w'. AcquireVerdict (rx_tap (script_net False)) strict_cfg None bare_request (shared_pool 1) (accepting, []) =
     Some (r, p', w') \<and> pl_entry p' = pl_entry (shared_pool 1)"
proof -
  from accepting_run obtain p' w' log where
    run: "AcquireVerdict (rx_tap (script_net False)) strict_cfg None bare_request (shared_pool 1) (accepting, []) =
      Some (Inr (failOpenVerdict 3), p', (w', log))" by blast
  with policy_gives_back [OF disjI1 [OF run] refl] shared_pool_ready [of 1] show ?thesis by auto
qed

theorem await_terminates_witness:
  "\<exists>r w'. await (script_net True) strict_cfg 3 example_conn accepting = Some (r, w')"
  by (rule await_terminates [where left = "\<lambda>w. length (sc_replies w) + length (sc_queued w)"])
    (use scripted.recv scripted.queued scripted.empty scripted.sleep in blast)+

text \<open>A ring that always holds the INSPECT frame.\<close>

definition flooding :: "(nat, script) net" where
  "flooding = (script_net True)\<lparr>nt_recv := \<lambda>k d w. (Inr inspect_frame, w),
     nt_recvQueued := \<lambda>k w. (Inr inspect_frame, w\<lparr>sc_clock := sc_clock w + 1000000\<rparr>)\<rparr>"

theorem await_ignores_budget_witness:
  "await flooding strict_cfg 3 example_conn accepting = None"
  by (rule await_ignores_budget [OF accepting_frames(1)])
    (simp_all add: flooding_def script_net_def example_conn_def newConn_def)

theorem app_releases_twice_witness:
  "case App_Stop (script_net False) \<lparr>app_Config = strict_cfg, app_pool = True, app_policy = None\<rparr> (shared_pool 2) accepting of
     (p1, w1) \<Rightarrow> \<not> cn_closed (pl_conns p1 0)"
  using app_releases_twice [of "shared_pool 2" "\<lparr>app_Config = strict_cfg, app_pool = True, app_policy = None\<rparr>" 0 0
      "script_net False" accepting]
  by (auto simp: shared_pool_def pool0_def NewPool_def example_conn_def newConn_def split: prod.splits)

end
