(* ===== verification/Http.thy ===== *)
theory Http
  imports Body
begin

text \<open>
  What the handler uses of net/http and net: header maps with canonical keys, splitting a host
  and port, and the response writer of the server. A header map is a function from canonical keys
  to lists of values; the order in which a map is iterated is not determined and is given where
  it matters. The response writer keeps the header map the handler fills, the status and the
  snapshot of the headers once they are written, and the body.
\<close>

section \<open>Header maps\<close>

type_synonym header = "string \<rightharpoonup> string list"

definition upper_char :: "char \<Rightarrow> char" where
  "upper_char c = (if 97 \<le> (of_char c :: nat) \<and> (of_char c :: nat) \<le> 122
     then char_of ((of_char c :: nat) - 32) else c)"

text \<open>The bytes of a header field name.\<close>

definition token_char :: "char \<Rightarrow> bool" where
  "token_char c \<longleftrightarrow> (let n = (of_char c :: nat) in
     48 \<le> n \<and> n \<le> 57 \<or> 65 \<le> n \<and> n \<le> 90 \<or> 97 \<le> n \<and> n \<le> 122) \<or>
     c \<in> set ''!#$%&*+-.^_|~'' \<or> (of_char c :: nat) \<in> {39, 96}"

fun canon :: "bool \<Rightarrow> string \<Rightarrow> string" where
  "canon up [] = []"
| "canon up (c # s) = (if up then upper_char c else lower_char c) # canon (c = CHR ''-'') s"

definition CanonicalHeaderKey :: "string \<Rightarrow> string" where
  "CanonicalHeaderKey s = (if list_all token_char s then canon True s else s)"

definition Header_Get :: "header \<Rightarrow> string \<Rightarrow> string" where
  "Header_Get h k = (case h (CanonicalHeaderKey k) of Some (v # _) \<Rightarrow> v | _ \<Rightarrow> '''')"

definition Header_Set :: "string \<Rightarrow> string \<Rightarrow> header \<Rightarrow> header" where
  "Header_Set k v h = h(CanonicalHeaderKey k \<mapsto> [v])"

definition Header_Add :: "string \<Rightarrow> string \<Rightarrow> header \<Rightarrow> header" where
  "Header_Add k v h =
     h(CanonicalHeaderKey k \<mapsto> (case h (CanonicalHeaderKey k) of None \<Rightarrow> [] | Some vs \<Rightarrow> vs) @ [v])"

lemma Header_Get_Set:
  "Header_Get (Header_Set k v h) l = (if CanonicalHeaderKey l = CanonicalHeaderKey k then v else Header_Get h l)"
  by (simp add: Header_Get_def Header_Set_def)

section \<open>Host and port\<close>

fun IndexByte :: "string \<Rightarrow> char \<Rightarrow> nat option" where
  "IndexByte [] c = None"
| "IndexByte (x # s) c = (if x = c then Some 0 else map_option Suc (IndexByte s c))"

definition LastIndexByte :: "string \<Rightarrow> char \<Rightarrow> nat option" where
  "LastIndexByte s c = map_option (\<lambda>i. length s - 1 - i) (IndexByte (rev s) c)"

datatype addr_err = MissingPort | TooManyColons | MissingBracket | UnexpectedBracket

definition net_SplitHostPort :: "string \<Rightarrow> addr_err + string \<times> string" where
  "net_SplitHostPort hostport =
     (case LastIndexByte hostport (CHR '':'') of
        None \<Rightarrow> Inl MissingPort
      | Some i \<Rightarrow>
          let finish = (\<lambda>host j k.
                if CHR ''['' \<in> set (drop j hostport) \<or> CHR '']'' \<in> set (drop k hostport) then Inl UnexpectedBracket
                else Inr (host, drop (i + 1) hostport)) in
          if hd hostport = CHR ''['' then
            (case IndexByte hostport (CHR '']'') of
               None \<Rightarrow> Inl MissingBracket
             | Some e \<Rightarrow>
                 if e + 1 = length hostport then Inl MissingPort
                 else if e + 1 = i then finish (take (e - 1) (drop 1 hostport)) 1 (e + 1)
                 else if hostport ! (e + 1) = CHR '':'' then Inl TooManyColons
                 else Inl MissingPort)
          else
            let host = take i hostport in
            if CHR '':'' \<in> set host then Inl TooManyColons else finish host 0 0)"

section \<open>Response writer of the server\<close>

record client =
  cl_header :: header
  cl_status :: "int option"
  cl_sent :: header
  cl_body :: bytes
  cl_broken :: bool
  cl_panicked :: bool

text \<open>
  The first final status is written with the headers as they are then; later ones are ignored,
  informational ones do not count, and a code that is not three digits panics.
\<close>

definition client_WriteHeader :: "int \<Rightarrow> client \<Rightarrow> client" where
  "client_WriteHeader code c =
     (if cl_status c \<noteq> None then c
      else if code < 100 \<or> code > 999 then c\<lparr>cl_panicked := True\<rparr>
      else if code \<le> 199 \<and> code \<noteq> 101 then c
      else c\<lparr>cl_status := Some code, cl_sent := cl_header c\<rparr>)"

definition body_allowed :: "int \<Rightarrow> bool" where
  "body_allowed code \<longleftrightarrow> \<not> (100 \<le> code \<and> code \<le> 199) \<and> code \<noteq> 204 \<and> code \<noteq> 304"

datatype write_err = BodyNotAllowed | ConnectionGone

definition client_Write :: "bytes \<Rightarrow> client \<Rightarrow> write_err option \<times> client" where
  "client_Write p c =
     (let c = client_WriteHeader 200 c in
      if p = [] then (None, c)
      else if \<not> body_allowed (the (cl_status c)) then (Some BodyNotAllowed, c)
      else if cl_broken c then (Some ConnectionGone, c)
      else (None, c\<lparr>cl_body := cl_body c @ p\<rparr>))"

definition client_Flush :: "client \<Rightarrow> client" where
  "client_Flush c = client_WriteHeader 200 c"

definition client_Header :: "(header \<Rightarrow> header) \<Rightarrow> client \<Rightarrow> client" where
  "client_Header f c = c\<lparr>cl_header := f (cl_header c)\<rparr>"

text \<open>
  What a handler down the chain does with the writer it is given: it changes headers, writes
  the status, writes parts of the body and flushes, and then returns an error or not.
\<close>

datatype resp_call = RHeader "header \<Rightarrow> header" | RWriteHeader int | RWrite bytes | RFlush

fun client_step :: "resp_call \<Rightarrow> client \<Rightarrow> client" where
  "client_step (RHeader f) c = client_Header f c"
| "client_step (RWriteHeader code) c = client_WriteHeader code c"
| "client_step (RWrite p) c = snd (client_Write p c)"
| "client_step RFlush c = client_Flush c"

definition fresh_client :: client where
  "fresh_client = \<lparr>cl_header = Map.empty, cl_status = None, cl_sent = Map.empty, cl_body = [],
     cl_broken = False, cl_panicked = False\<rparr>"

end
