(* ===== verification/Response.thy ===== *)
theory Response
  imports Http
begin

text \<open>
  The buffering response writer of internal/handler/response.go around the server's one. The
  sign of quality values and the gzip format are the parameters of the body helpers.
\<close>

record responseWriter =
  rw_client :: client
  rw_buf :: ResponseBuffer
  rw_acceptEncoding :: string
  rw_status :: int
  rw_wroteHeader :: bool
  rw_passThrough :: bool

definition newResponseWriter :: "client \<Rightarrow> int \<Rightarrow> string \<Rightarrow> responseWriter" where
  "newResponseWriter w limit acceptEncoding = \<lparr>rw_client = w, rw_buf = NewResponseBuffer limit,
     rw_acceptEncoding = acceptEncoding, rw_status = 0, rw_wroteHeader = False, rw_passThrough = False\<rparr>"

definition flushHeader :: "responseWriter \<Rightarrow> responseWriter" where
  "flushHeader rw =
     (if rw_wroteHeader rw then rw
      else
        let status = (if rw_status rw = 0 then 200 else rw_status rw) in
        rw\<lparr>rw_wroteHeader := True, rw_status := status, rw_client := client_WriteHeader status (rw_client rw)\<rparr>)"

definition rw_WriteHeader :: "int \<Rightarrow> responseWriter \<Rightarrow> responseWriter" where
  "rw_WriteHeader code rw =
     (if rw_wroteHeader rw then rw
      else
        let rw = rw\<lparr>rw_status := code\<rparr>;
            h = cl_header (rw_client rw);
            rw = (if HasPrefix (Header_Get h ''Content-Type'') ''text/event-stream''
                  then rw\<lparr>rw_buf := rb_MarkSSE (rw_buf rw)\<rparr> else rw);
            cl = Header_Get h ''Content-Length'';
            rw = (if cl \<noteq> '''' then
                    (case ParseInt 64 cl of
                       Inr n \<Rightarrow> rw\<lparr>rw_buf := rb_SetContentLength n (rw_buf rw)\<rparr>
                     | Inl _ \<Rightarrow> rw) else rw)
        in if rb_passThrough (rw_buf rw) then flushHeader (rw\<lparr>rw_passThrough := True\<rparr>) else rw)"

definition rw_out :: "bytes \<Rightarrow> responseWriter \<Rightarrow> write_err option \<times> responseWriter" where
  "rw_out p rw = (case client_Write p (rw_client rw) of (e, c) \<Rightarrow> (e, rw\<lparr>rw_client := c\<rparr>))"

definition rw_Write :: "bytes \<Rightarrow> responseWriter \<Rightarrow> write_err option \<times> responseWriter" where
  "rw_Write p rw =
     (if rw_passThrough rw then rw_out p rw
      else if rb_passThrough (rw_buf rw) then rw_out p (rw\<lparr>rw_passThrough := True\<rparr>)
      else
        (case rb_Write p (rw_buf rw) of (n, buf) \<Rightarrow>
           let rw = rw\<lparr>rw_buf := buf\<rparr> in
           if rb_passThrough buf then
             let rw = flushHeader (rw\<lparr>rw_passThrough := True\<rparr>) in
             (case rw_out (rb_buf buf) rw of
                (Some e, rw) \<Rightarrow> (Some e, rw)
              | (None, rw) \<Rightarrow> if n < int (length p) then rw_out (drop (nat n) p) rw else (None, rw))
           else (None, rw)))"

definition rw_Flush :: "responseWriter \<Rightarrow> responseWriter" where
  "rw_Flush rw = rw\<lparr>rw_client := client_Flush (rw_client rw)\<rparr>"

definition finalize :: "(string \<Rightarrow> qval option) \<Rightarrow> (bytes \<Rightarrow> bytes) \<Rightarrow> responseWriter \<Rightarrow> write_err option \<times> responseWriter" where
  "finalize pf gz rw =
     (if rw_passThrough rw then (None, flushHeader rw)
      else
        let buf = rb_buf (rw_buf rw);
            enc = Header_Get (cl_header (rw_client rw)) ''Content-Encoding'';
            (buf, rw) =
              (if enc = '''' \<or> EqualFold enc ''identity'' then
                 (case Recompress pf gz buf (rw_acceptEncoding rw) of
                    (re, e) \<Rightarrow>
                      if e \<noteq> ''identity''
                      then (re, rw\<lparr>rw_client := client_Header (Header_Set ''Content-Encoding'' e) (rw_client rw)\<rparr>)
                      else (buf, rw))
               else (buf, rw));
            rw = rw\<lparr>rw_client := client_Header (Header_Set ''Content-Length'' (Itoa (int (length buf)))) (rw_client rw)\<rparr>;
            rw = flushHeader rw
        in if buf \<noteq> [] then rw_out buf rw else (None, rw))"

fun rw_step :: "resp_call \<Rightarrow> responseWriter \<Rightarrow> responseWriter" where
  "rw_step (RHeader f) rw = rw\<lparr>rw_client := client_Header f (rw_client rw)\<rparr>"
| "rw_step (RWriteHeader code) rw = rw_WriteHeader code rw"
| "rw_step (RWrite p) rw = snd (rw_Write p rw)"
| "rw_step RFlush rw = rw_Flush rw"

section \<open>Writing through and buffering\<close>

text \<open>A client that has been sent a status with the headers it had, and a body.\<close>

definition sent :: "int \<Rightarrow> bytes \<Rightarrow> client \<Rightarrow> client" where
  "sent code b c = c\<lparr>cl_status := Some code, cl_sent := cl_header c, cl_body := b\<rparr>"

definition final_code :: "int \<Rightarrow> bool" where
  "final_code code \<longleftrightarrow> 200 \<le> code \<and> code \<le> 999 \<and> body_allowed code"

text \<open>A client that nothing has been written to.\<close>

definition untouched :: "client \<Rightarrow> bool" where
  "untouched c \<longleftrightarrow> cl_status c = None \<and> cl_body c = [] \<and> \<not> cl_broken c"

lemma client_Write_sent:
  "final_code code \<Longrightarrow> \<not> cl_broken c \<Longrightarrow> client_Write p (sent code b c) = (None, sent code (b @ p) c)"
  by (simp add: client_Write_def client_WriteHeader_def sent_def final_code_def Let_def)

lemma client_WriteHeader_sent:
  "final_code code \<Longrightarrow> untouched c \<Longrightarrow> client_WriteHeader code c = sent code [] c"
  by (simp add: client_WriteHeader_def sent_def final_code_def untouched_def)

lemma direct_writes:
  assumes "final_code code" and "\<not> cl_broken c"
  shows "fold client_step (map RWrite ps) (sent code b c) = sent code (b @ concat ps) c"
  using assms by (induction ps arbitrary: b) (simp_all add: client_Write_sent)

lemma passing_writes:
  assumes "final_code code" and "\<not> cl_broken c" and "rw_passThrough rw" and "rw_client rw = sent code b c"
  shows "fold rw_step (map RWrite ps) rw = rw\<lparr>rw_client := sent code (b @ concat ps) c\<rparr>"
  using assms
proof (induction ps arbitrary: b rw)
  case (Cons p ps)
  let ?rw = "rw\<lparr>rw_client := sent code (b @ p) c\<rparr>"
  have "rw_step (RWrite p) rw = ?rw"
    using Cons.prems by (simp add: rw_Write_def rw_out_def client_Write_sent)
  with Cons.IH [of ?rw "b @ p"] Cons.prems show ?case by simp
qed simp

text \<open>A writer that buffers, with a final status recorded and nothing sent.\<close>

definition buffering :: "int \<Rightarrow> responseWriter \<Rightarrow> bool" where
  "buffering code rw \<longleftrightarrow> \<not> rw_passThrough rw \<and> \<not> rw_wroteHeader rw \<and> \<not> rb_passThrough (rw_buf rw) \<and>
     rb_Len (rw_buf rw) \<le> rb_cap (rw_buf rw) \<and> rw_status rw = code"

lemma overflow_write:
  assumes "final_code code" and "untouched (rw_client rw)" and b: "buffering code rw"
    and more: "rb_cap (rw_buf rw) < rb_Len (rw_buf rw) + int (length p)"
  shows "\<exists>rw'. rw_step (RWrite p) rw = rw' \<and> rw_passThrough rw' \<and> rw_wroteHeader rw' \<and>
    rw_client rw' = sent code (rb_buf (rw_buf rw) @ p) (rw_client rw)"
proof -
  let ?n = "rb_cap (rw_buf rw) - rb_Len (rw_buf rw)"
  have n: "0 \<le> ?n" "?n < int (length p)" using b more by (simp_all add: buffering_def)
  have nb: "\<not> cl_broken (rw_client rw)" and c0: "code \<noteq> 0"
    using assms(1,2) by (auto simp: untouched_def final_code_def)
  let ?rb = "(rw_buf rw)\<lparr>rb_buf := rb_buf (rw_buf rw) @ take (nat ?n) p, rb_passThrough := True\<rparr>"
  have w: "rb_Write p (rw_buf rw) = (?n, ?rb)"
    using b n(2) by (simp add: rb_Write_def rb_Len_def buffering_def Let_def)
  show ?thesis
    using b n w c0 client_WriteHeader_sent [OF assms(1,2)] client_Write_sent [OF assms(1) nb]
    by (simp add: rw_Write_def buffering_def flushHeader_def rw_out_def Let_def)
qed

lemma buffering_writes:
  assumes "final_code code" and "untouched (rw_client rw)" and "buffering code rw"
  shows "if rb_Len (rw_buf rw) + int (length (concat ps)) \<le> rb_cap (rw_buf rw)
    then fold rw_step (map RWrite ps) rw = rw\<lparr>rw_buf := (rw_buf rw)\<lparr>rb_buf := rb_buf (rw_buf rw) @ concat ps\<rparr>\<rparr>
    else rw_passThrough (fold rw_step (map RWrite ps) rw) \<and> rw_wroteHeader (fold rw_step (map RWrite ps) rw) \<and>
      rw_client (fold rw_step (map RWrite ps) rw) = sent code (rb_buf (rw_buf rw) @ concat ps) (rw_client rw)"
  using assms
proof (induction ps arbitrary: rw)
  case Nil
  then show ?case by (simp add: buffering_def)
next
  case (Cons p ps)
  show ?case
  proof (cases "rb_Len (rw_buf rw) + int (length p) \<le> rb_cap (rw_buf rw)")
    case True
    let ?rb = "(rw_buf rw)\<lparr>rb_buf := rb_buf (rw_buf rw) @ p\<rparr>"
    have "rw_step (RWrite p) rw = rw\<lparr>rw_buf := ?rb\<rparr>"
      using True Cons.prems(3) by (simp add: rw_Write_def rb_Write_def buffering_def rb_Len_def Let_def)
    moreover have "buffering code (rw\<lparr>rw_buf := ?rb\<rparr>)"
      using True Cons.prems(3) by (simp add: buffering_def rb_Len_def)
    note Cons.IH [OF Cons.prems(1) _ this]
    ultimately show ?thesis using Cons.prems(2) by (simp add: rb_Len_def algebra_simps)
  next
    case False
    then obtain rw' where rw': "rw_step (RWrite p) rw = rw'" "rw_passThrough rw'" "rw_wroteHeader rw'"
        "rw_client rw' = sent code (rb_buf (rw_buf rw) @ p) (rw_client rw)"
      using overflow_write [OF Cons.prems] by (auto simp: not_le)
    have nb: "\<not> cl_broken (rw_client rw)" using Cons.prems(2) by (simp add: untouched_def)
    show ?thesis
      using False rw' passing_writes [OF Cons.prems(1) nb rw'(2,4), of ps] by (simp add: algebra_simps)
  qed
qed

section \<open>Recompressing and sending the buffer\<close>

text \<open>The headers that \<open>finalize\<close> sets, and whether it compresses.\<close>

definition recoded :: "(string \<Rightarrow> qval option) \<Rightarrow> string \<Rightarrow> header \<Rightarrow> bool" where
  "recoded pf ae h \<longleftrightarrow> (let enc = Header_Get h ''Content-Encoding'' in enc = '''' \<or> EqualFold enc ''identity'') \<and>
     acceptsGzip pf ae"

definition final_header :: "bool \<Rightarrow> bytes \<Rightarrow> header \<Rightarrow> header" where
  "final_header coded b h = Header_Set ''Content-Length'' (Itoa (int (length b)))
     (if coded then Header_Set ''Content-Encoding'' ''gzip'' h else h)"

lemma finalize_buffered:
  assumes "final_code code" and c: "untouched (rw_client rw)" and "buffering code rw"
    and b: "b = (if recoded pf (rw_acceptEncoding rw) (cl_header (rw_client rw))
      then gz (rb_buf (rw_buf rw)) else rb_buf (rw_buf rw))"
  shows "\<exists>rw'. finalize pf gz rw = (None, rw') \<and> rw_client rw' = sent code b
    (client_Header (final_header (recoded pf (rw_acceptEncoding rw) (cl_header (rw_client rw))) b) (rw_client rw))"
proof -
  let ?c = "rw_client rw" let ?coded = "recoded pf (rw_acceptEncoding rw) (cl_header ?c)"
  let ?c' = "client_Header (final_header ?coded b) ?c"
  have u: "untouched ?c'" "\<not> cl_broken ?c'" using c by (simp_all add: untouched_def client_Header_def)
  have hdr: "client_Header f (client_Header g k) = client_Header (f \<circ> g) k" for f g k
    by (simp add: client_Header_def)
  have rc: "Recompress pf gz (rb_buf (rw_buf rw)) (rw_acceptEncoding rw) =
      (if acceptsGzip pf (rw_acceptEncoding rw) then (gz (rb_buf (rw_buf rw)), ''gzip'')
       else (rb_buf (rw_buf rw), ''identity''))"
    by (simp add: Recompress_def)
  have c0: "code \<noteq> 0" using assms(1) by (auto simp: final_code_def)
  have fh: "Header_Set ''Content-Length'' (Itoa (int (length b))) \<circ> Header_Set ''Content-Encoding'' ''gzip'' = final_header True b"
      "Header_Set ''Content-Length'' (Itoa (int (length b))) = final_header False b" for b
    by (simp_all add: final_header_def fun_eq_iff)
  have st: "rw_status rw = code" "\<not> rw_passThrough rw" "\<not> rw_wroteHeader rw"
    using assms(3) by (simp_all add: buffering_def)
  note out = client_WriteHeader_sent [OF assms(1) u(1)] client_Write_sent [OF assms(1) u(2), of b "[]"]
  show ?thesis
  proof (cases ?coded)
    case True
    with st b c0 out show ?thesis
      by (auto simp: finalize_def flushHeader_def rw_out_def recoded_def rc hdr fh(1) fh(1) [of "[]", simplified] Let_def)
  next
    case False
    with st b c0 out show ?thesis
      by (auto simp: finalize_def flushHeader_def rw_out_def recoded_def rc fh(2) Let_def)
  qed
qed

section \<open>Small steps\<close>

lemma fresh_header: "Header_Get (cl_header fresh_client) k = ''''"
  by (simp add: Header_Get_def fresh_client_def)

lemma fresh_WriteHeader:
  "0 < limit \<Longrightarrow> rw_WriteHeader code (newResponseWriter fresh_client limit ae) =
     (newResponseWriter fresh_client limit ae)\<lparr>rw_status := code\<rparr>"
  by (simp add: rw_WriteHeader_def newResponseWriter_def fresh_header HasPrefix_def NewResponseBuffer_def Let_def)

text \<open>Once the server's writer has a status, nothing changes it.\<close>

lemma status_kept:
  "cl_status c = Some s \<Longrightarrow> cl_status (client_WriteHeader code c) = Some s"
  "cl_status c = Some s \<Longrightarrow> cl_status (client_Header f c) = Some s"
  "cl_status c = Some s \<Longrightarrow> cl_status (snd (client_Write p c)) = Some s"
  by (simp_all add: client_WriteHeader_def client_Header_def client_Write_def Let_def)

lemma flushHeader_status: "cl_status (rw_client rw) = Some s \<Longrightarrow> cl_status (rw_client (flushHeader rw)) = Some s"
  by (simp add: flushHeader_def status_kept Let_def)

lemma rw_out_status: "cl_status (rw_client rw) = Some s \<Longrightarrow> cl_status (rw_client (snd (rw_out p rw))) = Some s"
  using status_kept(3) [of "rw_client rw" s p] by (simp add: rw_out_def split_beta)

lemma finalize_status:
  assumes "cl_status (rw_client rw) = Some s"
  shows "cl_status (rw_client (snd (finalize pf gz rw))) = Some s"
proof -
  have recode: "cl_status (rw_client (snd (
      if enc = '''' \<or> EqualFold enc ''identity'' then
        (case r of (re, e) \<Rightarrow>
          if e \<noteq> ''identity'' then (re, rw\<lparr>rw_client := client_Header (Header_Set ''Content-Encoding'' e) (rw_client rw)\<rparr>)
          else (buf, rw))
      else (buf, rw)))) = Some s" for enc r buf
    using assms by (cases r) (simp add: status_kept(2))
  have last: "cl_status (rw_client (snd (case x of (buf, rw) \<Rightarrow>
      let rw = rw\<lparr>rw_client := client_Header (f buf) (rw_client rw)\<rparr>; rw = flushHeader rw
      in if buf \<noteq> [] then rw_out buf rw else (None, rw)))) = Some s"
    if "cl_status (rw_client (snd x)) = Some s" for x :: "bytes \<times> responseWriter" and f
    using that by (cases x) (simp add: flushHeader_status rw_out_status status_kept(2) Let_def)
  show ?thesis
  proof (cases "rw_passThrough rw")
    case True
    with assms show ?thesis by (simp add: finalize_def flushHeader_status)
  next
    case False
    show ?thesis
      unfolding finalize_def if_not_P [OF False] Let_def [of "rb_buf _"] Let_def [of "Header_Get _ _"]
        Let_def [of "if _ then _ else _"]
      by (rule last, rule recode)
  qed
qed

section \<open>Properties\<close>

text \<open>
  for a response that sets its headers, then a final status that allows a body, and then writes
  its body in any pieces, the buffering writer is equivalent to the server's own: the client gets
  the same status, the same body, and the same headers other than \<open>Content-Length\<close>; except that a
  response that was buffered whole, has no content coding, and goes to a client that accepts gzip
  is sent gzipped and labelled so. No write fails, whatever the limit.
\<close>

lemma response_equivalent:
  assumes "final_code code" and calls: "calls = [RHeader (\<lambda>_. h), RWriteHeader code] @ map RWrite ps"
    and rw: "rw = fold rw_step calls (newResponseWriter fresh_client limit ae)"
    and direct: "direct = fold client_step calls fresh_client"
    and coded: "coded \<longleftrightarrow> \<not> rw_passThrough rw \<and> recoded pf ae h"
  shows "\<exists>rw'. finalize pf gz rw = (None, rw') \<and> cl_status (rw_client rw') = cl_status direct \<and>
    cl_body (rw_client rw') = (if coded then gz (cl_body direct) else cl_body direct) \<and>
    (coded \<longrightarrow> Header_Get (cl_sent (rw_client rw')) ''Content-Encoding'' = ''gzip'') \<and>
    (\<forall>k. CanonicalHeaderKey k \<noteq> ''Content-Length'' \<longrightarrow> (coded \<longrightarrow> CanonicalHeaderKey k \<noteq> ''Content-Encoding'') \<longrightarrow>
       Header_Get (cl_sent (rw_client rw')) k = Header_Get (cl_sent direct) k)"
proof -
  let ?c = "client_Header (\<lambda>_. h) fresh_client"
  let ?new = "(newResponseWriter fresh_client limit ae)\<lparr>rw_client := ?c\<rparr>"
  let ?rw1 = "rw_WriteHeader code ?new"
  have u: "untouched ?c" "\<not> cl_broken ?c" by (simp_all add: untouched_def client_Header_def fresh_client_def)
  have canon: "CanonicalHeaderKey ''Content-Length'' = ''Content-Length''"
      "CanonicalHeaderKey ''Content-Encoding'' = ''Content-Encoding''" by code_simp+
  have direct': "direct = sent code (concat ps) ?c"
    using direct_writes [OF assms(1) u(2), of ps "[]"] client_WriteHeader_sent [OF assms(1) u(1)]
    by (simp add: direct calls)
  have rw': "rw = fold rw_step (map RWrite ps) ?rw1"
    by (simp add: rw calls newResponseWriter_def)
  have c0: "code \<noteq> 0" using assms(1) by (auto simp: final_code_def)
  have first: "rw_passThrough ?rw1 \<and> rw_wroteHeader ?rw1 \<and> rw_client ?rw1 = sent code [] ?c \<or>
      buffering code ?rw1 \<and> rw_client ?rw1 = ?c \<and> rb_buf (rw_buf ?rw1) = [] \<and> rw_acceptEncoding ?rw1 = ae"
    using client_WriteHeader_sent [OF assms(1) u(1)] c0
    by (auto simp: rw_WriteHeader_def newResponseWriter_def NewResponseBuffer_def flushHeader_def buffering_def
        rb_SetContentLength_def rb_MarkSSE_def rb_Len_def Let_def split: sum.splits)
  consider "rw_passThrough rw" "rw_wroteHeader rw" "rw_client rw = sent code (concat ps) ?c"
    | "buffering code rw" "rw_client rw = ?c" "rb_buf (rw_buf rw) = concat ps" "rw_acceptEncoding rw = ae"
  proof (cases "rw_passThrough ?rw1")
    case True
    with first have "rw_wroteHeader ?rw1" "rw_client ?rw1 = sent code [] ?c" by (auto simp: buffering_def)
    with passing_writes [OF assms(1) u(2) True, of "[]" ps] True that(1) show ?thesis by (simp add: rw')
  next
    case False
    with first have b: "buffering code ?rw1" "rw_client ?rw1 = ?c" "rb_buf (rw_buf ?rw1) = []"
      "rw_acceptEncoding ?rw1 = ae" by auto
    show ?thesis
    proof (cases "rb_Len (rw_buf ?rw1) + int (length (concat ps)) \<le> rb_cap (rw_buf ?rw1)")
      case True
      with buffering_writes [OF assms(1) _ b(1), of ps] b u(1)
      have "rw = ?rw1\<lparr>rw_buf := (rw_buf ?rw1)\<lparr>rb_buf := concat ps\<rparr>\<rparr>" by (simp add: rw')
      with that(2) b True show ?thesis by (auto simp: buffering_def rb_Len_def)
    next
      case False
      with buffering_writes [OF assms(1) _ b(1), of ps] b u(1) that(1) show ?thesis by (simp add: rw')
    qed
  qed
  then show ?thesis
  proof cases
    case 1
    then show ?thesis by (simp add: finalize_def flushHeader_def coded direct')
  next
    case 2
    then have "\<not> rw_passThrough rw" by (simp add: buffering_def)
    with 2 coded have coded': "coded = recoded pf (rw_acceptEncoding rw) (cl_header (rw_client rw))"
      by (simp add: client_Header_def)
    let ?b = "if coded then gz (concat ps) else concat ps"
    from finalize_buffered [OF assms(1) _ 2(1), of ?b pf gz] u(1) 2 coded' obtain rw2
      where "finalize pf gz rw = (None, rw2)" "rw_client rw2 = sent code ?b (client_Header (final_header coded ?b) ?c)"
      by auto
    then show ?thesis
      by (auto simp: direct' sent_def client_Header_def final_header_def Header_Get_Set canon)
  qed
qed

text \<open>
  a stream of server-sent events whose handler writes without calling \<open>WriteHeader\<close> first, as
  the interface allows, is not recognised: as long as it fits the limit nothing reaches the
  client before the handler returns, however often it flushes; only the header goes out.
\<close>

theorem implicit_sse_held_back:
  assumes "int (length (concat ps)) \<le> limit" and "0 < limit"
  shows "cl_body (rw_client (fold rw_step (RHeader (Header_Set ''Content-Type'' ''text/event-stream'') #
      concat (map (\<lambda>p. [RWrite p, RFlush]) ps)) (newResponseWriter fresh_client limit ae))) = []"
proof -
  have "rb_cap (rw_buf rw) = limit \<Longrightarrow> cl_body (rw_client rw) = [] \<Longrightarrow> \<not> rw_passThrough rw \<Longrightarrow>
      \<not> rb_passThrough (rw_buf rw) \<Longrightarrow> rb_Len (rw_buf rw) + int (length (concat ps)) \<le> limit \<Longrightarrow>
      cl_body (rw_client (fold rw_step (concat (map (\<lambda>p. [RWrite p, RFlush]) ps)) rw)) = []" for rw
  proof (induction ps arbitrary: rw)
    case (Cons p ps)
    let ?rb = "(rw_buf rw)\<lparr>rb_buf := rb_buf (rw_buf rw) @ p\<rparr>"
    let ?rw = "rw\<lparr>rw_buf := ?rb, rw_client := client_Flush (rw_client rw)\<rparr>"
    have "rw_step RFlush (rw_step (RWrite p) rw) = ?rw"
      using Cons.prems by (simp add: rw_Write_def rb_Write_def rw_Flush_def rb_Len_def Let_def)
    moreover have "cl_body (rw_client ?rw) = []"
      using Cons.prems(2) by (simp add: client_Flush_def client_WriteHeader_def)
    moreover have "rb_Len (rw_buf ?rw) + int (length (concat ps)) \<le> limit"
      using Cons.prems(5) by (simp add: rb_Len_def)
    ultimately show ?case using Cons.IH [of ?rw] Cons.prems by simp
  qed simp
  with assms show ?thesis
    by (simp add: newResponseWriter_def NewResponseBuffer_def client_Header_def fresh_client_def rb_Len_def)
qed

text \<open>
  a handler that flushes before its body is complete loses its status: \<open>Flush\<close> goes to the
  server's writer while the status is still held back, which commits status 200.
\<close>

theorem flush_commits_200:
  assumes "0 < limit" and "int (length p) \<le> limit"
  shows "cl_status (rw_client (snd (finalize pf gz (fold rw_step [RWriteHeader code, RWrite p, RFlush]
      (newResponseWriter fresh_client limit ae))))) = Some 200"
proof -
  let ?rb = "\<lparr>rb_cap = limit, rb_buf = p, rb_passThrough = False\<rparr>"
  have "rw_step (RWrite p) (rw_WriteHeader code (newResponseWriter fresh_client limit ae)) =
      (newResponseWriter fresh_client limit ae)\<lparr>rw_status := code, rw_buf := ?rb\<rparr>"
    unfolding fresh_WriteHeader [OF assms(1)]
    using assms by (simp add: rw_Write_def rb_Write_def newResponseWriter_def NewResponseBuffer_def)
  then show ?thesis
    by (intro finalize_status)
      (simp add: rw_Flush_def newResponseWriter_def client_Flush_def client_WriteHeader_def fresh_client_def)
qed

text \<open>
  a response with status 204 or 304 to a client that accepts gzip fails: its empty body is
  compressed all the same, and writing the compressed bytes, which such a status does not
  allow, makes \<open>finalize\<close> return an error.
\<close>

theorem no_content_fails:
  assumes "code \<in> {204, 304}" and "acceptsGzip pf ae" and "gz [] \<noteq> []" and "0 < limit"
  shows "fst (finalize pf gz (fold rw_step [RWriteHeader code] (newResponseWriter fresh_client limit ae))) =
    Some BodyNotAllowed"
proof -
  have code: "code \<noteq> 0" "200 \<le> code" "code \<le> 999" "\<not> body_allowed code"
    using assms(1) by (auto simp: body_allowed_def)
  have fails: "client_Write p (client_WriteHeader code (client_Header f fresh_client)) = (Some BodyNotAllowed,
      client_WriteHeader code (client_Header f fresh_client))" if "p \<noteq> []" for p f
    using code that
    by (simp add: client_Write_def client_WriteHeader_def client_Header_def fresh_client_def Let_def)
  have hdr: "client_Header f (client_Header g k) = client_Header (f \<circ> g) k" for f g k
    by (simp add: client_Header_def)
  have step: "fold rw_step [RWriteHeader code] (newResponseWriter fresh_client limit ae) =
      (newResponseWriter fresh_client limit ae)\<lparr>rw_status := code\<rparr>"
    using fresh_WriteHeader [OF assms(4)] by simp
  show ?thesis
    unfolding step using assms(2-4) code fails
    by (simp add: finalize_def newResponseWriter_def NewResponseBuffer_def flushHeader_def
        rw_out_def fresh_header Recompress_def hdr Let_def)
qed

section \<open>Witnesses\<close>

lemma plain_gzip: "acceptsGzip (\<lambda>_. None) ''gzip''"
  by code_simp

lemma response_equivalent_example:
  "\<exists>rw'. finalize (\<lambda>_. None) (\<lambda>b. 31 # b) (fold rw_step [RHeader (\<lambda>_. Map.empty), RWriteHeader 200, RWrite [1, 2]]
       (newResponseWriter fresh_client 10 ''gzip'')) = (None, rw') \<and> cl_status (rw_client rw') = Some 200"
  using response_equivalent [OF _ refl refl refl refl, where code = 200 and h = Map.empty and ps = "[[1, 2]]"
      and pf = "\<lambda>_. None" and gz = "\<lambda>b. 31 # b" and limit = 10 and ae = "''gzip''"]
  by (auto simp: final_code_def body_allowed_def client_Header_def client_WriteHeader_def client_Write_def
      fresh_client_def Let_def)

theorem implicit_sse_held_back_witness:
  "cl_body (rw_client (fold rw_step (RHeader (Header_Set ''Content-Type'' ''text/event-stream'') #
      concat (map (\<lambda>p. [RWrite p, RFlush]) [[1], [2]])) (newResponseWriter fresh_client 10 ''''))) = []"
  by (rule implicit_sse_held_back) simp_all

theorem flush_commits_200_witness:
  "cl_status (rw_client (snd (finalize (\<lambda>_. None) (\<lambda>b. b) (fold rw_step [RWriteHeader 404, RWrite [1], RFlush]
      (newResponseWriter fresh_client 10 ''''))))) = Some 200"
  by (rule flush_commits_200) simp_all

theorem no_content_fails_witness:
  "fst (finalize (\<lambda>_. None) (\<lambda>b. 31 # b) (fold rw_step [RWriteHeader 204] (newResponseWriter fresh_client 10 ''gzip''))) =
    Some BodyNotAllowed"
  by (rule no_content_fails) (simp_all add: plain_gzip)

end
