(* ===== verification/Handler.thy ===== *)
theory Handler
  imports Policy Response
begin

text \<open>
  The HTTP middleware of internal/handler/handler.go and body.go: its configuration, the request
  data it gives the engine, the enforcement of verdicts and the forwarding to the next handler.
  The verdict surface is a parameter of \<open>ServeHTTP\<close>, instantiated with the fail-open policy where
  that matters; the next handler is a function from the request it receives to the calls it
  makes on its response writer and the error it returns. Log messages are left out.
\<close>

section \<open>Configuration\<close>

definition DefaultBlockPageTitle :: string where
  "DefaultBlockPageTitle = ''Request blocked''"

definition DefaultBlockPageBody :: string where
  "DefaultBlockPageBody = ''Your request was blocked by the security policy.''"

record Handler =
  hn_Engine :: EngineConfig
  hn_Mode :: string
  hn_BodyBufferLimit :: int
  hn_ResponseBufferLimit :: int
  hn_BlockStatusCode :: int
  hn_BlockPageTitle :: string
  hn_BlockPageBody :: string
  hn_FailOpen :: "bool option"
  hn_SkipCompressedBodyInspection :: bool
  hn_CustomHeaders :: "string \<rightharpoonup> string"

definition Handler_zero :: Handler where
  "Handler_zero = \<lparr>hn_Engine = EngineConfig_zero, hn_Mode = '''', hn_BodyBufferLimit = 0,
     hn_ResponseBufferLimit = 0, hn_BlockStatusCode = 0, hn_BlockPageTitle = '''', hn_BlockPageBody = '''',
     hn_FailOpen = None, hn_SkipCompressedBodyInspection = False, hn_CustomHeaders = Map.empty\<rparr>"

definition Handler_SetDefaults :: "Handler \<Rightarrow> Handler" where
  "Handler_SetDefaults h = h\<lparr>
     hn_Engine := EngineConfig_SetDefaults (hn_Engine h),
     hn_Mode := dflt_str DefaultMode (hn_Mode h),
     hn_BodyBufferLimit := dflt_int DefaultBodyBufferLimit (hn_BodyBufferLimit h),
     hn_ResponseBufferLimit := dflt_int DefaultResponseBufferLimit (hn_ResponseBufferLimit h),
     hn_BlockStatusCode := dflt_int DefaultBlockStatusCode (hn_BlockStatusCode h),
     hn_BlockPageTitle := dflt_str DefaultBlockPageTitle (hn_BlockPageTitle h),
     hn_BlockPageBody := dflt_str DefaultBlockPageBody (hn_BlockPageBody h)\<rparr>"

definition Handler_Validate :: "Handler \<Rightarrow> cfg_err list" where
  "Handler_Validate h =
     EngineConfig_Validate (hn_Engine h) @
     (if \<not> Mode_IsValid (hn_Mode h) then [BadMode (hn_Mode h)] else []) @
     (if hn_BodyBufferLimit h \<le> 0 then [NotPositive ''body_buffer_limit'' (hn_BodyBufferLimit h)] else []) @
     (if hn_ResponseBufferLimit h \<le> 0 then [NotPositive ''response_buffer_limit'' (hn_ResponseBufferLimit h)] else []) @
     (if hn_BlockStatusCode h < 400 \<or> hn_BlockStatusCode h > 599 then [BadStatus (hn_BlockStatusCode h)] else [])"

definition failClosed :: "Handler \<Rightarrow> bool" where
  "failClosed h \<longleftrightarrow> hn_FailOpen h = Some False"

text \<open>
  \<open>Provision\<close> of a handler without a preset verdict surface, on the process's pool; the wait for
  another's dial is bounded by a timeout. \<open>Cleanup\<close> of a provisioned handler.
\<close>

definition Handler_Provision ::
  "('k, 'w) net \<Rightarrow> Handler \<Rightarrow> 'k Pool \<Rightarrow> 'w \<Rightarrow> (terr option \<times> Handler \<times> 'k Pool \<times> 'w) option" where
  "Handler_Provision net h p w =
     (let h = Handler_SetDefaults h in
      Option.bind (Pool_Acquire net (Some DeadlineExceeded) (ec_RegistrationSocket (hn_Engine h)) p w)
        (\<lambda>(r, p, w). case r of
           Inl err \<Rightarrow> Some (if failClosed h then Some err else None, h, p, w)
         | Inr _ \<Rightarrow> Some (None, h, p, w)))"

definition Handler_Cleanup :: "('k, 'w) net \<Rightarrow> Handler \<Rightarrow> 'k Pool \<Rightarrow> 'w \<Rightarrow> 'k Pool \<times> 'w" where
  "Handler_Cleanup net h p w = Pool_Release net (ec_RegistrationSocket (hn_Engine h)) p w"

section \<open>Requests\<close>

text \<open>What the handler reads of a request; the request URI of the parsed URL is the library's.\<close>

record request =
  hr_Method :: string
  hr_Proto :: string
  hr_Host :: string
  hr_RequestURI :: string
  hr_URL_RequestURI :: string
  hr_RemoteAddr :: string
  hr_LocalAddr :: "string option"
  hr_Header :: header
  hr_Body :: "io_reader option"
  hr_ContentLength :: int

definition splitHostPort :: "string \<Rightarrow> string \<times> u16" where
  "splitHostPort hostport =
     (case net_SplitHostPort hostport of
        Inl _ \<Rightarrow> (hostport, 0)
      | Inr (host, portStr) \<Rightarrow>
          (case ParseUint 16 portStr of Inl _ \<Rightarrow> (host, 0) | Inr port \<Rightarrow> (host, word_of_nat port)))"

definition remoteIP :: "request \<Rightarrow> string" where
  "remoteIP r =
     (case net_SplitHostPort (hr_RemoteAddr r) of
        Inl _ \<Rightarrow> if hr_RemoteAddr r = '''' then ''127.0.0.1'' else hr_RemoteAddr r
      | Inr (host, _) \<Rightarrow> host)"

definition remotePort :: "request \<Rightarrow> u16" where
  "remotePort r =
     (case net_SplitHostPort (hr_RemoteAddr r) of
        Inl _ \<Rightarrow> 0
      | Inr (_, portStr) \<Rightarrow> (case ParseUint 16 portStr of Inl _ \<Rightarrow> 0 | Inr port \<Rightarrow> word_of_nat port))"

definition localIP :: "request \<Rightarrow> string" where
  "localIP r =
     (let fallback = (if remoteIP r \<noteq> '''' then remoteIP r else ''0.0.0.0'') in
      case hr_LocalAddr r of
        None \<Rightarrow> fallback
      | Some addr \<Rightarrow> (case net_SplitHostPort addr of Inr (host, _) \<Rightarrow> host | Inl _ \<Rightarrow> fallback))"

definition requestStart :: "request \<Rightarrow> RequestStart" where
  "requestStart r =
     (let (host, port) = splitHostPort (hr_Host r) in
      \<lparr>rs_SessionID = 0, rs_HTTPProtocol = hr_Proto r, rs_Method = hr_Method r, rs_Host = host,
       rs_ListeningIP = localIP r, rs_ListeningPort = port, rs_UnparsedURI = hr_RequestURI r,
       rs_ClientIP = remoteIP r, rs_ClientPort = remotePort r, rs_ParsedHost = host,
       rs_ParsedURI = hr_URL_RequestURI r, rs_WAFTag = ''''\<rparr>)"

text \<open>The order in which the header map is iterated is not determined: \<open>keys\<close> is that order.\<close>

definition requestHeaders :: "string list \<Rightarrow> request \<Rightarrow> Header list" where
  "requestHeaders keys r =
     (if hr_Host r \<noteq> '''' then [\<lparr>hd_Key = ''Host'', hd_Value = hr_Host r\<rparr>] else []) @
     concat (map (\<lambda>k. map (\<lambda>v. \<lparr>hd_Key = k, hd_Value = v\<rparr>)
       (case hr_Header r k of None \<Rightarrow> [] | Some vs \<Rightarrow> vs)) keys)"

text \<open>
  Reading the body: the bytes, or the error after which the body is consumed and closed.
\<close>

definition closed_body :: io_reader where
  "closed_body = \<lparr>io_data = [], io_err = IO_Failed ''http: invalid Read on closed Body''\<rparr>"

definition readRequestBody :: "request \<Rightarrow> (read_err + bytes) \<times> request" where
  "readRequestBody r =
     (case hr_Body r of
        None \<Rightarrow> (Inr [], r)
      | Some b \<Rightarrow>
          (if io_err b = IO_EOF then Inr (io_data b) else Inl (io_err b), r\<lparr>hr_Body := Some closed_body\<rparr>))"

definition newRequestBody :: "bytes \<Rightarrow> io_reader option" where
  "newRequestBody b = Some \<lparr>io_data = b, io_err = IO_EOF\<rparr>"

text \<open>
  One injection: a header injection without a colon is skipped, any other is added to the headers,
  and a body injection is appended; the flag says whether anything was changed.
\<close>

fun applyInjection :: "Injection \<Rightarrow> request \<times> bytes \<times> bool \<Rightarrow> request \<times> bytes \<times> bool" where
  "applyInjection ij (r, applied, changed) =
     (if inj_IsHeader ij then
        (case Cut (of_bytes (inj_Data ij)) (CHR '':'') of
           None \<Rightarrow> (r, applied, changed)
         | Some (name, value) \<Rightarrow>
             (r\<lparr>hr_Header := Header_Add (TrimSpace name) (TrimSpace value) (hr_Header r)\<rparr>, applied, True))
      else (r, applied @ inj_Data ij, True))"

definition applyInjections :: "request \<Rightarrow> bytes \<Rightarrow> Injection list \<Rightarrow> request \<times> bytes \<times> bool" where
  "applyInjections r body injs = fold applyInjection injs (r, body, False)"

section \<open>Responses\<close>

datatype serve_err = OriginFailed string | WriteFailed write_err

type_synonym origin = "request \<Rightarrow> resp_call list \<times> string option"

definition forward ::
  "(string \<Rightarrow> qval option) \<Rightarrow> (bytes \<Rightarrow> bytes) \<Rightarrow> Handler \<Rightarrow> origin \<Rightarrow> request \<Rightarrow> client \<Rightarrow> serve_err option \<times> client" where
  "forward pf gz h origin r c =
     (case origin r of (calls, err) \<Rightarrow>
        let rw = fold rw_step calls
          (newResponseWriter c (hn_ResponseBufferLimit h) (Header_Get (hr_Header r) ''Accept-Encoding'')) in
        case err of
          Some e \<Rightarrow> (Some (OriginFailed e), rw_client rw)
        | None \<Rightarrow> (case finalize pf gz rw of (e, rw) \<Rightarrow> (map_option WriteFailed e, rw_client rw)))"

definition writeUnavailable :: "client \<Rightarrow> client" where
  "writeUnavailable c =
     snd (client_Write (to_bytes (''Bad Gateway'' @ [CHR 0x0A])) (client_WriteHeader 502
       (client_Header (Header_Set ''X-Content-Type-Options'' ''nosniff'')
         (client_Header (Header_Set ''Content-Type'' ''text/plain; charset=utf-8'') c))))"

definition nl :: string where
  "nl = [CHR 0x0A]"

definition block_html :: "string \<Rightarrow> string \<Rightarrow> string" where
  "block_html title page =
     ''<!DOCTYPE html>'' @ nl @ ''<html>'' @ nl @ ''<head><title>'' @ title @ ''</title></head>'' @ nl @
     ''<body>'' @ nl @ ''<h1>'' @ title @ ''</h1>'' @ nl @ ''<p>'' @ page @ ''</p>'' @ nl @
     ''</body>'' @ nl @ ''</html>'' @ nl"

text \<open>The status, title and text of the block page for a verdict.\<close>

definition block_page :: "Handler \<Rightarrow> Verdict \<Rightarrow> int \<times> string \<times> string" where
  "block_page h v =
     (case vd_WebResponse v of
        Some wr \<Rightarrow>
          if wr_Type wr = WebResponseCustom then
            (if wr_StatusCode wr \<noteq> 0 then uint (wr_StatusCode wr) else hn_BlockStatusCode h,
             if wr_Title wr \<noteq> '''' then wr_Title wr else hn_BlockPageTitle h,
             if wr_Body wr \<noteq> '''' then wr_Body wr else hn_BlockPageBody h)
          else (hn_BlockStatusCode h, hn_BlockPageTitle h, hn_BlockPageBody h)
      | None \<Rightarrow> (hn_BlockStatusCode h, hn_BlockPageTitle h, hn_BlockPageBody h))"

definition writeBlock :: "Handler \<Rightarrow> Verdict \<Rightarrow> client \<Rightarrow> client" where
  "writeBlock h v c =
     (case block_page h v of (status, title, page) \<Rightarrow>
        snd (client_Write (to_bytes (block_html title page))
          (client_WriteHeader status (client_Header (Header_Set ''Content-Type'' ''text/html; charset=utf-8'') c))))"

definition verdictStatusCode :: "Verdict option \<Rightarrow> u16" where
  "verdictStatusCode v =
     (case v of
        None \<Rightarrow> 403
      | Some v \<Rightarrow> (case vd_WebResponse v of
          Some wr \<Rightarrow> if wr_StatusCode wr \<noteq> 0 then wr_StatusCode wr else 403
        | None \<Rightarrow> 403))"

section \<open>Serving a request\<close>

type_synonym 'w acquirer = "RequestData \<Rightarrow> 'w \<Rightarrow> ((terr + Verdict) \<times> 'w) option"

definition ServeHTTP ::
  "(string \<Rightarrow> qval option) \<Rightarrow> (bytes \<Rightarrow> bytes) \<Rightarrow> (header \<Rightarrow> string list) \<Rightarrow> Handler \<Rightarrow> 'w acquirer option \<Rightarrow>
   origin \<Rightarrow> request \<Rightarrow> client \<Rightarrow> 'w \<Rightarrow> (serve_err option \<times> client \<times> 'w) option" where
  "ServeHTTP pf gz keys h acquirer origin r c w =
     (case acquirer of
        None \<Rightarrow>
          if failClosed h then Some (None, writeUnavailable c, w)
          else (case origin r of (calls, err) \<Rightarrow> Some (map_option OriginFailed err, fold client_step calls c, w))
      | Some acquire \<Rightarrow>
          (case readRequestBody r of
             (Inl _, r) \<Rightarrow> (case forward pf gz h origin r c of (e, c) \<Rightarrow> Some (e, c, w))
           | (Inr original, r) \<Rightarrow>
               let r = r\<lparr>hr_Body := newRequestBody original\<rparr> in
               Option.bind (acquire \<lparr>rq_Start = requestStart r, rq_Headers = requestHeaders (keys (hr_Header r)) r,
                   rq_Body = original\<rparr> w) (\<lambda>(res, w).
                 case res of
                   Inl _ \<Rightarrow>
                     if failClosed h then Some (None, writeUnavailable c, w)
                     else (case forward pf gz h origin r c of (e, c) \<Rightarrow> Some (e, c, w))
                 | Inr v \<Rightarrow>
                     if vd_Kind v = VerdictDrop \<or> vd_Kind v = VerdictCustomResponse then
                       (if hn_Mode h = ModeLearn
                        then (case forward pf gz h origin r c of (e, c) \<Rightarrow> Some (e, c, w))
                        else Some (None, writeBlock h v c, w))
                     else if vd_Kind v = VerdictInject then
                       (case applyInjections r original (vd_Injections v) of
                          (r, applied, changed) \<Rightarrow>
                            let r = (if changed then r\<lparr>hr_Body := newRequestBody applied\<rparr> else r) in
                            (case forward pf gz h origin r c of (e, c) \<Rightarrow> Some (e, c, w)))
                     else (case forward pf gz h origin r c of (e, c) \<Rightarrow> Some (e, c, w)))))"

section \<open>Lemmas\<close>

text \<open>A body that can be read, and the request with it restored.\<close>

definition readable :: "request \<Rightarrow> bytes \<Rightarrow> bool" where
  "readable r b \<longleftrightarrow> (case hr_Body r of None \<Rightarrow> b = [] | Some rd \<Rightarrow> io_err rd = IO_EOF \<and> b = io_data rd)"

definition restored :: "request \<Rightarrow> bytes \<Rightarrow> request" where
  "restored r b = r\<lparr>hr_Body := newRequestBody b\<rparr>"

lemma readable_read: "readable r b \<Longrightarrow> \<exists>r'. readRequestBody r = (Inr b, r') \<and> r'\<lparr>hr_Body := x\<rparr> = r\<lparr>hr_Body := x\<rparr>"
  by (auto simp: readable_def readRequestBody_def split: option.splits)

text \<open>The request data given to the verdict surface.\<close>

definition request_data :: "(header \<Rightarrow> string list) \<Rightarrow> request \<Rightarrow> bytes \<Rightarrow> RequestData" where
  "request_data keys r b = \<lparr>rq_Start = requestStart r, rq_Headers = requestHeaders (keys (hr_Header r)) r, rq_Body = b\<rparr>"

lemma restored_fields [simp]:
  "hr_Host (restored r b) = hr_Host r" "hr_Header (restored r b) = hr_Header r"
  "hr_RemoteAddr (restored r b) = hr_RemoteAddr r" "hr_LocalAddr (restored r b) = hr_LocalAddr r"
  "hr_Proto (restored r b) = hr_Proto r" "hr_Method (restored r b) = hr_Method r"
  "hr_RequestURI (restored r b) = hr_RequestURI r" "hr_URL_RequestURI (restored r b) = hr_URL_RequestURI r"
  by (simp_all add: restored_def)

lemma restored_start [simp]: "requestStart (restored r b) = requestStart r"
  unfolding requestStart_def localIP_def remoteIP_def remotePort_def restored_fields ..

lemma restored_headers [simp]: "requestHeaders ks (restored r b) = requestHeaders ks r"
  unfolding requestHeaders_def restored_fields ..

lemma ServeHTTP_readable:
  assumes "readable r b" and "acquire (request_data keys r b) w = Some (res, w')"
  shows "ServeHTTP pf gz keys h (Some acquire) origin r c w =
    (let fwd = (\<lambda>r. case forward pf gz h origin r c of (e, c) \<Rightarrow> Some (e, c, w')) in
     case res of
       Inl _ \<Rightarrow> if failClosed h then Some (None, writeUnavailable c, w') else fwd (restored r b)
     | Inr v \<Rightarrow>
         if vd_Kind v = VerdictDrop \<or> vd_Kind v = VerdictCustomResponse then
           (if hn_Mode h = ModeLearn then fwd (restored r b) else Some (None, writeBlock h v c, w'))
         else if vd_Kind v = VerdictInject then
           (case applyInjections (restored r b) b (vd_Injections v) of
              (r, applied, changed) \<Rightarrow> fwd (if changed then r\<lparr>hr_Body := newRequestBody applied\<rparr> else r))
         else fwd (restored r b))"
proof -
  obtain r' where r': "readRequestBody r = (Inr b, r')" "r'\<lparr>hr_Body := newRequestBody b\<rparr> = restored r b"
    using readable_read [OF assms(1), of "newRequestBody b"] by (auto simp: restored_def)
  show ?thesis
    using assms(2) unfolding ServeHTTP_def request_data_def option.case r'(1) prod.case sum.case Let_def r'(2)
    by (simp cong: sum.case_cong)
qed

lemma block_writes:
  assumes "p \<noteq> []"
  shows "let c = snd (client_Write p (client_WriteHeader s (client_Header f fresh_client))) in
    (final_code s \<longrightarrow> cl_status c = Some s \<and> cl_body c = p \<and> cl_sent c = f Map.empty) \<and>
    (100 \<le> s \<and> s \<le> 999 \<longrightarrow> cl_status c = Some (if s < 200 \<and> s \<noteq> 101 then 200 else s) \<and>
       cl_body c = (if s \<in> {101, 204, 304} then [] else p) \<and> \<not> cl_panicked c) \<and>
    (s < 100 \<or> 999 < s \<longrightarrow> cl_panicked c)"
  using assms
  by (auto simp: client_Write_def client_WriteHeader_def client_Header_def fresh_client_def final_code_def
      body_allowed_def Let_def)

lemma block_html_nonempty: "to_bytes (block_html t p) \<noteq> []"
  by (simp add: block_html_def to_bytes_def)

lemma block_page_posture: "block_page (h\<lparr>hn_FailOpen := x\<rparr>) v = block_page h v"
  by (simp add: block_page_def split: option.split)

text \<open>The fail-open policy as the verdict surface.\<close>

definition policy_acquirer ::
  "('k, 'w) net \<Rightarrow> EngineConfig \<Rightarrow> ctx \<Rightarrow> ('k Pool \<times> 'w) acquirer" where
  "policy_acquirer net cfg ctx req = (\<lambda>(p, w). map_option (\<lambda>(r, p, w). (r, (p, w))) (AcquireVerdict net cfg ctx req p w))"

lemma on_error_open: "failOpenEnabled cfg \<Longrightarrow> on_error cfg sid e = Inr (failOpenVerdict sid)"
  by (simp add: on_error_def)

lemma finish_res: "finish net cfg i sid res c p w = Some (r, p', w') \<Longrightarrow> r = res"
  by (auto simp: finish_def release_with_def bind_eq_Some_conv)

lemma release_with_res: "release_with net cfg res p w = (r, p', w') \<Longrightarrow> r = res"
  by (simp add: release_with_def)

lemma AcquireVerdict_open:
  assumes "failOpenEnabled cfg" and "AcquireVerdict net cfg ctx req p w = Some (Inl e, p', w')"
  shows False
proof -
  obtain x p1 w1 where a: "Pool_Acquire net ctx (ec_RegistrationSocket cfg) p w = Some (x, p1, w1)"
    using assms(2) by (auto simp: AcquireVerdict_def bind_eq_Some_conv)
  show False
  proof (cases x)
    case Inl
    with a assms show False by (auto simp: AcquireVerdict_def on_error_open)
  next
    case (Inr i)
    with a assms obtain y c w2 where q: "SendRequest net req (pl_conns p1 i) w1 = Some (y, c, w2)"
      by (auto simp: AcquireVerdict_def bind_eq_Some_conv)
    show False
    proof (cases y)
      case Inl
      with q a assms \<open>x = Inr i\<close> show False
        by (auto simp: AcquireVerdict_def on_error_open dest!: release_with_res)
    next
      case (Inr sid)
      with q a assms(2) \<open>x = Inr i\<close> obtain v w3 where "finish net cfg i sid
          (case v of Inl err \<Rightarrow> on_error cfg sid err | Inr v \<Rightarrow> Inr v) c p1 w3 = Some (Inl e, p', w')"
        by (auto simp: AcquireVerdict_def bind_eq_Some_conv)
      from finish_res [OF this] show False by (cases v) (simp_all add: on_error_open [OF assms(1)])
    qed
  qed
qed

section \<open>Properties\<close>

text \<open>
  C6: in prevent mode a request whose body can be read, and which the engine decides to drop or to
  answer itself, never reaches the next handler, whatever that is. What is written instead depends
  on the status of the verdict's or the configured page: with a status of three digits from 200 on,
  other than 204 and 304, that status and the block page, and nothing else; with 101, 204 or 304 the
  status and no page, as these have no body; with another status below 200 the page under 200,
  as an informational status does not end the response; and a status that has not three digits makes
  the handler panic.
\<close>

theorem blocked_never_forwarded:
  assumes "readable r b" and "acquire (request_data keys r b) w = Some (Inr v, w')"
    and "vd_Kind v = VerdictDrop \<or> vd_Kind v = VerdictCustomResponse" and "hn_Mode h \<noteq> ModeLearn"
    and "block_page h v = (status, title, page)"
  shows "\<exists>c. (\<forall>origin. ServeHTTP pf gz keys h (Some acquire) origin r fresh_client w = Some (None, c, w')) \<and>
    (100 \<le> status \<and> status \<le> 999 \<longrightarrow> cl_status c = Some (if status < 200 \<and> status \<noteq> 101 then 200 else status) \<and>
       cl_body c = (if status \<in> {101, 204, 304} then [] else to_bytes (block_html title page)) \<and> \<not> cl_panicked c) \<and>
    (status < 100 \<or> 999 < status \<longrightarrow> cl_panicked c)"
proof -
  have "\<forall>origin. ServeHTTP pf gz keys h (Some acquire) origin r fresh_client w = Some (None, writeBlock h v fresh_client, w')"
    using ServeHTTP_readable [where acquire = acquire and keys = keys, OF assms(1,2)] assms(3,4) by simp
  moreover have "(100 \<le> status \<and> status \<le> 999 \<longrightarrow>
      cl_status (writeBlock h v fresh_client) = Some (if status < 200 \<and> status \<noteq> 101 then 200 else status) \<and>
      cl_body (writeBlock h v fresh_client) = (if status \<in> {101, 204, 304} then [] else to_bytes (block_html title page)) \<and>
      \<not> cl_panicked (writeBlock h v fresh_client)) \<and>
    (status < 100 \<or> 999 < status \<longrightarrow> cl_panicked (writeBlock h v fresh_client))"
    using block_writes [OF block_html_nonempty [of title page], where s = status] assms(5)
    by (simp add: writeBlock_def Let_def)
  ultimately show ?thesis by blast
qed


text \<open>
  the handler's \<open>fail_open false\<close> has no effect: the policy it is given takes its posture from the
  engine configuration, where an unset value means fail-open, so no error ever reaches the
  handler and the request is served as with \<open>fail_open true\<close>.
\<close>

lemma fail_open_false_ineffective:
  assumes "ec_FailOpen (hn_Engine h) \<noteq> Some False"
  shows "ServeHTTP pf gz keys (h\<lparr>hn_FailOpen := Some False\<rparr>) (Some (policy_acquirer net (hn_Engine h) ctx)) origin r c s =
    ServeHTTP pf gz keys (h\<lparr>hn_FailOpen := Some True\<rparr>) (Some (policy_acquirer net (hn_Engine h) ctx)) origin r c s"
proof -
  have op: "failOpenEnabled (hn_Engine h)"
    using assms by (auto simp: failOpenEnabled_def split: option.splits)
  let ?acq = "policy_acquirer net (hn_Engine h) ctx"
  have fwd: "forward pf gz (h\<lparr>hn_FailOpen := x\<rparr>) origin r c = forward pf gz h origin r c" for x r c
    by (simp add: forward_def)
  have blk: "writeBlock (h\<lparr>hn_FailOpen := x\<rparr>) v c = writeBlock h v c" for x v c
    using block_page_posture [where h = h and x = x and v = v] by (simp add: writeBlock_def)
  have noerr: "?acq req s \<noteq> Some (Inl e, s')" for req s e s'
    using AcquireVerdict_open [OF op]
    by (cases s) (auto simp: policy_acquirer_def)
  show ?thesis
  proof (cases "readRequestBody r")
    case (Pair x r')
    show ?thesis
    proof (cases x)
      case Inl
      with Pair show ?thesis by (simp add: ServeHTTP_def fwd)
    next
      case (Inr b)
      let ?req = "\<lparr>rq_Start = requestStart (r'\<lparr>hr_Body := newRequestBody b\<rparr>),
        rq_Headers = requestHeaders (keys (hr_Header r')) (r'\<lparr>hr_Body := newRequestBody b\<rparr>), rq_Body = b\<rparr>"
      show ?thesis
      proof (cases "?acq ?req s")
        case None
        with Pair Inr show ?thesis by (simp add: ServeHTTP_def)
      next
        case (Some y)
        obtain res s' where y: "y = (res, s')" by (cases y)
        with Some noerr obtain v where "res = Inr v" by (cases res) auto
        with Pair Inr Some y show ?thesis by (simp add: ServeHTTP_def fwd blk Let_def)
      qed
    qed
  qed
qed

text \<open>
  a request whose body cannot be read is forwarded without inspection, also when failing
  closed: neither the engine nor the posture is consulted, and the next handler gets the
  consumed body.
\<close>

theorem unreadable_body_uninspected:
  assumes "hr_Body r = Some rd" and "io_err rd \<noteq> IO_EOF"
  shows "ServeHTTP pf gz keys h (Some acquire) origin r c w =
    ServeHTTP pf gz keys (h\<lparr>hn_FailOpen := x\<rparr>) (Some (\<lambda>_ w. Some (Inr (failOpenVerdict 0), w))) origin
      r c w \<and>
    (\<exists>e c'. ServeHTTP pf gz keys h (Some acquire) origin r c w = Some (e, c', w) \<and>
       (e, c') = forward pf gz h origin (r\<lparr>hr_Body := Some closed_body\<rparr>) c)"
  using assms by (simp add: ServeHTTP_def readRequestBody_def forward_def split: prod.splits)

text \<open>
  learn mode does not forward every request as it is: the injections of an INJECT verdict are
  applied in learn mode as in prevent mode.
\<close>

theorem learn_mode_injects:
  assumes "readable r b" and "acquire (request_data keys r b) w = Some (Inr v, w')"
    and "vd_Kind v = VerdictInject" and "vd_Injections v = [ij]" and "\<not> inj_IsHeader ij"
  shows "ServeHTTP pf gz keys (h\<lparr>hn_Mode := ModeLearn\<rparr>) (Some acquire) origin r c w =
    (case forward pf gz h origin (r\<lparr>hr_Body := newRequestBody (b @ inj_Data ij)\<rparr>) c of (e, c) \<Rightarrow> Some (e, c, w')) \<and>
    hr_ContentLength (r\<lparr>hr_Body := newRequestBody (b @ inj_Data ij)\<rparr>) = hr_ContentLength r"
proof -
  have "forward pf gz (h\<lparr>hn_Mode := ModeLearn\<rparr>) origin r c = forward pf gz h origin r c" for r c
    by (simp add: forward_def)
  then show ?thesis
    using ServeHTTP_readable [where acquire = acquire and keys = keys, OF assms(1,2)] assms(3-5)
    by (simp add: applyInjections_def restored_def go_consts)
qed

text \<open>
  the web response of a CUSTOM_RESPONSE verdict is never used: whatever frame the engine sends,
  if it parses to such a verdict, the client gets the handler's own block page and status.
\<close>

theorem custom_response_ignored:
  assumes "ParseVerdict q = Inr v" and "vd_Kind v = VerdictCustomResponse"
  shows "block_page h v = (hn_BlockStatusCode h, hn_BlockPageTitle h, hn_BlockPageBody h) \<and>
    (\<exists>wr. vd_WebResponse v = Some wr \<and> verdictStatusCode (Some v) = (if wr_StatusCode wr \<noteq> 0 then wr_StatusCode wr else 403))"
proof -
  have "Verdict_wf v" by (rule verdict.parse_wf [OF assms(1)])
  with assms(2) obtain wr where "vd_WebResponse v = Some wr" "wr_Type wr = WebResponseWithHeaders"
    by (auto simp: Verdict_wf_def custom_response_wf_def go_consts)
  then show ?thesis by (simp add: block_page_def verdictStatusCode_def go_consts)
qed

section \<open>Witnesses\<close>

text \<open>A default handler, a request with a body, and an engine that gives one verdict.\<close>

definition default_handler :: Handler where
  "default_handler = Handler_SetDefaults Handler_zero"

definition example_post :: request where
  "example_post = \<lparr>hr_Method = ''POST'', hr_Proto = ''HTTP/1.1'', hr_Host = ''a.example:8080'', hr_RequestURI = ''/x'',
     hr_URL_RequestURI = ''/x'', hr_RemoteAddr = ''10.0.0.1:999'', hr_LocalAddr = None, hr_Header = Map.empty,
     hr_Body = Some \<lparr>io_data = [1, 2], io_err = IO_EOF\<rparr>, hr_ContentLength = 2\<rparr>"

definition example_cut :: request where
  "example_cut = example_post\<lparr>hr_Body := Some \<lparr>io_data = [1, 2], io_err = IO_UnexpectedEOF\<rparr>\<rparr>"

definition always :: "Verdict \<Rightarrow> unit acquirer" where
  "always v = (\<lambda>req w. Some (Inr v, w))"

definition drop_verdict :: Verdict where
  "drop_verdict = (failOpenVerdict 3)\<lparr>vd_Kind := VerdictDrop\<rparr>"

definition inject_verdict :: Verdict where
  "inject_verdict = (failOpenVerdict 3)\<lparr>vd_Kind := VerdictInject, vd_Injections := [\<lparr>inj_InjectionPos = 0,
     inj_ModType = 0, inj_InjectionSize = 1, inj_IsHeader = False, inj_OrigBufferIndex = 0, inj_Data = [9]\<rparr>]\<rparr>"

definition page_origin :: origin where
  "page_origin = (\<lambda>r. ([RHeader (\<lambda>_. Map.empty), RWriteHeader 200, RWrite [7]], None))"

lemma example_readable: "readable example_post [1, 2]"
  by (simp add: readable_def example_post_def)

lemma default_handler_fields: "hn_Mode default_handler = ModePrevent" "hn_BlockStatusCode default_handler = 403"
    "hn_FailOpen default_handler = None"
  by (simp_all add: default_handler_def Handler_SetDefaults_def Handler_zero_def dflt_str_def dflt_int_def
      DefaultMode_def DefaultBlockStatusCode_def)

theorem blocked_never_forwarded_witness:
  "\<exists>c. ServeHTTP (\<lambda>_. None) (\<lambda>b. b) (\<lambda>_. []) default_handler (Some (always drop_verdict)) page_origin example_post
     fresh_client () = Some (None, c, ()) \<and> cl_status c = Some 403"
proof -
  have page: "block_page default_handler drop_verdict =
      (403, hn_BlockPageTitle default_handler, hn_BlockPageBody default_handler)"
    by (simp add: block_page_def drop_verdict_def failOpenVerdict_def default_handler_fields)
  from blocked_never_forwarded [OF example_readable _ _ _ page, of "always drop_verdict" "\<lambda>_. []" "()" "()"
      "\<lambda>_. None" "\<lambda>b. b"]
  show ?thesis
    by (auto simp: always_def drop_verdict_def default_handler_fields ModePrevent_def ModeLearn_def)
qed


lemma fail_open_false_ineffective_example:
  "ServeHTTP (\<lambda>_. None) (\<lambda>b. b) (\<lambda>_. []) (default_handler\<lparr>hn_FailOpen := Some False\<rparr>)
     (Some (policy_acquirer (script_net False) (hn_Engine default_handler) None)) page_origin example_post fresh_client
     (pool0, accepting) =
   ServeHTTP (\<lambda>_. None) (\<lambda>b. b) (\<lambda>_. []) (default_handler\<lparr>hn_FailOpen := Some True\<rparr>)
     (Some (policy_acquirer (script_net False) (hn_Engine default_handler) None)) page_origin example_post fresh_client
     (pool0, accepting)"
  by (rule fail_open_false_ineffective)
    (simp add: default_handler_def Handler_SetDefaults_def Handler_zero_def EngineConfig_SetDefaults_def
      EngineConfig_zero_def dflt_bool_def)

theorem unreadable_body_uninspected_witness:
  "\<exists>e c'. ServeHTTP (\<lambda>_. None) (\<lambda>b. b) (\<lambda>_. []) default_handler (Some (always drop_verdict)) page_origin example_cut
     fresh_client () = Some (e, c', ())"
proof -
  have body: "hr_Body example_cut = Some \<lparr>io_data = [1, 2], io_err = IO_UnexpectedEOF\<rparr>"
    by (simp add: example_cut_def)
  show ?thesis
    using conjunct2 [OF unreadable_body_uninspected [OF body, of "\<lambda>_. None" "\<lambda>b. b" "\<lambda>_. []" default_handler
        "always drop_verdict" page_origin fresh_client "()" None]]
    by auto
qed

theorem learn_mode_injects_witness:
  "\<exists>e c. ServeHTTP (\<lambda>_. None) (\<lambda>b. b) (\<lambda>_. []) (default_handler\<lparr>hn_Mode := ModeLearn\<rparr>) (Some (always inject_verdict))
     page_origin example_post fresh_client () = Some (e, c, ())"
  using learn_mode_injects [where acquire = "always inject_verdict" and keys = "\<lambda>_. []" and v = inject_verdict
      and w = "()" and w' = "()" and pf = "\<lambda>_. None" and gz = "\<lambda>b. b" and h = default_handler and origin = page_origin
      and c = fresh_client and ij = "hd (vd_Injections inject_verdict)", OF example_readable]
  by (auto simp: always_def inject_verdict_def split: prod.splits)

theorem custom_response_ignored_witness:
  "\<exists>q v. ParseVerdict q = Inr v \<and> vd_Kind v = VerdictCustomResponse \<and>
     block_page default_handler v = (403, hn_BlockPageTitle default_handler, hn_BlockPageBody default_handler)"
proof -
  let ?v = "(failOpenVerdict 3)\<lparr>vd_Kind := VerdictCustomResponse,
    vd_WebResponse := Some ((empty_web_response WebResponseWithHeaders)\<lparr>wr_StatusCode := 418\<rparr>)\<rparr>"
  have "ParseVerdict (projr (Verdict_Encode ?v)) = Inr ?v" by code_simp
  from custom_response_ignored [OF this] this show ?thesis
    by (intro exI [of _ "projr (Verdict_Encode ?v)"] exI [of _ ?v]) (simp add: default_handler_fields)
qed

end
