(* ===== verification/Caddyfile.thy ===== *)
theory Caddyfile
  imports Handler
begin

text \<open>
  The Caddyfile directive of internal/handler/caddyfile.go. Caddy's token dispenser is a parameter
  of the model, the record \<open>dispenser\<close> of the methods the source calls; how the tokens of a file
  become its state is Caddy's. The loops over blocks are partial functions into \<open>option\<close>, and
  that they end is proved from what the dispenser documents: a call that succeeds has moved on.
\<close>

section \<open>Dispenser\<close>

record 's dispenser =
  dp_Next :: "'s \<Rightarrow> bool \<times> 's"
  dp_NextBlock :: "nat \<Rightarrow> 's \<Rightarrow> bool \<times> 's"
  dp_NextArg :: "'s \<Rightarrow> bool \<times> 's"
  dp_Val :: "'s \<Rightarrow> string"

datatype caddy_err =
    ArgErr
  | InvalidInteger string string
  | InvalidBoolean string string
  | InvalidSize string num_err
  | UnrecognizedOption string
  | UnrecognizedEngineOption string

section \<open>Sizes\<close>

definition size_suffixes :: "(string \<times> int) list" where
  "size_suffixes = [(''gib'', 1073741824), (''gb'', 1073741824), (''mib'', 1048576), (''mb'', 1048576),
     (''kib'', 1024), (''kb'', 1024), (''b'', 1)]"

definition parseSize :: "string \<Rightarrow> num_err + int" where
  "parseSize s =
     (let s = TrimSpace s in
      if s = '''' then Inl ErrSyntax
      else
        let lower = ToLower s;
            (mult, s) = (case find (\<lambda>(suf, _). HasSuffix lower suf) size_suffixes of
                Some (suf, factor) \<Rightarrow> (factor, take (length s - length suf) s)
              | None \<Rightarrow> (1, s));
            s = TrimSpace s
        in if s = '''' then Inl ErrSyntax
           else case ParseInt 64 s of
             Inl e \<Rightarrow> Inl e
           | Inr n \<Rightarrow> if n < 0 \<or> n > (2 ^ 63 - 1) div mult then Inl ErrRange else Inr (n * mult))"

section \<open>Arguments\<close>

text \<open>One argument, as the text of the next token of the line.\<close>

definition arg :: "'s dispenser \<Rightarrow> 's \<Rightarrow> (caddy_err + string) \<times> 's" where
  "arg d s = (case dp_NextArg d s of (ok, s) \<Rightarrow> if \<not> ok then (Inl ArgErr, s) else (Inr (dp_Val d s), s))"

definition sizeArg :: "'s dispenser \<Rightarrow> 's \<Rightarrow> (caddy_err + int) \<times> 's" where
  "sizeArg d s =
     (case arg d s of
        (Inl e, s) \<Rightarrow> (Inl e, s)
      | (Inr v, s) \<Rightarrow> (case parseSize v of Inl e \<Rightarrow> (Inl (InvalidSize v e), s) | Inr n \<Rightarrow> (Inr n, s)))"

definition intArg :: "'s dispenser \<Rightarrow> string \<Rightarrow> 's \<Rightarrow> (caddy_err + int) \<times> 's" where
  "intArg d name s =
     (case arg d s of
        (Inl e, s) \<Rightarrow> (Inl e, s)
      | (Inr v, s) \<Rightarrow> (case ParseInt 64 v of Inl _ \<Rightarrow> (Inl (InvalidInteger name v), s) | Inr n \<Rightarrow> (Inr n, s)))"

definition ParseBool :: "string \<Rightarrow> bool option" where
  "ParseBool s =
     (if s \<in> set [''1'', ''t'', ''T'', ''true'', ''TRUE'', ''True''] then Some True
      else if s \<in> set [''0'', ''f'', ''F'', ''false'', ''FALSE'', ''False''] then Some False
      else None)"

definition boolArg :: "'s dispenser \<Rightarrow> string \<Rightarrow> 's \<Rightarrow> (caddy_err + bool) \<times> 's" where
  "boolArg d name s =
     (case arg d s of
        (Inl e, s) \<Rightarrow> (Inl e, s)
      | (Inr v, s) \<Rightarrow> (case ParseBool v of None \<Rightarrow> (Inl (InvalidBoolean name v), s) | Some b \<Rightarrow> (Inr b, s)))"

definition set_arg :: "('a \<Rightarrow> 'c \<Rightarrow> 'c) \<Rightarrow> 'c \<Rightarrow> (caddy_err + 'a) \<times> 's \<Rightarrow> (caddy_err + 'c) \<times> 's" where
  "set_arg f c r = (case r of (Inl e, s) \<Rightarrow> (Inl e, s) | (Inr v, s) \<Rightarrow> (Inr (f v c), s))"

section \<open>Engine block\<close>

definition engine_strings :: "(string \<times> (string \<Rightarrow> EngineConfig \<Rightarrow> EngineConfig)) list" where
  "engine_strings =
     [(''registration_socket'', \<lambda>v. ec_RegistrationSocket_update (\<lambda>_. v)),
      (''keep_alive_path'', \<lambda>v. ec_KeepAlivePath_update (\<lambda>_. v)),
      (''verdict_signal_path'', \<lambda>v. ec_VerdictSignalPath_update (\<lambda>_. v)),
      (''transport'', \<lambda>v. ec_Transport_update (\<lambda>_. v)),
      (''family_name'', \<lambda>v. ec_FamilyName_update (\<lambda>_. v)),
      (''attachment_type'', \<lambda>v. ec_AttachmentType_update (\<lambda>_. v)),
      (''log_level'', \<lambda>v. ec_LogLevel_update (\<lambda>_. v))]"

definition engine_ints :: "(string \<times> (int \<Rightarrow> EngineConfig \<Rightarrow> EngineConfig)) list" where
  "engine_ints =
     [(''worker_id'', \<lambda>n. ec_WorkerID_update (\<lambda>_. n)),
      (''workers'', \<lambda>n. ec_Workers_update (\<lambda>_. n)),
      (''keep_alive_interval_ms'', \<lambda>n. ec_KeepAliveIntervalMs_update (\<lambda>_. n)),
      (''registration_timeout_ms'', \<lambda>n. ec_RegistrationTimeoutMs_update (\<lambda>_. n)),
      (''reconnect_backoff_min_ms'', \<lambda>n. ec_ReconnectBackoffMinMs_update (\<lambda>_. n)),
      (''reconnect_backoff_max_ms'', \<lambda>n. ec_ReconnectBackoffMaxMs_update (\<lambda>_. n)),
      (''fail_open_timeout_ms'', \<lambda>n. ec_FailOpenTimeoutMs_update (\<lambda>_. n)),
      (''req_max_processing_ms'', \<lambda>n. ec_ReqMaxProcessingMs_update (\<lambda>_. n)),
      (''res_max_processing_ms'', \<lambda>n. ec_ResMaxProcessingMs_update (\<lambda>_. n))]"

definition engine_option :: "'s dispenser \<Rightarrow> EngineConfig \<Rightarrow> 's \<Rightarrow> (caddy_err + EngineConfig) \<times> 's" where
  "engine_option d cfg s =
     (let name = dp_Val d s in
      case map_of engine_strings name of
        Some f \<Rightarrow> set_arg f cfg (arg d s)
      | None \<Rightarrow>
          (case map_of engine_ints name of
             Some f \<Rightarrow> set_arg f cfg (intArg d name s)
           | None \<Rightarrow> (Inl (UnrecognizedEngineOption name), s)))"

partial_function (option) parseEngineBlock ::
  "'s dispenser \<Rightarrow> EngineConfig \<Rightarrow> 's \<Rightarrow> ((caddy_err + EngineConfig) \<times> 's) option" where
  "parseEngineBlock d cfg s =
     (case dp_NextBlock d 1 s of (ok, s) \<Rightarrow>
        if \<not> ok then Some (Inr cfg, s)
        else case engine_option d cfg s of
          (Inl e, s) \<Rightarrow> Some (Inl e, s)
        | (Inr cfg, s) \<Rightarrow> parseEngineBlock d cfg s)"

section \<open>Directive\<close>

partial_function (option) parseCustomHeaders ::
  "'s dispenser \<Rightarrow> (string \<rightharpoonup> string) \<Rightarrow> 's \<Rightarrow> ((caddy_err + (string \<rightharpoonup> string)) \<times> 's) option" where
  "parseCustomHeaders d m s =
     (case dp_NextBlock d 1 s of (ok, s) \<Rightarrow>
        if \<not> ok then Some (Inr m, s)
        else
          let key = dp_Val d s in
          (case arg d s of
             (Inl e, s) \<Rightarrow> Some (Inl e, s)
           | (Inr v, s) \<Rightarrow> parseCustomHeaders d (m(key \<mapsto> v)) s))"

definition handler_option :: "'s dispenser \<Rightarrow> Handler \<Rightarrow> 's \<Rightarrow> ((caddy_err + Handler) \<times> 's) option" where
  "handler_option d h s =
     (let name = dp_Val d s in
      if name = ''engine'' then
        map_option (set_arg (\<lambda>cfg h. h\<lparr>hn_Engine := cfg\<rparr>) h) (parseEngineBlock d (hn_Engine h) s)
      else if name = ''mode'' then Some (set_arg (\<lambda>v h. h\<lparr>hn_Mode := v\<rparr>) h (arg d s))
      else if name = ''body_buffer_limit'' then Some (set_arg (\<lambda>n h. h\<lparr>hn_BodyBufferLimit := n\<rparr>) h (sizeArg d s))
      else if name = ''response_buffer_limit'' then
        Some (set_arg (\<lambda>n h. h\<lparr>hn_ResponseBufferLimit := n\<rparr>) h (sizeArg d s))
      else if name = ''block_status_code'' then
        Some (set_arg (\<lambda>n h. h\<lparr>hn_BlockStatusCode := n\<rparr>) h (intArg d name s))
      else if name = ''block_page_title'' then Some (set_arg (\<lambda>v h. h\<lparr>hn_BlockPageTitle := v\<rparr>) h (arg d s))
      else if name = ''block_page_body'' then Some (set_arg (\<lambda>v h. h\<lparr>hn_BlockPageBody := v\<rparr>) h (arg d s))
      else if name = ''fail_open'' then Some (set_arg (\<lambda>b h. h\<lparr>hn_FailOpen := Some b\<rparr>) h (boolArg d name s))
      else if name = ''skip_compressed_body_inspection'' then
        Some (set_arg (\<lambda>b h. h\<lparr>hn_SkipCompressedBodyInspection := b\<rparr>) h (boolArg d name s))
      else if name = ''custom_headers'' then
        map_option (set_arg (\<lambda>m h. h\<lparr>hn_CustomHeaders := m\<rparr>) h) (parseCustomHeaders d (hn_CustomHeaders h) s)
      else Some (Inl (UnrecognizedOption name), s))"

partial_function (option) parse_block ::
  "'s dispenser \<Rightarrow> Handler \<Rightarrow> 's \<Rightarrow> ((caddy_err + Handler) \<times> 's) option" where
  "parse_block d h s =
     (case dp_NextBlock d 0 s of (ok, s) \<Rightarrow>
        if \<not> ok then Some (Inr h, s)
        else Option.bind (handler_option d h s) (\<lambda>(r, s).
          case r of Inl e \<Rightarrow> Some (Inl e, s) | Inr h \<Rightarrow> parse_block d h s))"

partial_function (option) parse_directives ::
  "'s dispenser \<Rightarrow> Handler \<Rightarrow> 's \<Rightarrow> ((caddy_err + Handler) \<times> 's) option" where
  "parse_directives d h s =
     (case dp_Next d s of (ok, s) \<Rightarrow>
        if \<not> ok then Some (Inr h, s)
        else Option.bind (parse_block d h s) (\<lambda>(r, s).
          case r of Inl e \<Rightarrow> Some (Inl e, s) | Inr h \<Rightarrow> parse_directives d h s))"

definition parseCaddyfile :: "'s dispenser \<Rightarrow> 's \<Rightarrow> ((caddy_err + Handler) \<times> 's) option" where
  "parseCaddyfile d s = 
     map_option (\<lambda>(r, s). (map_sum (\<lambda>e. e) Handler_SetDefaults r, s)) (parse_directives d Handler_zero s)"

section \<open>Parsing ends\<close>

text \<open>
  What the dispenser promises: \<open>left\<close> counts the tokens still to come; a call that succeeds has moved
  past one, and no call moves back.
\<close>

locale progressing =
  fixes d :: "'s dispenser" and left :: "'s \<Rightarrow> nat"
  assumes Next: "dp_Next d s = (True, s') \<Longrightarrow> left s' < left s"
    and NextBlock: "dp_NextBlock d n s = (True, s') \<Longrightarrow> left s' < left s"
    and NextBlock_end: "dp_NextBlock d n s = (False, s') \<Longrightarrow> left s' \<le> left s"
    and NextArg: "dp_NextArg d s = (ok, s') \<Longrightarrow> left s' \<le> left s"
begin

lemma arg_left: "arg d s = (r, s') \<Longrightarrow> left s' \<le> left s"
  by (auto simp: arg_def split: prod.splits if_splits dest: NextArg)

lemma sizeArg_left: "sizeArg d s = (r, s') \<Longrightarrow> left s' \<le> left s"
  by (auto simp: sizeArg_def split: prod.splits sum.splits dest: arg_left)

lemma intArg_left: "intArg d name s = (r, s') \<Longrightarrow> left s' \<le> left s"
  by (auto simp: intArg_def split: prod.splits sum.splits dest: arg_left)

lemma boolArg_left: "boolArg d name s = (r, s') \<Longrightarrow> left s' \<le> left s"
  by (auto simp: boolArg_def split: prod.splits sum.splits option.splits dest: arg_left)

lemma set_arg_left: "set_arg f c x = (r, s') \<Longrightarrow> s' = snd x"
  by (auto simp: set_arg_def split: prod.splits sum.splits)

lemmas arg_lefts = arg_left sizeArg_left intArg_left boolArg_left

lemma set_arg_call:
  assumes "set_arg f c x = (r, s')" and "\<And>r s'. x = (r, s') \<Longrightarrow> left s' \<le> left s"
  shows "left s' \<le> left s"
  using assms(2) [of "fst x" "snd x"] set_arg_left [OF assms(1)] by simp

lemma engine_option_left: "engine_option d cfg s = (r, s') \<Longrightarrow> left s' \<le> left s"
  by (auto simp: engine_option_def Let_def split: option.splits elim!: set_arg_call dest: arg_lefts)

lemma parseEngineBlock_ends: "\<exists>r s'. parseEngineBlock d cfg s = Some (r, s') \<and> left s' \<le> left s"
proof (induction "left s" arbitrary: s cfg rule: less_induct)
  case less
  obtain ok s1 where n: "dp_NextBlock d 1 s = (ok, s1)" by (cases "dp_NextBlock d 1 s")
  show ?case
  proof (cases ok)
    case False
    with n NextBlock_end [of 1 s s1] show ?thesis by (simp add: parseEngineBlock.simps [of d cfg s])
  next
    case True
    with n have lt: "left s1 < left s" by (auto dest: NextBlock)
    obtain r s2 where e: "engine_option d cfg s1 = (r, s2)" by (cases "engine_option d cfg s1")
    with lt have lt2: "left s2 < left s" by (auto dest!: engine_option_left)
    from less [OF lt2] lt2 n e True show ?thesis
      by (subst parseEngineBlock.simps) (fastforce split: sum.splits)
  qed
qed

lemma parseCustomHeaders_ends: "\<exists>r s'. parseCustomHeaders d m s = Some (r, s') \<and> left s' \<le> left s"
proof (induction "left s" arbitrary: s m rule: less_induct)
  case less
  obtain ok s1 where n: "dp_NextBlock d 1 s = (ok, s1)" by (cases "dp_NextBlock d 1 s")
  show ?case
  proof (cases ok)
    case False
    with n NextBlock_end [of 1 s s1] show ?thesis by (simp add: parseCustomHeaders.simps [of d m s])
  next
    case True
    with n have lt: "left s1 < left s" by (auto dest: NextBlock)
    obtain r s2 where e: "arg d s1 = (r, s2)" by (cases "arg d s1")
    with lt have lt2: "left s2 < left s" by (auto dest!: arg_left)
    from less [OF lt2] lt2 n e True show ?thesis
      by (subst parseCustomHeaders.simps) (fastforce simp: Let_def split: sum.splits)
  qed
qed

text \<open>A call that has returned, no further back than \<open>s\<close>.\<close>

definition ends :: "'s \<Rightarrow> ('r \<times> 's) option \<Rightarrow> bool" where
  "ends s x \<longleftrightarrow> (\<exists>r s'. x = Some (r, s') \<and> left s' \<le> left s)"

lemma ends_if: "ends s x \<Longrightarrow> ends s y \<Longrightarrow> ends s (if b then x else y)"
  by simp

lemma ends_set_arg: "left (snd x) \<le> left s \<Longrightarrow> ends s (Some (set_arg f h x))"
  unfolding ends_def by (cases "set_arg f h x") (auto dest: set_arg_left)

lemma ends_map: "ends s x \<Longrightarrow> ends s (map_option (set_arg f h) x)"
proof -
  assume "ends s x"
  then obtain r s' where "x = Some (r, s')" "left s' \<le> left s" by (auto simp: ends_def)
  with ends_set_arg [of "(r, s')" s f h] show ?thesis by simp
qed

lemma ends_args:
  "ends s (Some (set_arg f h (arg d s)))" "ends s (Some (set_arg g h (sizeArg d s)))"
  "ends s (Some (set_arg g h (intArg d name s)))" "ends s (Some (set_arg k h (boolArg d name s)))"
  by (rule ends_set_arg, rule arg_lefts, rule prod.collapse [symmetric])+

lemma ends_here: "ends s (Some (r, s))"
  by (simp add: ends_def)

lemma handler_option_ends: "\<exists>r s'. handler_option d h s = Some (r, s') \<and> left s' \<le> left s"
proof -
  have "ends s (parseEngineBlock d (hn_Engine h) s)" "ends s (parseCustomHeaders d (hn_CustomHeaders h) s)"
    unfolding ends_def by (rule parseEngineBlock_ends parseCustomHeaders_ends)+
  then have "ends s (handler_option d h s)"
    unfolding handler_option_def Let_def by (intro ends_if ends_map ends_args ends_here)
  then show ?thesis by (simp add: ends_def)
qed

lemma parse_block_ends: "\<exists>r s'. parse_block d h s = Some (r, s') \<and> left s' \<le> left s"
proof (induction "left s" arbitrary: s h rule: less_induct)
  case less
  obtain ok s1 where n: "dp_NextBlock d 0 s = (ok, s1)" by (cases "dp_NextBlock d 0 s")
  show ?case
  proof (cases ok)
    case False
    with n NextBlock_end [of 0 s s1] show ?thesis by (simp add: parse_block.simps [of d h s])
  next
    case True
    with n have lt: "left s1 < left s" by (auto dest: NextBlock)
    obtain r s2 where e: "handler_option d h s1 = Some (r, s2)" "left s2 \<le> left s1" using handler_option_ends by blast
    with lt have lt2: "left s2 < left s" by simp
    from less [OF lt2] lt2 n e True show ?thesis
      by (subst parse_block.simps) (fastforce split: sum.splits)
  qed
qed

lemma parse_directives_ends: "\<exists>r s'. parse_directives d h s = Some (r, s')"
proof (induction "left s" arbitrary: s h rule: less_induct)
  case less
  obtain ok s1 where n: "dp_Next d s = (ok, s1)" by (cases "dp_Next d s")
  show ?case
  proof (cases ok)
    case False
    with n show ?thesis by (simp add: parse_directives.simps [of d h s])
  next
    case True
    with n have lt: "left s1 < left s" by (auto dest: Next)
    obtain r s2 where e: "parse_block d h s1 = Some (r, s2)" "left s2 \<le> left s1" using parse_block_ends by blast
    with lt have lt2: "left s2 < left s" by simp
    from less [OF lt2] n e(1) True show ?thesis
      by (subst parse_directives.simps) (fastforce split: sum.splits)
  qed
qed

lemma parseCaddyfile_ends: "\<exists>r s'. parseCaddyfile d s = Some (r, s')"
  using parse_directives_ends [of Handler_zero s] by (auto simp: parseCaddyfile_def)

end

section \<open>The posture of a parsed configuration\<close>

text \<open>No option of the engine block sets the engine's fail-open flag.\<close>

lemma engine_fields_open:
  "map_of engine_strings n = Some f \<Longrightarrow> ec_FailOpen (f v c) = ec_FailOpen c"
  "map_of engine_ints n = Some g \<Longrightarrow> ec_FailOpen (g i c) = ec_FailOpen c"
  by (auto simp: engine_strings_def engine_ints_def split: if_splits)

lemma engine_option_open:
  "engine_option d cfg s = (Inr cfg', s') \<Longrightarrow> ec_FailOpen cfg' = ec_FailOpen cfg"
  by (auto simp: engine_option_def set_arg_def Let_def engine_fields_open split: option.splits prod.splits sum.splits)

text \<open>What a parser keeps of the value it is building.\<close>

definition keeps :: "('c \<Rightarrow> 'v) \<Rightarrow> 'c \<Rightarrow> (caddy_err + 'c) \<times> 's \<Rightarrow> bool" where
  "keeps f c y \<longleftrightarrow> (case fst y of Inl _ \<Rightarrow> True | Inr c' \<Rightarrow> f c' = f c)"

lemma keeps_simps [simp]: "keeps f c (Inl e, s)" "keeps f c (Inr c', s) \<longleftrightarrow> f c' = f c"
  by (simp_all add: keeps_def)

lemma keeps_trans: "keeps f c (Inr c', s) \<Longrightarrow> keeps f c' y \<Longrightarrow> keeps f c y"
  by (simp add: keeps_def split: sum.splits)

lemma parseEngineBlock_open:
  assumes "parseEngineBlock d cfg s = Some y"
  shows "keeps ec_FailOpen cfg y"
proof (rule parseEngineBlock.raw_induct [where P = "\<lambda>d cfg s y. keeps ec_FailOpen cfg y", OF _ assms])
  fix loop :: "'a dispenser \<Rightarrow> EngineConfig \<Rightarrow> 'a \<Rightarrow> ((caddy_err + EngineConfig) \<times> 'a) option" and d cfg s y
  assume IH: "\<And>d cfg s y. loop d cfg s = Some y \<Longrightarrow> keeps ec_FailOpen cfg y"
    and body: "(case dp_NextBlock d 1 s of (ok, s) \<Rightarrow>
      if \<not> ok then Some (Inr cfg, s)
      else case engine_option d cfg s of (Inl e, s) \<Rightarrow> Some (Inl e, s) | (Inr cfg, s) \<Rightarrow> loop d cfg s) = Some y"
  obtain ok s1 where n: "dp_NextBlock d 1 s = (ok, s1)" by (cases "dp_NextBlock d 1 s")
  obtain r s2 where e: "engine_option d cfg s1 = (r, s2)" by (cases "engine_option d cfg s1")
  show "keeps ec_FailOpen cfg y"
  proof (cases r)
    case (Inl err)
    with body n e show ?thesis by (cases ok) auto
  next
    case (Inr c)
    with e have c: "keeps ec_FailOpen cfg (Inr c, s2)" by (auto dest: engine_option_open)
    from body n e Inr consider "y = (Inr cfg, s1)" | "loop d c s2 = Some y" by (cases ok) auto
    then show ?thesis using keeps_trans [OF c IH] by cases auto
  qed
qed

lemma handler_option_open:
  assumes "handler_option d h s = Some y"
  shows "keeps (\<lambda>h. ec_FailOpen (hn_Engine h)) h y"
proof -
  have set: "keeps (\<lambda>h. ec_FailOpen (hn_Engine h)) h (set_arg f h x)"
    if "\<And>v. ec_FailOpen (hn_Engine (f v h)) = ec_FailOpen (hn_Engine h)" for f :: "'x \<Rightarrow> Handler \<Rightarrow> Handler" and x :: "(caddy_err + 'x) \<times> 'a"
    using that by (auto simp: keeps_def set_arg_def split: prod.splits sum.splits)
  have eng: "keeps (\<lambda>h. ec_FailOpen (hn_Engine h)) h (set_arg (\<lambda>cfg h. h\<lparr>hn_Engine := cfg\<rparr>) h z)"
    if "parseEngineBlock d (hn_Engine h) s = Some z" for z
    using parseEngineBlock_open [OF that] by (auto simp: keeps_def set_arg_def split: prod.splits sum.splits)
  have err: "keeps (\<lambda>h. ec_FailOpen (hn_Engine h)) h (Inl e, s)" for e and s :: 'a by (simp add: keeps_def)
  show ?thesis
    using assms unfolding handler_option_def Let_def
    by (auto intro: set eng err split: if_split_asm)
qed

abbreviation keeps_open :: "Handler \<Rightarrow> (caddy_err + Handler) \<times> 's \<Rightarrow> bool" where
  "keeps_open \<equiv> keeps (\<lambda>h. ec_FailOpen (hn_Engine h))"

lemma parse_block_open:
  assumes "parse_block d h s = Some y"
  shows "keeps_open h y"
proof (rule parse_block.raw_induct [where P = "\<lambda>d h s y. keeps_open h y", OF _ assms])
  fix loop :: "'a dispenser \<Rightarrow> Handler \<Rightarrow> 'a \<Rightarrow> ((caddy_err + Handler) \<times> 'a) option" and d h s y
  assume IH: "\<And>d h s y. loop d h s = Some y \<Longrightarrow> keeps_open h y"
    and body: "(case dp_NextBlock d 0 s of (ok, s) \<Rightarrow>
      if \<not> ok then Some (Inr h, s)
      else Option.bind (handler_option d h s) (\<lambda>(r, s). case r of Inl e \<Rightarrow> Some (Inl e, s) | Inr h \<Rightarrow> loop d h s)) = Some y"
  obtain ok s1 where n: "dp_NextBlock d 0 s = (ok, s1)" by (cases "dp_NextBlock d 0 s")
  show "keeps_open h y"
  proof (cases ok)
    case False
    with body n show ?thesis by auto
  next
    case True
    with body n obtain r s2 where e: "handler_option d h s1 = Some (r, s2)" by (auto simp: bind_eq_Some_conv)
    show ?thesis
    proof (cases r)
      case Inl
      with body n e True show ?thesis by auto
    next
      case (Inr h')
      with body n e True have "loop d h' s2 = Some y" by simp
      with keeps_trans [OF handler_option_open [OF e, unfolded Inr] IH] show ?thesis .
    qed
  qed
qed

lemma parse_directives_open:
  assumes "parse_directives d h s = Some y"
  shows "keeps_open h y"
proof (rule parse_directives.raw_induct [where P = "\<lambda>d h s y. keeps_open h y", OF _ assms])
  fix loop :: "'a dispenser \<Rightarrow> Handler \<Rightarrow> 'a \<Rightarrow> ((caddy_err + Handler) \<times> 'a) option" and d h s y
  assume IH: "\<And>d h s y. loop d h s = Some y \<Longrightarrow> keeps_open h y"
    and body: "(case dp_Next d s of (ok, s) \<Rightarrow>
      if \<not> ok then Some (Inr h, s)
      else Option.bind (parse_block d h s) (\<lambda>(r, s). case r of Inl e \<Rightarrow> Some (Inl e, s) | Inr h \<Rightarrow> loop d h s)) = Some y"
  obtain ok s1 where n: "dp_Next d s = (ok, s1)" by (cases "dp_Next d s")
  show "keeps_open h y"
  proof (cases ok)
    case False
    with body n show ?thesis by auto
  next
    case True
    with body n obtain r s2 where e: "parse_block d h s1 = Some (r, s2)" by (auto simp: bind_eq_Some_conv)
    show ?thesis
    proof (cases r)
      case Inl
      with body n e True show ?thesis by auto
    next
      case (Inr h')
      with body n e True have "loop d h' s2 = Some y" by simp
      with keeps_trans [OF parse_block_open [OF e, unfolded Inr] IH] show ?thesis .
    qed
  qed
qed

lemma parseCaddyfile_open: "parseCaddyfile d s = Some (Inr h, s') \<Longrightarrow> ec_FailOpen (hn_Engine h) = Some True"
proof -
  assume "parseCaddyfile d s = Some (Inr h, s')"
  then obtain r where r: "parse_directives d Handler_zero s = Some (r, s')"
      "map_sum (\<lambda>e. e) Handler_SetDefaults r = Inr h"
    by (auto simp: parseCaddyfile_def)
  from r(2) obtain h0 where h0: "r = Inr h0" "h = Handler_SetDefaults h0" by (cases r) auto
  from parse_directives_open [OF r(1)] h0 show ?thesis
    by (simp add: keeps_def Handler_zero_def EngineConfig_zero_def Handler_SetDefaults_def
        EngineConfig_SetDefaults_def dflt_bool_def)
qed

section \<open>Sizes read back\<close>

lemma HasSuffix_rev: "HasSuffix s p \<longleftrightarrow> take (length p) (rev s) = rev p"
proof -
  have r: "take (length p) (rev s) = rev (drop (length s - length p) s)" by (simp add: take_rev)
  have "length p \<le> length s" if "take (length p) (rev s) = rev p"
    using arg_cong [OF that, of length] by simp
  with r show ?thesis by (auto simp: HasSuffix_def)
qed

text \<open>Lower-casing text of printable ASCII characters.\<close>

lemma ToLower_plain: "list_all plain s \<Longrightarrow> ToLower s = map lower_char s"
proof (induction s)
  case (Cons c s)
  have "utf8 [226, 132, 170] \<noteq> take 3 (c # s)"
    using Cons.prems by (cases "take 3 (c # s)") (auto simp: utf8_def byte_char_def plain_def)
  with Cons show ?case by auto
qed simp

definition digit :: "char \<Rightarrow> bool" where
  "digit c \<longleftrightarrow> 48 \<le> (of_char c :: nat) \<and> (of_char c :: nat) \<le> 57"

lemma digit_plain: "digit c \<Longrightarrow> plain c \<and> lower_char c = c"
  by (simp add: digit_def plain_def lower_char_def)

lemma Itoa_digits: "0 \<le> i \<Longrightarrow> list_all digit (Itoa i) \<and> Itoa i \<noteq> []"
  using nat_digits_digits [of "nat i"] nat_digits_nonempty [of "nat i"]
  by (simp add: Itoa_def digit_def list_all_iff)

lemma le_div_iff: "0 < q \<Longrightarrow> n \<le> m div q \<longleftrightarrow> n * q \<le> m" for n m q :: int
proof
  assume q: "0 < q" and "n \<le> m div q"
  then have "n * q \<le> m div q * q" by (intro mult_right_mono) simp_all
  also have "\<dots> \<le> m" using q by (simp add: minus_mod_eq_div_mult [symmetric])
  finally show "n * q \<le> m" .
next
  assume q: "0 < q" and "n * q \<le> m"
  then have "n * q div q \<le> m div q" by (intro zdiv_mono1)
  with q show "n \<le> m div q" by simp
qed

text \<open>The table entry that a number with a unit selects.\<close>

lemma find_suffix:
  assumes "digit x" and "(suf, factor) \<in> set (('''', 1) # size_suffixes)"
  shows "find (\<lambda>(p, _). HasSuffix (ds @ x # suf) p) size_suffixes = (if suf = '''' then None else Some (suf, factor))"
proof -
  have ne: "x \<noteq> CHR ''i''" "x \<noteq> CHR ''k''" "x \<noteq> CHR ''m''" "x \<noteq> CHR ''g''" "x \<noteq> CHR ''b''"
    using assms(1) by (auto simp: digit_def)
  have "\<forall>(suf, factor) \<in> set (('''', 1) # size_suffixes).
      find (\<lambda>(p, _). HasSuffix (ds @ x # suf) p) size_suffixes = (if suf = '''' then None else Some (suf, factor))"
    by (simp add: size_suffixes_def HasSuffix_rev ne)
  with assms(2) show ?thesis by blast
qed

text \<open>The number of a size and its unit, in upper or lower case.\<close>

lemma parseSize_units:
  assumes "(suf, factor) \<in> set (('''', 1) # size_suffixes)" and "map lower_char u = suf" and "list_all plain u"
    and "0 \<le> n" and "n < 2 ^ 63"
  shows "parseSize (Itoa n @ u) = (if n * factor < 2 ^ 63 then Inr (n * factor) else Inl ErrRange)"
proof -
  have f: "0 < factor" using assms(1) by (auto simp: size_suffixes_def)
  obtain ds x where ds: "Itoa n = ds @ [x]" "digit x" "list_all digit ds"
    using Itoa_digits [OF assms(4)] by (cases "Itoa n" rule: rev_cases) auto
  have plain: "list_all plain (Itoa n @ u)" "Itoa n @ u \<noteq> []"
    using Itoa_digits [OF assms(4)] assms(3) by (auto simp: list_all_iff dest: digit_plain)
  have trim: "TrimSpace t = t" if "list_all plain t" for t
    by (rule TrimSpace_plain) (use that in \<open>cases "t = []"; auto simp: list_all_iff\<close>)
  have low: "map lower_char (ds @ [x]) = ds @ [x]"
    using ds digit_plain by (auto simp: list_all_iff intro: map_idI)
  have lower: "ToLower (Itoa n @ u) = ds @ x # suf"
    using ToLower_plain [OF plain(1)] low assms(2) by (simp add: ds(1))
  have cut: "take (length (Itoa n @ u) - length suf) (Itoa n @ u) = Itoa n"
    using assms(2) by auto
  have num: "TrimSpace (Itoa n) = Itoa n" "Itoa n \<noteq> []"
    using trim [of "Itoa n"] plain Itoa_digits [OF assms(4)] by simp_all
  have one: "suf = '''' \<Longrightarrow> factor = 1" using assms(1) by (auto simp: size_suffixes_def)
  have range: "n * factor < 2 ^ 63 \<longleftrightarrow> \<not> n > (2 ^ 63 - 1) div factor"
    using le_div_iff [OF f, of n "2 ^ 63 - 1"] by linarith
  have "parseSize (Itoa n @ u) =
      (case ParseInt 64 (Itoa n) of Inl e \<Rightarrow> Inl e
       | Inr k \<Rightarrow> if k < 0 \<or> k > (2 ^ 63 - 1) div factor then Inl ErrRange else Inr (k * factor))"
    using find_suffix [OF ds(2) assms(1), of ds] plain(2) cut num assms(2) one
    by (auto simp: parseSize_def trim [OF plain(1)] lower Let_def)
  with ParseInt_Itoa [OF assms(4,5)] range assms(4) show ?thesis by auto
qed

section \<open>Properties\<close>

text \<open>
  a size is a number and an optional unit, in upper or lower case: the text of a number
  followed by a unit is read as the product, or rejected as out of range exactly when the product
  does not fit a 64-bit integer; the multiplication never wraps around.
\<close>

theorem parse_size_units:
  assumes "(suf, factor) \<in> set (('''', 1) # size_suffixes)" and "map lower_char u = suf" and "list_all plain u"
    and "0 \<le> n" and "n < 2 ^ 63"
  shows "parseSize (Itoa n @ u) = (if n * factor < 2 ^ 63 then Inr (n * factor) else Inl ErrRange)"
  by (rule parseSize_units [OF assms])

text \<open>
  C35: parsing a directive always returns, on any dispenser whose successful calls move past a
  token and whose other calls do not move back.
\<close>

theorem caddyfile_terminates:
  fixes left :: "'s \<Rightarrow> nat"
  assumes "\<And>s s'. dp_Next d s = (True, s') \<Longrightarrow> left s' < left s"
    and "\<And>n s s'. dp_NextBlock d n s = (True, s') \<Longrightarrow> left s' < left s"
    and "\<And>n s s'. dp_NextBlock d n s = (False, s') \<Longrightarrow> left s' \<le> left s"
    and "\<And>s ok s'. dp_NextArg d s = (ok, s') \<Longrightarrow> left s' \<le> left s"
  shows "\<exists>r s'. parseCaddyfile d s = Some (r, s')"
  by (rule progressing.parseCaddyfile_ends [OF progressing.intro, OF assms])

text \<open>
  C22: no Caddyfile can make the middleware fail closed: whatever is parsed, the engine's own
  fail-open flag ends up true, no option sets it, and the handler's \<open>fail_open false\<close> then changes
  nothing about how any request is served through the policy.
\<close>

theorem caddyfile_cannot_fail_closed:
  assumes "parseCaddyfile d s = Some (Inr h, s')"
  shows "failOpenEnabled (hn_Engine h) \<and>
    ServeHTTP pf gz keys (h\<lparr>hn_FailOpen := Some False\<rparr>) (Some (policy_acquirer net (hn_Engine h) ctx)) origin r c t =
    ServeHTTP pf gz keys (h\<lparr>hn_FailOpen := Some True\<rparr>) (Some (policy_acquirer net (hn_Engine h) ctx)) origin r c t"
proof
  show "failOpenEnabled (hn_Engine h)" using parseCaddyfile_open [OF assms] by (simp add: failOpenEnabled_def)
qed (rule fail_open_false_ineffective, simp add: parseCaddyfile_open [OF assms])

section \<open>A dispenser\<close>

text \<open>
  A dispenser over tokens with their line numbers, to evaluate the parser on: a block opens with a
  brace on the line of its name, which is not an argument, and closes with a brace on a line of its own.
\<close>

record token_state =
  ts_seen :: "(string \<times> nat) option"
  ts_rest :: "(string \<times> nat) list"
  ts_nesting :: nat

fun tok_Next :: "token_state \<Rightarrow> bool \<times> token_state" where
  "tok_Next s = (case ts_rest s of [] \<Rightarrow> (False, s) | t # ts \<Rightarrow> (True, s\<lparr>ts_seen := Some t, ts_rest := ts\<rparr>))"

definition same_line :: "token_state \<Rightarrow> bool" where
  "same_line s = (case (ts_seen s, ts_rest s) of (Some (_, l), (_, l') # _) \<Rightarrow> l = l' | _ \<Rightarrow> False)"

definition tok_NextArg :: "token_state \<Rightarrow> bool \<times> token_state" where
  "tok_NextArg s = (if same_line s \<and> fst (hd (ts_rest s)) \<noteq> ''{'' then tok_Next s else (False, s))"

definition tok_NextBlock :: "nat \<Rightarrow> token_state \<Rightarrow> bool \<times> token_state" where
  "tok_NextBlock n s =
     (if ts_nesting s > n then
        (case tok_Next s of (ok, s) \<Rightarrow>
           if \<not> ok then (False, s)
           else
             let s = (if map_option fst (ts_seen s) = Some ''}'' then s\<lparr>ts_nesting := ts_nesting s - 1\<rparr> else s)
             in (ts_nesting s > n, s))
      else
        if same_line s \<and> fst (hd (ts_rest s)) = ''{'' then
          (case tok_Next (snd (tok_Next s)) of (ok, s) \<Rightarrow>
             if ok \<and> map_option fst (ts_seen s) \<noteq> Some ''}'' then (True, s\<lparr>ts_nesting := ts_nesting s + 1\<rparr>) else (False, s))
        else (False, s))"

definition token_dispenser :: "token_state dispenser" where
  "token_dispenser = \<lparr>dp_Next = tok_Next, dp_NextBlock = tok_NextBlock, dp_NextArg = tok_NextArg,
     dp_Val = (\<lambda>s. case ts_seen s of Some (v, _) \<Rightarrow> v | None \<Rightarrow> '''')\<rparr>"

interpretation token: progressing token_dispenser "\<lambda>s. length (ts_rest s)"
  by unfold_locales
    (auto simp: token_dispenser_def tok_NextBlock_def tok_NextArg_def Let_def split: list.splits if_splits prod.splits)

definition example_tokens :: token_state where
  "example_tokens = \<lparr>ts_seen = None, ts_rest = [(''openappsec'', 1), (''{'', 1), (''fail_open'', 2), (''false'', 2),
     (''}'', 3)], ts_nesting = 0\<rparr>"

lemma example_parses:
  "\<exists>s. parseCaddyfile token_dispenser example_tokens = Some (Inr (Handler_SetDefaults (Handler_zero\<lparr>hn_FailOpen := Some False\<rparr>)), s)"
proof -
  define h where "h = Handler_zero\<lparr>hn_FailOpen := Some False\<rparr>"
  let ?d = token_dispenser
  define s1 where "s1 = example_tokens\<lparr>ts_seen := Some (''openappsec'', 1), ts_rest := tl (ts_rest example_tokens)\<rparr>"
  define s2 where "s2 = \<lparr>ts_seen = Some (''fail_open'', 2), ts_rest = [(''false'', 2), (''}'', 3)], ts_nesting = 1\<rparr>"
  define s3 where "s3 = \<lparr>ts_seen = Some (''false'', 2), ts_rest = [(''}'', 3)], ts_nesting = 1\<rparr>"
  define s4 where "s4 = \<lparr>ts_seen = Some (''}'', 3), ts_rest = [], ts_nesting = 0\<rparr>"
  note steps = token_dispenser_def tok_NextBlock_def tok_NextArg_def same_line_def s1_def s2_def s3_def s4_def
    example_tokens_def
  have 1: "dp_Next ?d example_tokens = (True, s1)" "dp_NextBlock ?d 0 s1 = (True, s2)"
      "dp_NextBlock ?d 0 s3 = (False, s4)" "dp_Next ?d s4 = (False, s4)"
    by (simp_all add: steps)
  have 2: "handler_option ?d Handler_zero s2 = Some (Inr h, s3)"
    by (simp add: handler_option_def boolArg_def arg_def set_arg_def ParseBool_def h_def steps)
  have 3: "parse_block ?d h s3 = Some (Inr h, s4)"
    by (subst parse_block.simps) (simp add: 1)
  have 4: "parse_block ?d Handler_zero s1 = Some (Inr h, s4)"
    by (subst parse_block.simps) (simp add: 1 2 3)
  have 5: "parse_directives ?d h s4 = Some (Inr h, s4)"
    by (subst parse_directives.simps) (simp add: 1)
  have "parse_directives ?d Handler_zero example_tokens = Some (Inr h, s4)"
    by (subst parse_directives.simps) (simp add: 1 4 5)
  then show ?thesis by (simp add: parseCaddyfile_def h_def)
qed

theorem parse_size_units_witness: "parseSize (Itoa 10 @ ''MiB'') = Inr 10485760"
proof -
  have unit: "map lower_char ''MiB'' = ''mib''" "list_all plain ''MiB''" by code_simp+
  show ?thesis
    using parse_size_units [OF _ unit, of 1048576 10] by (simp add: size_suffixes_def)
qed

theorem caddyfile_terminates_witness: "\<exists>r s'. parseCaddyfile token_dispenser example_tokens = Some (r, s')"
  by (rule caddyfile_terminates [where left = "\<lambda>s. length (ts_rest s)"])
    (use token.Next token.NextBlock token.NextBlock_end token.NextArg in blast)+

theorem caddyfile_cannot_fail_closed_witness:
  "\<exists>h s'. parseCaddyfile token_dispenser example_tokens = Some (Inr h, s') \<and> hn_FailOpen h = Some False \<and>
     ServeHTTP (\<lambda>_. None) (\<lambda>b. b) (\<lambda>_. []) (h\<lparr>hn_FailOpen := Some False\<rparr>)
       (Some (policy_acquirer (script_net False) (hn_Engine h) None)) page_origin example_post fresh_client (pool0, accepting) =
     ServeHTTP (\<lambda>_. None) (\<lambda>b. b) (\<lambda>_. []) (h\<lparr>hn_FailOpen := Some True\<rparr>)
       (Some (policy_acquirer (script_net False) (hn_Engine h) None)) page_origin example_post fresh_client (pool0, accepting)"
proof -
  obtain h s' where h: "parseCaddyfile token_dispenser example_tokens = Some (Inr h, s')" "hn_FailOpen h = Some False"
    using example_parses by (auto simp: Handler_SetDefaults_def)
  with caddyfile_cannot_fail_closed [OF h(1)] show ?thesis by blast
qed

end
