(* ===== verification/Mock.thy ===== *)
theory Mock
  imports Policy Socket
begin

text \<open>
  The scriptable engine of internal/mock: the classification of frames, the scripted verdicts and
  the handling of one frame on one connection. The one-line descriptions of frames, which only
  feed logs, are left out; the frames received are recorded as they are. Replies are returned as
  the list of frames sent; an \<open>Encode\<close> that panics ends the process and is an error outcome.
\<close>

section \<open>Classifying frames\<close>

datatype frameKind = FrameUnknown | FrameRegistration | FrameComm | FrameKeepAlive | FrameRequest | FrameResponse

definition isResponseFrame :: "bytes \<Rightarrow> bool" where
  "isResponseFrame b \<longleftrightarrow> frame_type b \<in> Some ` {DataTypeResponseCode, DataTypeResponseHeader,
     DataTypeResponseBody, DataTypeResponseEnd, DataTypeContentLength}"

definition isResponseCode :: "bytes \<Rightarrow> bool" where
  "isResponseCode b \<longleftrightarrow> frame_type b = Some DataTypeResponseCode"

definition isRequestEnd :: "bytes \<Rightarrow> bool" where
  "isRequestEnd b \<longleftrightarrow> frame_type b = Some DataTypeRequestEnd"

text \<open>The session id of a frame of the request family and whether it is a REQUEST_START.\<close>

definition parseRequest :: "bytes \<Rightarrow> (u32 \<times> bool) option" where
  "parseRequest b =
     (case ParseRequestStart b of Inr rs \<Rightarrow> Some (rs_SessionID rs, True) | Inl _ \<Rightarrow>
     (case ParseRequestEnd b of Inr re \<Rightarrow> Some (re_SessionID re, False) | Inl _ \<Rightarrow>
     (case ParseResponseCode b of Inr rc \<Rightarrow> Some (rc_SessionID rc, False) | Inl _ \<Rightarrow>
     (case ParseContentLength b of Inr cl \<Rightarrow> Some (cl_SessionID cl, False) | Inl _ \<Rightarrow>
     (case ParseDelayedVerdict b of Inr dv \<Rightarrow> Some (dv_SessionID dv, False) | Inl _ \<Rightarrow>
     (case ParseHeaderBulk b of Inr hb \<Rightarrow> Some (hb_SessionID hb, False) | Inl _ \<Rightarrow>
     (case ParseBodyChunk b of Inr bc \<Rightarrow> Some (bc_SessionID bc, False) | Inl _ \<Rightarrow> None)))))))"

definition classify :: "bytes \<Rightarrow> nat \<Rightarrow> frameKind" where
  "classify b phase =
     (if 2 \<le> length b \<and> b ! 1 = 0 \<and> parseRequest b \<noteq> None then
        (if isResponseFrame b then FrameResponse else FrameRequest)
      else if phase = 0 \<and> \<not> is_err (ParseRegistration b) then FrameRegistration
      else if \<not> is_err (ParseCommData b) then FrameComm
      else if \<not> is_err (ParseKeepAlive b) then FrameKeepAlive
      else FrameUnknown)"

section \<open>Engine\<close>

record Engine =
  eng_addr :: string
  eng_closed :: bool
  eng_verdicts :: "Verdict list"
  eng_respond :: "(u32 \<Rightarrow> Verdict) option"
  eng_replyEnabled :: bool
  eng_flaky :: int
  eng_conns :: "nat list"
  eng_frames :: "bytes list"
  eng_requests :: int
  eng_total :: int
  eng_responseVerdicts :: "Verdict list"
  eng_responses :: int

definition NewWithListener :: "string \<Rightarrow> Engine" where
  "NewWithListener addr = \<lparr>eng_addr = addr, eng_closed = False, eng_verdicts = [], eng_respond = None,
     eng_replyEnabled = True, eng_flaky = 0, eng_conns = [], eng_frames = [], eng_requests = 0, eng_total = 0,
     eng_responseVerdicts = [], eng_responses = 0\<rparr>"

definition SetNextVerdict :: "Verdict \<Rightarrow> Engine \<Rightarrow> Engine" where
  "SetNextVerdict v e = e\<lparr>eng_verdicts := eng_verdicts e @ [v]\<rparr>"

definition SetNextResponseVerdict :: "Verdict \<Rightarrow> Engine \<Rightarrow> Engine" where
  "SetNextResponseVerdict v e = e\<lparr>eng_responseVerdicts := eng_responseVerdicts e @ [v]\<rparr>"

definition SetResponder :: "(u32 \<Rightarrow> Verdict) option \<Rightarrow> Engine \<Rightarrow> Engine" where
  "SetResponder f e = e\<lparr>eng_respond := f\<rparr>"

definition SetVerdictsEnabled :: "bool \<Rightarrow> Engine \<Rightarrow> Engine" where
  "SetVerdictsEnabled b e = e\<lparr>eng_replyEnabled := b\<rparr>"

definition SetFlakyAfter :: "int \<Rightarrow> Engine \<Rightarrow> Engine" where
  "SetFlakyAfter n e = e\<lparr>eng_flaky := n\<rparr>"

text \<open>Taking the engine down: the error, the connections it closes, and the engine.\<close>

definition SetEngineDown :: "Engine \<Rightarrow> terr option \<times> nat list \<times> Engine" where
  "SetEngineDown e = (if eng_closed e then (Some ErrClosed, [], e) else (None, eng_conns e, e\<lparr>eng_closed := True\<rparr>))"

text \<open>Accepting a connection: whether it is served, or closed because the engine is down.\<close>

definition accept_conn :: "nat \<Rightarrow> Engine \<Rightarrow> bool \<times> Engine" where
  "accept_conn c e = (if eng_closed e then (False, e) else (True, e\<lparr>eng_conns := c # eng_conns e\<rparr>))"

text \<open>The end of a connection's handler takes the connection out of the engine.\<close>

definition conn_gone :: "nat \<Rightarrow> Engine \<Rightarrow> Engine" where
  "conn_gone c e = e\<lparr>eng_conns := removeAll c (eng_conns e)\<rparr>"

definition eng_record :: "bytes \<Rightarrow> bool \<Rightarrow> Engine \<Rightarrow> Engine" where
  "eng_record b isRequest e = e\<lparr>eng_frames := eng_frames e @ [b], eng_total := eng_total e + 1,
     eng_requests := eng_requests e + (if isRequest then 1 else 0)\<rparr>"

definition accept_for :: "u32 \<Rightarrow> Verdict" where
  "accept_for sid = \<lparr>vd_Kind = VerdictAccept, vd_SessionID = sid, vd_WebResponse = None, vd_Injections = []\<rparr>"

definition verdictFor :: "u32 \<Rightarrow> Engine \<Rightarrow> Verdict \<times> Engine" where
  "verdictFor sid e =
     (let (v, e) = (case eng_respond e of
          Some f \<Rightarrow> (f sid, e)
        | None \<Rightarrow> (case eng_verdicts e of [] \<Rightarrow> (accept_for sid, e) | v # vs \<Rightarrow> (v, e\<lparr>eng_verdicts := vs\<rparr>)))
      in (v\<lparr>vd_SessionID := sid\<rparr>, e))"

definition responseVerdictFor :: "u32 \<Rightarrow> Engine \<Rightarrow> Verdict \<times> Engine" where
  "responseVerdictFor sid e =
     (let (v, e) = (case eng_responseVerdicts e of
          [] \<Rightarrow> (accept_for sid, e) | v # vs \<Rightarrow> (v, e\<lparr>eng_responseVerdicts := vs\<rparr>))
      in (v\<lparr>vd_SessionID := sid\<rparr>, e))"

section \<open>Serving a connection\<close>

record connState =
  cs_phase :: nat
  cs_flakyN :: int

text \<open>What handling a frame does to the connection: the frames sent and whether it is closed.\<close>

type_synonym action = "bytes list \<times> bool"

definition send_verdict :: "Verdict \<Rightarrow> panic + action" where
  "send_verdict v = bindE (Verdict_Encode v) (\<lambda>b. Inr ([b], False))"

definition requestFrame :: "bytes \<Rightarrow> connState \<times> Engine \<Rightarrow> (panic + action) \<times> connState \<times> Engine" where
  "requestFrame b = (\<lambda>(st, e).
     let (sid, isStart) = (case parseRequest b of None \<Rightarrow> (0, False) | Some x \<Rightarrow> x);
         isEnd = isRequestEnd b;
         e = eng_record b isStart e
     in if \<not> isStart \<and> \<not> isEnd then (Inr ([], False), st, e)
        else
          let st = (if eng_flaky e > 0 \<and> isStart then st\<lparr>cs_flakyN := cs_flakyN st + 1\<rparr> else st) in
          if eng_flaky e > 0 \<and> isStart \<and> cs_flakyN st \<ge> eng_flaky e then (Inr ([], True), st, e)
          else if eng_replyEnabled e then (case verdictFor sid e of (v, e) \<Rightarrow> (send_verdict v, st, e))
          else (Inr ([], False), st, e))"

definition responseFrame :: "bytes \<Rightarrow> connState \<times> Engine \<Rightarrow> (panic + action) \<times> connState \<times> Engine" where
  "responseFrame b = (\<lambda>(st, e).
     let sid = (case parseRequest b of None \<Rightarrow> 0 | Some (sid, _) \<Rightarrow> sid);
         e = eng_record b False e
     in if \<not> isResponseCode b then (Inr ([], False), st, e)
        else
          let e = e\<lparr>eng_responses := eng_responses e + 1\<rparr> in
          if eng_replyEnabled e then (case responseVerdictFor sid e of (v, e) \<Rightarrow> (send_verdict v, st, e))
          else (Inr ([], False), st, e))"

definition dispatch :: "bytes \<Rightarrow> connState \<times> Engine \<Rightarrow> (panic + action) \<times> connState \<times> Engine" where
  "dispatch b = (\<lambda>(st, e).
     case classify b (cs_phase st) of
       FrameRegistration \<Rightarrow>
         (Inr ([RegistrationReply_Encode \<lparr>rr_Path = eng_addr e\<rparr>], False), st\<lparr>cs_phase := 1\<rparr>, eng_record b False e)
     | FrameComm \<Rightarrow> (Inr ([Ack_Encode \<lparr>ack_Value = 1\<rparr>], False), st\<lparr>cs_phase := 2\<rparr>, eng_record b False e)
     | FrameKeepAlive \<Rightarrow> (Inr ([Ack_Encode \<lparr>ack_Value = 1\<rparr>], False), st\<lparr>cs_phase := 2\<rparr>, eng_record b False e)
     | FrameRequest \<Rightarrow> requestFrame b (st\<lparr>cs_phase := 2\<rparr>, e)
     | FrameResponse \<Rightarrow> responseFrame b (st\<lparr>cs_phase := 2\<rparr>, e)
     | FrameUnknown \<Rightarrow> (Inr ([], False), st, eng_record b False e))"

section \<open>The engine as a network\<close>

text \<open>
  Connections to the engine, each with its handler state, the replies not yet received, and
  whether it is closed. A dial reaches the engine only over the medium its listener is on and at its
  address: the registry key of the memory transport, or a TCP address of the same host and port, with
  the \<open>tcp://\<close> scheme or without. The engine handles a frame as soon as it is sent. A receive with
  nothing to receive runs into its deadline.
\<close>

record mock_conn =
  mq_state :: connState
  mq_replies :: "bytes list"
  mq_closed :: bool

record mock_world =
  mk_engine :: Engine
  mk_conn :: "nat \<Rightarrow> mock_conn"
  mk_next :: nat
  mk_clock :: int
  mk_medium :: medium

definition put_mock :: "nat \<Rightarrow> mock_conn \<Rightarrow> Engine \<Rightarrow> mock_world \<Rightarrow> mock_world" where
  "put_mock k q e w = w\<lparr>mk_conn := (mk_conn w)(k := q), mk_engine := e\<rparr>"

definition mock_reaches :: "medium \<Rightarrow> string \<Rightarrow> mock_world \<Rightarrow> bool" where
  "mock_reaches m a w \<longleftrightarrow> m = mk_medium w \<and>
     (if m = TCP then \<not> is_err (parseAddr a) \<and> parseAddr a = parseAddr (eng_addr (mk_engine w))
      else a = eng_addr (mk_engine w))"

definition mock_connect :: "medium \<Rightarrow> string \<Rightarrow> mock_world \<Rightarrow> (terr + nat) \<times> mock_world" where
  "mock_connect m a w =
     (let k = mk_next w in
      if \<not> mock_reaches m a w then (Inl (ErrOther ''no listener at address''), w)
      else case accept_conn k (mk_engine w) of (ok, e) \<Rightarrow>
        if \<not> ok then (Inl ErrClosed, w)
        else (Inr k, put_mock k \<lparr>mq_state = \<lparr>cs_phase = 0, cs_flakyN = 0\<rparr>, mq_replies = [], mq_closed = False\<rparr> e
          (w\<lparr>mk_next := Suc k\<rparr>)))"

definition mock_send :: "nat \<Rightarrow> bytes \<Rightarrow> mock_world \<Rightarrow> terr option \<times> mock_world" where
  "mock_send k b w =
     (let q = mk_conn w k in
      if mq_closed q then (Some ErrClosed, w)
      else case dispatch b (mq_state q, mk_engine w) of
        (Inl _, st, e) \<Rightarrow> (None, put_mock k (q\<lparr>mq_state := st, mq_closed := True\<rparr>) (e\<lparr>eng_closed := True\<rparr>) w)
      | (Inr (replies, closes), st, e) \<Rightarrow>
          (None, put_mock k (q\<lparr>mq_state := st, mq_replies := mq_replies q @ replies, mq_closed := closes\<rparr>)
             (if closes then conn_gone k e else e) w))"

definition mock_recv :: "nat \<Rightarrow> int option \<Rightarrow> mock_world \<Rightarrow> (terr + bytes) \<times> mock_world" where
  "mock_recv k d w =
     (let q = mk_conn w k in
      case mq_replies q of
        r # rs \<Rightarrow> (Inr r, put_mock k (q\<lparr>mq_replies := rs\<rparr>) (mk_engine w) w)
      | [] \<Rightarrow>
          if mq_closed q then (Inl ErrClosed, w)
          else (Inl (ErrCtx DeadlineExceeded), case d of None \<Rightarrow> w | Some t \<Rightarrow> w\<lparr>mk_clock := max t (mk_clock w)\<rparr>))"

definition mock_net :: "(nat, mock_world) net" where
  "mock_net = \<lparr>
     nt_connect = mock_connect,
     nt_openRing = (\<lambda>n c w. (Inl (ErrOther ''linux: open write queue''), w)),
     nt_send = mock_send,
     nt_recv = mock_recv,
     nt_close = (\<lambda>k w. put_mock k ((mk_conn w k)\<lparr>mq_closed := True\<rparr>) (conn_gone k (mk_engine w)) w),
     nt_is_ring = (\<lambda>k. False),
     nt_recvQueued = (\<lambda>k w. (Inl ErrClosed, w)),
     nt_signal = (\<lambda>k sid w. (None, w)),
     nt_now = mk_clock,
     nt_sleep = (\<lambda>d w. w\<lparr>mk_clock := mk_clock w + max 0 d\<rparr>)\<rparr>"

section \<open>Requests\<close>

text \<open>A frame with one of the data types has a second byte 0, so its request parsers are tried first.\<close>

lemma frame_type_bytes:
  assumes "frame_type b = Some dt" and "unat dt < 256"
  shows "2 \<le> length b \<and> b ! 1 = 0"
proof -
  have long: "2 \<le> length b" and dt: "dt = word_of_nat (le_nat (take 2 b))"
    using assms(1) by (auto simp: frame_type_def rd_u16_def rd_take_def rd_new_def rd_remaining_def split: if_splits)
  then obtain x y r where b: "b = x # y # r"
    by (metis (no_types) One_nat_def Suc_1 Suc_le_length_iff)
  have "unat x < 256" "unat y < 256" using unsigned_less [of x] unsigned_less [of y] by simp_all
  moreover have "le_nat (take 2 b) = unat x + 256 * unat y" using b by (simp add: numeral_2_eq_2)
  ultimately have "unat dt = unat x + 256 * unat y"
    unfolding dt by (simp add: unat_of_nat take_bit_nat_eq_self del: of_nat_add)
  with assms(2) have "unat y = 0" by simp
  with b long show ?thesis by (simp add: unat_eq_zero)
qed

lemma parseRequest_start: "ParseRequestStart b = Inr m \<Longrightarrow> parseRequest b = Some (rs_SessionID m, True)"
  by (simp add: parseRequest_def)

lemma parseRequest_end: "ParseRequestEnd b = Inr m \<Longrightarrow> parseRequest b = Some (re_SessionID m, False)"
  by (auto simp: parseRequest_def go_consts split: sum.splits dest!: accepted_types)

lemma parseRequest_bulk: "ParseHeaderBulk b = Inr m \<Longrightarrow> parseRequest b = Some (hb_SessionID m, False)"
  by (auto simp: parseRequest_def go_consts split: sum.splits dest!: accepted_types)

lemma parseRequest_body: "ParseBodyChunk b = Inr m \<Longrightarrow> parseRequest b = Some (bc_SessionID m, False)"
  by (auto simp: parseRequest_def go_consts split: sum.splits dest!: accepted_types)

text \<open>The frame type of a parsed frame is its data type.\<close>

lemma parsed_type:
  "ParseHeaderBulk b = Inr h \<Longrightarrow> hb_DataType h = DataTypeRequestHeader \<Longrightarrow> frame_type b = Some DataTypeRequestHeader"
  "ParseBodyChunk b = Inr c \<Longrightarrow> bc_DataType c = DataTypeRequestBody \<Longrightarrow> frame_type b = Some DataTypeRequestBody"
  "ParseRequestEnd b = Inr m \<Longrightarrow> re_DataType m = DataTypeRequestEnd \<Longrightarrow> frame_type b = Some DataTypeRequestEnd"
  by (auto simp: ParseHeaderBulk_def ParseBodyChunk_def ParseRequestEnd_def frame_type_def split: if_splits)

lemma dispatch_request:
  assumes "frame_type b = Some dt" and "dt \<in> {DataTypeRequestStart, DataTypeRequestHeader, DataTypeRequestBody, DataTypeRequestEnd}"
    and "parseRequest b = Some x"
  shows "dispatch b (st, e) = requestFrame b (st\<lparr>cs_phase := 2\<rparr>, e)"
proof -
  have "unat dt < 256" using assms(2) by (auto simp: go_consts)
  with frame_type_bytes [OF assms(1)] assms have "classify b (cs_phase st) = FrameRequest"
    by (auto simp: classify_def isResponseFrame_def go_consts)
  then show ?thesis by (simp add: dispatch_def)
qed

text \<open>
  An engine that answers: connection \<open>k\<close> is open and has the replies \<open>qs\<close> waiting, the responder is
  \<open>f\<close> and the scripted verdicts are \<open>vs\<close>; a scripted engine has no responder. The next verdict for a
  session, and what is left of the script.
\<close>

definition answering :: "nat \<Rightarrow> bytes list \<Rightarrow> (u32 \<Rightarrow> Verdict) option \<Rightarrow> Verdict list \<Rightarrow> mock_world \<Rightarrow> bool" where
  "answering k qs f vs w \<longleftrightarrow> \<not> mq_closed (mk_conn w k) \<and> mq_replies (mk_conn w k) = qs \<and>
     eng_verdicts (mk_engine w) = vs \<and> eng_respond (mk_engine w) = f \<and> eng_replyEnabled (mk_engine w) \<and>
     eng_flaky (mk_engine w) \<le> 0"

definition scripted_engine :: "nat \<Rightarrow> bytes list \<Rightarrow> Verdict list \<Rightarrow> mock_world \<Rightarrow> bool" where
  "scripted_engine k qs vs w \<longleftrightarrow> answering k qs None vs w"

definition next_verdict :: "u32 \<Rightarrow> (u32 \<Rightarrow> Verdict) option \<Rightarrow> Verdict list \<Rightarrow> Verdict \<times> Verdict list" where
  "next_verdict sid f vs = (case f of
       Some f \<Rightarrow> (f sid, vs)
     | None \<Rightarrow> (case vs of [] \<Rightarrow> (accept_for sid, []) | v # vs \<Rightarrow> (v, vs)))"

lemma next_verdict_simps [simp]:
  "next_verdict sid None (v # vs) = (v, vs)" "next_verdict sid (Some f) vs = (f sid, vs)"
  by (simp_all add: next_verdict_def)

lemma engine_answers:
  assumes "answering k qs f vs w" and "next_verdict sid f vs = (v, vs')"
    and "Verdict_Encode (v\<lparr>vd_SessionID := sid\<rparr>) = Inr r"
    and "(\<exists>m. ParseRequestStart b = Inr m \<and> rs_SessionID m = sid) \<or>
      ParseRequestEnd b = Inr \<lparr>re_DataType = DataTypeRequestEnd, re_SessionID = sid\<rparr>"
  shows "\<exists>w'. mock_send k b w = (None, w') \<and> answering k (qs @ [r]) f vs' w'"
proof -
  obtain isStart dt where p: "frame_type b = Some dt" "dt \<in> {DataTypeRequestStart, DataTypeRequestEnd}"
      "parseRequest b = Some (sid, isStart)" "isStart \<or> isRequestEnd b"
    using assms(4)
  proof (elim disjE exE conjE)
    fix m assume "ParseRequestStart b = Inr m" "rs_SessionID m = sid"
    then show thesis using that [of DataTypeRequestStart True] accepted_types(1) parseRequest_start by auto
  next
    assume e: "ParseRequestEnd b = Inr \<lparr>re_DataType = DataTypeRequestEnd, re_SessionID = sid\<rparr>"
    then have "frame_type b = Some DataTypeRequestEnd" by (rule parsed_type) simp
    then show thesis using that [of DataTypeRequestEnd False] parseRequest_end [OF e] by (simp add: isRequestEnd_def)
  qed
  from dispatch_request [OF p(1) _ p(3)] p(2)
  have "dispatch b x = requestFrame b ((fst x)\<lparr>cs_phase := 2\<rparr>, snd x)" for x by (cases x) auto
  with assms(1-3) p(3,4) show ?thesis
    by (cases f; cases vs)
      (auto simp: mock_send_def requestFrame_def answering_def eng_record_def verdictFor_def send_verdict_def
        next_verdict_def put_mock_def Let_def)
qed

lemma engine_quiet:
  assumes "answering k qs g vs w" and "ParseHeaderBulk b = Inr h \<and> hb_DataType h = DataTypeRequestHeader \<or>
      ParseBodyChunk b = Inr m \<and> bc_DataType m = DataTypeRequestBody"
  shows "\<exists>w'. mock_send k b w = (None, w') \<and> answering k qs g vs w'"
proof -
  obtain dt sid where f: "frame_type b = Some dt" "dt \<in> {DataTypeRequestHeader, DataTypeRequestBody}"
      "parseRequest b = Some (sid, False)"
    using assms(2)
  proof (elim disjE conjE)
    assume e: "ParseHeaderBulk b = Inr h" "hb_DataType h = DataTypeRequestHeader"
    then have "frame_type b = Some DataTypeRequestHeader" by (rule parsed_type)
    then show thesis using that [of DataTypeRequestHeader] parseRequest_bulk [OF e(1)] by simp
  next
    assume e: "ParseBodyChunk b = Inr m" "bc_DataType m = DataTypeRequestBody"
    then have "frame_type b = Some DataTypeRequestBody" by (rule parsed_type)
    then show thesis using that [of DataTypeRequestBody] parseRequest_body [OF e(1)] by simp
  qed
  from dispatch_request [OF f(1) _ f(3)] f(2)
  have "dispatch b x = requestFrame b ((fst x)\<lparr>cs_phase := 2\<rparr>, snd x)" for x by (cases x) auto
  with assms(1) f show ?thesis
    by (auto simp: mock_send_def requestFrame_def answering_def eng_record_def isRequestEnd_def
        put_mock_def go_consts Let_def)
qed

lemma reply_frame:
  assumes "Verdict_wf v"
  obtains r where "Verdict_Encode (v\<lparr>vd_SessionID := sid\<rparr>) = Inr r"
    and "own_verdict sid r = Some (v\<lparr>vd_SessionID := sid\<rparr>)"
proof -
  have "Verdict_wf (v\<lparr>vd_SessionID := sid\<rparr>)" using assms by (simp add: Verdict_wf_def)
  from Verdict_wf_no_panic [OF this] verdict.parse_encode [OF this] that show ?thesis
    by (auto simp: own_verdict_def)
qed

lemma mock_net_simps:
  "nt_send mock_net = mock_send" "nt_recv mock_net = mock_recv" "nt_is_ring mock_net k = False"
  "nt_now mock_net = mk_clock"
  by (simp_all add: mock_net_def)

lemma mock_frame:
  assumes "\<not> cn_closed c" and "mock_send (cn_conn c) f w = (None, w')"
  shows "send_frames mock_net (f # fs) c w = send_frames mock_net fs c w'"
  using assms by (simp add: AppConn_send_def mock_net_simps)

lemma mock_request_frames:
  assumes "\<not> cn_closed c" and "request_fits req" and "answering (cn_conn c) old g vs w"
    and v1: "next_verdict sid g vs = (v1, vs1)" and v2: "next_verdict sid g vs1 = (v2, vs2)"
    and r1: "Verdict_Encode (v1\<lparr>vd_SessionID := sid\<rparr>) = Inr r1"
    and r2: "Verdict_Encode (v2\<lparr>vd_SessionID := sid\<rparr>) = Inr r2"
  shows "\<exists>w'. send_frames mock_net (request_frames sid req) c w = (None, c, w') \<and>
    answering (cn_conn c) (old @ [r1, r2]) g vs2 w'"
proof -
  define s where "s = (rq_Start req)\<lparr>rs_SessionID := sid\<rparr>"
  define h where "h = \<lparr>hb_DataType = DataTypeRequestHeader, hb_SessionID = sid, hb_IsLastPart = True,
    hb_BulkPartIndex = 0, hb_Headers = rq_Headers req\<rparr>"
  define b where "b = \<lparr>bc_DataType = DataTypeRequestBody, bc_SessionID = sid, bc_IsLastChunk = True,
    bc_PartCount = 0, bc_Data = rq_Body req\<rparr>"
  define e where "e = \<lparr>re_DataType = DataTypeRequestEnd, re_SessionID = sid\<rparr>"
  note own = own_frames [OF assms(2) s_def h_def b_def e_def]
  let ?H = "if rq_Headers req \<noteq> [] then [HeaderBulk_Encode h] else []"
  let ?B = "if rq_Body req \<noteq> [] then [BodyChunk_Encode b] else []"
  have fs: "request_frames sid req = RequestStart_Encode s # ?H @ ?B @ [RequestEnd_Encode e]"
    by (simp add: request_frames_def s_def h_def b_def e_def)
  obtain w1 where w1: "mock_send (cn_conn c) (RequestStart_Encode s) w = (None, w1)"
      "answering (cn_conn c) (old @ [r1]) g vs1 w1"
    using engine_answers [OF assms(3) v1 r1, of "RequestStart_Encode s"] own(1) by (auto simp: s_def)
  have quiet: "\<exists>w'. send_frames mock_net ((if x then [f] else []) @ gs) c w = send_frames mock_net gs c w' \<and>
      answering (cn_conn c) qs g us w'"
    if "answering (cn_conn c) qs g us w" "ParseHeaderBulk f = Inr h \<or> ParseBodyChunk f = Inr b" for x f gs w qs us
  proof (cases x)
    case True
    have "hb_DataType h = DataTypeRequestHeader" "bc_DataType b = DataTypeRequestBody" by (simp_all add: h_def b_def)
    with engine_quiet [OF that(1), of f h b] that(2) obtain w' where
      "mock_send (cn_conn c) f w = (None, w')" "answering (cn_conn c) qs g us w'" by auto
    with True mock_frame [OF assms(1)] show ?thesis by (auto simp del: send_frames.simps)
  qed (use that(1) in auto)
  obtain w2 where w2: "send_frames mock_net (?H @ ?B @ [RequestEnd_Encode e]) c w1 =
      send_frames mock_net (?B @ [RequestEnd_Encode e]) c w2" "answering (cn_conn c) (old @ [r1]) g vs1 w2"
    using quiet [OF w1(2)] own(2) by blast
  obtain w3 where w3: "send_frames mock_net (?B @ [RequestEnd_Encode e]) c w2 =
      send_frames mock_net [RequestEnd_Encode e] c w3" "answering (cn_conn c) (old @ [r1]) g vs1 w3"
    using quiet [OF w2(2)] own(3) by blast
  obtain w4 where "mock_send (cn_conn c) (RequestEnd_Encode e) w3 = (None, w4)"
      "answering (cn_conn c) (old @ [r1, r2]) g vs2 w4"
    using engine_answers [OF w3(2) v2 r2] own(4) by (auto simp: e_def)
  then show ?thesis
    unfolding fs mock_frame [OF assms(1) w1(1)] w2(1) w3(1)
    using mock_frame [OF assms(1), of "RequestEnd_Encode e" w3 w4 "[]"] by (auto simp del: send_frames.simps(2))
qed

lemma mock_await:
  assumes "\<not> cn_closed c" and "answering (cn_conn c) (q # qs) g vs w" and "own_verdict sid q = Some v"
    and "vd_Kind v \<noteq> VerdictInspect"
  shows "\<exists>w'. await mock_net cfg sid c w = Some (Inr v, w') \<and> answering (cn_conn c) qs g vs w'"
proof -
  have "0 < verdictBudget cfg" by (simp add: verdictBudget_def Let_def)
  with assms show ?thesis
    unfolding await_def
    by (subst await_loop.simps)
      (simp add: AppConn_recv_def mock_net_simps mock_recv_def answering_def put_mock_def Let_def)
qed

text \<open>A call whose frames are all sent, and what its wait returns.\<close>

lemma mock_served:
  assumes "pool_ready (ec_RegistrationSocket cfg) e i p" and "\<not> cn_closed (pl_conns p i)"
    and "\<not> cn_flowSerial (pl_conns p i)" and "sid = fst (Allocate (cn_sessions (pl_conns p i)))"
    and "c1 = (pl_conns p i)\<lparr>cn_sessions := snd (Allocate (cn_sessions (pl_conns p i)))\<rparr>"
    and "send_frames mock_net (request_frames sid req) c1 w = (None, c1, w1)"
    and "await mock_net cfg sid c1 w1 = Some (x, w2)"
  shows "AcquireVerdict mock_net cfg ctx req p w =
    Some (case x of Inl err \<Rightarrow> on_error cfg sid err | Inr v \<Rightarrow> Inr v, p, w2)"
proof -
  let ?c = "pl_conns p i"
  have sent: "SendRequest mock_net req ?c w = Some (Inr sid, c1, w1)"
    using assms(2-6)
    by (cases "Allocate (cn_sessions ?c)") (simp add: SendRequest_def lockFlow_def AppConn_signal_def mock_net_simps)
  have over: "EndRequest sid c1 = Some ?c"
    using assms(3-5) Reclaim_Allocate [of "cn_sessions ?c"] by (simp add: EndRequest_def unlockFlow_def)
  have same: "put_conn i ?c p = p" by (simp add: put_conn_def)
  show ?thesis
    using ready_acquire [OF assms(1), of mock_net ctx w] ready_release [OF assms(1), of mock_net ?c w2] sent assms(7) over same
    by (simp add: AcquireVerdict_def finish_def release_with_def)
qed

lemma mock_call:
  assumes "pool_ready (ec_RegistrationSocket cfg) e i p" and "\<not> cn_closed (pl_conns p i)"
    and "\<not> cn_flowSerial (pl_conns p i)" and "request_fits req"
    and "answering (cn_conn (pl_conns p i)) old g vs w"
    and "sid = fst (Allocate (cn_sessions (pl_conns p i)))"
    and "Verdict_Encode (v1\<lparr>vd_SessionID := sid\<rparr>) = Inr r1" and "Verdict_Encode (v2\<lparr>vd_SessionID := sid\<rparr>) = Inr r2"
    and "next_verdict sid g vs = (v1, vs1)" and "next_verdict sid g vs1 = (v2, vs2)"
    and "old @ [r1, r2] = q # qs" and "own_verdict sid q = Some v" and "vd_Kind v \<noteq> VerdictInspect"
  shows "\<exists>w'. AcquireVerdict mock_net cfg ctx req p w = Some (Inr v, p, w') \<and>
    answering (cn_conn (pl_conns p i)) qs g vs2 w'"
proof -
  define c1 where "c1 = (pl_conns p i)\<lparr>cn_sessions := snd (Allocate (cn_sessions (pl_conns p i)))\<rparr>"
  obtain w1 where w1: "send_frames mock_net (request_frames sid req) c1 w = (None, c1, w1)"
      "answering (cn_conn c1) (q # qs) g vs2 w1"
    using mock_request_frames [of c1, OF _ assms(4) _ assms(9,10,7,8), of old w] assms(2,5,11) by (auto simp: c1_def)
  obtain w2 where w2: "await mock_net cfg sid c1 w1 = Some (Inr v, w2)" "answering (cn_conn c1) qs g vs2 w2"
    using mock_await [OF _ w1(2) assms(12,13), of cfg] assms(2) by (auto simp: c1_def)
  from mock_served [OF assms(1-3,6) c1_def w1(1) w2(1), of ctx] w2(2) show ?thesis by (simp add: c1_def)
qed

section \<open>Properties\<close>

text \<open>
  The engine answers REQUEST_END from the queue again: the two frames of one transaction take two
  scripted verdicts, not one verdict twice.
\<close>

theorem end_takes_next_verdict:
  assumes "scripted_engine k [] (v1 # v2 # vs) w"
    and "Verdict_Encode (v1\<lparr>vd_SessionID := rs_SessionID s\<rparr>) = Inr r1"
    and "Verdict_Encode (v2\<lparr>vd_SessionID := rs_SessionID s\<rparr>) = Inr r2" and "RequestStart_wf s"
  shows "\<exists>w1 w2. mock_send k (RequestStart_Encode s) w = (None, w1) \<and>
    mock_send k (RequestEnd_Encode \<lparr>re_DataType = DataTypeRequestEnd, re_SessionID = rs_SessionID s\<rparr>) w1 = (None, w2) \<and>
    mq_replies (mk_conn w2 k) = [r1, r2] \<and> eng_verdicts (mk_engine w2) = vs"
proof -
  from engine_answers [OF assms(1)[unfolded scripted_engine_def] next_verdict_simps(1) assms(2)]
    request_start.parse_encode [OF assms(4)] obtain w1 where
    w1: "mock_send k (RequestStart_Encode s) w = (None, w1)" "answering k [r1] None (v2 # vs) w1" by auto
  have "RequestEnd_wf \<lparr>re_DataType = DataTypeRequestEnd, re_SessionID = rs_SessionID s\<rparr>" by (simp add: RequestEnd_wf_def)
  from engine_answers [OF w1(2) next_verdict_simps(1) assms(3)] request_end.parse_encode [OF this] w1(1) show ?thesis
    by (auto simp: answering_def)
qed

text \<open>
  C23: The verdict left over from one request decides the next: the policy returns at the first final
  verdict and leaves the one for REQUEST_END in the queue; the session id is reclaimed and issued
  again, so the frame matches the next request, whose own verdicts are not looked at.
\<close>

theorem leftover_verdict_decides:
  assumes "pool_ready (ec_RegistrationSocket cfg) e i p" and "\<not> cn_closed (pl_conns p i)"
    and "\<not> cn_flowSerial (pl_conns p i)" and "request_fits req1" and "request_fits req2"
    and "scripted_engine (cn_conn (pl_conns p i)) [] [v1, v2, v3, v4] w"
    and "list_all (\<lambda>v. Verdict_wf v \<and> vd_Kind v \<noteq> VerdictInspect) [v1, v2, v3, v4]"
    and "sid = fst (Allocate (cn_sessions (pl_conns p i)))"
  shows "\<exists>w1 w2. AcquireVerdict mock_net cfg ctx req1 p w = Some (Inr (v1\<lparr>vd_SessionID := sid\<rparr>), p, w1) \<and>
    AcquireVerdict mock_net cfg ctx req2 p w1 = Some (Inr (v2\<lparr>vd_SessionID := sid\<rparr>), p, w2)"
proof -
  obtain r1 r2 r3 r4 where r: "Verdict_Encode (v1\<lparr>vd_SessionID := sid\<rparr>) = Inr r1"
      "own_verdict sid r1 = Some (v1\<lparr>vd_SessionID := sid\<rparr>)" "Verdict_Encode (v2\<lparr>vd_SessionID := sid\<rparr>) = Inr r2"
      "own_verdict sid r2 = Some (v2\<lparr>vd_SessionID := sid\<rparr>)" "Verdict_Encode (v3\<lparr>vd_SessionID := sid\<rparr>) = Inr r3"
      "Verdict_Encode (v4\<lparr>vd_SessionID := sid\<rparr>) = Inr r4"
    using assms(7) reply_frame by (auto simp del: not_None_eq) metis
  note call = mock_call [OF assms(1,2,3) _ _ assms(8)]
  from call [OF assms(4) assms(6)[unfolded scripted_engine_def] r(1,3) next_verdict_simps(1) next_verdict_simps(1) _ r(2)]
    assms(7) obtain w1 where
    w1: "AcquireVerdict mock_net cfg ctx req1 p w = Some (Inr (v1\<lparr>vd_SessionID := sid\<rparr>), p, w1)"
      "answering (cn_conn (pl_conns p i)) [r2] None [v3, v4] w1" by auto
  from call [OF assms(5) w1(2) r(5,6) next_verdict_simps(1) next_verdict_simps(1) _ r(4)] assms(7) w1(1) show ?thesis
    by auto
qed

section \<open>Witnesses\<close>

text \<open>
  An engine scripted to accept one request and to drop the next, each for its two frames, and a
  connection to it in a pool.
\<close>

definition drop_for :: "u32 \<Rightarrow> Verdict" where
  "drop_for sid = example_verdict\<lparr>vd_SessionID := sid\<rparr>"

definition mock0 :: mock_world where
  "mock0 = \<lparr>mk_engine = SetNextVerdict (drop_for 0) (SetNextVerdict (drop_for 0)
       (SetNextVerdict (accept_for 0) (SetNextVerdict (accept_for 0) (NewWithListener ''engine'')))),
     mk_conn = (\<lambda>_. \<lparr>mq_state = \<lparr>cs_phase = 2, cs_flakyN = 0\<rparr>, mq_replies = [], mq_closed = False\<rparr>),
     mk_next = 1, mk_clock = 0, mk_medium = TCP\<rparr>"

lemma mock0_scripted: "scripted_engine k [] [accept_for 0, accept_for 0, drop_for 0, drop_for 0] mock0"
  by (simp add: scripted_engine_def answering_def mock0_def SetNextVerdict_def NewWithListener_def)

lemma mock0_verdicts:
  "list_all (\<lambda>v. Verdict_wf v \<and> vd_Kind v \<noteq> VerdictInspect) [accept_for 0, accept_for 0, drop_for 0, drop_for 0]"
  by (simp add: accept_for_def drop_for_def example_verdict_def Verdict_wf_def drop_response_wf_def go_consts)

theorem leftover_verdict_decides_witness:
  "\<exists>w1 w2. AcquireVerdict mock_net strict_cfg None example_request (shared_pool 1) mock0 =
       Some (Inr (accept_for 3), shared_pool 1, w1) \<and>
     AcquireVerdict mock_net strict_cfg None example_request (shared_pool 1) w1 =
       Some (Inr (accept_for 3), shared_pool 1, w2)"
proof -
  have "pl_conns (shared_pool 1) 0 = example_conn" by (simp add: shared_pool_def pool0_def NewPool_def)
  moreover have "\<not> cn_closed example_conn" "\<not> cn_flowSerial example_conn" "cn_sessions example_conn = NewSessionAllocator"
    by (simp_all add: example_conn_def newConn_def script_net_def)
  moreover have "fst (Allocate NewSessionAllocator) = 3" by (simp add: Allocate_def NewSessionAllocator_def)
  ultimately show ?thesis
    using leftover_verdict_decides [OF shared_pool_ready [of 1] _ _ example_request_fits example_request_fits
        mock0_scripted mock0_verdicts refl, of None]
    by (simp add: accept_for_def)
qed

theorem end_takes_next_verdict_witness:
  "\<exists>w1 w2. mock_send 0 (RequestStart_Encode example_start) mock0 = (None, w1) \<and>
     mock_send 0 (RequestEnd_Encode \<lparr>re_DataType = DataTypeRequestEnd, re_SessionID = 3\<rparr>) w1 = (None, w2) \<and>
     eng_verdicts (mk_engine w2) = [drop_for 0, drop_for 0]"
proof -
  obtain r where r: "Verdict_Encode ((accept_for 0)\<lparr>vd_SessionID := 3\<rparr>) = Inr r"
    using reply_frame [of "accept_for 0" 3] mock0_verdicts by auto
  have "rs_SessionID example_start = 3" "RequestStart_wf example_start"
    by (simp_all add: RequestStart_wf_def example_start_def str_ok_def)
  with end_takes_next_verdict [OF mock0_scripted, of example_start r r 0] r show ?thesis by auto
qed

end
