(* ===== verification/Middleware.thy ===== *)
theory Middleware
  imports Handler
begin

text \<open>
  The middleware as a whole: the handler, the fail-open policy, the pool, the connection and the
  frames together. What the engine receives for a request the handler serves, and what can reach
  the next handler when everything is set to fail closed.
\<close>

section \<open>What waiting leaves alone\<close>

text \<open>A part of the world that receiving and sleeping do not change.\<close>

definition keeps :: "('w \<Rightarrow> 'a) \<Rightarrow> ('k, 'w) net \<Rightarrow> bool" where
  "keeps f net \<longleftrightarrow> (\<forall>k d w. f (snd (nt_recv net k d w)) = f w) \<and>
     (\<forall>k w. f (snd (nt_recvQueued net k w)) = f w) \<and> (\<forall>d w. f (nt_sleep net d w) = f w)"

lemma keeps_recv: "keeps f net \<Longrightarrow> AppConn_recv net d c w = (x, w') \<Longrightarrow> f w' = f w"
  unfolding keeps_def AppConn_recv_def by (metis snd_conv)

lemma keeps_queued: "keeps f net \<Longrightarrow> AppConn_recvQueued net c w = (x, w') \<Longrightarrow> f w' = f w"
  unfolding keeps_def AppConn_recvQueued_def by (metis snd_conv)

lemma keeps_sleep: "keeps f net \<Longrightarrow> f (nt_sleep net d w) = f w"
  by (simp add: keeps_def)

lemma drain_keeps:
  assumes "drain net hold sid c w = Some y" and k: "keeps f net"
  shows "f (snd y) = f w"
proof -
  have "net = net \<longrightarrow> f (snd y) = f w"
  proof (rule drain.raw_induct [where P = "\<lambda>n hold sid c w y. n = net \<longrightarrow> f (snd y) = f w", OF _ assms(1)], intro impI)
    fix loop :: "('b, 'a) net \<Rightarrow> int \<Rightarrow> u32 \<Rightarrow> 'b Conn \<Rightarrow> 'a \<Rightarrow> (Verdict option \<times> 'a) option"
      and n hold sid c w y
    assume IH: "\<And>n hold sid c w y. loop n hold sid c w = Some y \<Longrightarrow> n = net \<longrightarrow> f (snd y) = f w"
      and body: "(case AppConn_recvQueued n c w of
          (Inl _, w) \<Rightarrow> Some (None, w)
        | (Inr q, w) \<Rightarrow>
            (case own_verdict sid q of
               None \<Rightarrow> if own_delay sid q then loop n hold sid c (nt_sleep n hold w) else loop n hold sid c w
             | Some vq \<Rightarrow> if vd_Kind vq \<noteq> VerdictInspect then Some (Some vq, w) else loop n hold sid c w)) = Some y"
      and n: "n = net"
    obtain x w1 where x: "AppConn_recvQueued net c w = (x, w1)" by (cases "AppConn_recvQueued net c w")
    have again: "loop net hold sid c w0 = Some y \<Longrightarrow> f (snd y) = f w0" for w0
      using IH by blast
    show "f (snd y) = f w"
      using body x n again [of w1] again [of "nt_sleep net hold w1"] keeps_queued [OF k x] keeps_sleep [OF k, of hold w1]
      by (auto split: sum.splits option.splits if_splits)
  qed
  then show ?thesis by simp
qed

lemma await_loop_keeps:
  assumes "await_loop net poll hold deadline sid c w = Some y" and k: "keeps f net"
  shows "f (snd y) = f w"
proof -
  have "net = net \<longrightarrow> f (snd y) = f w"
  proof (rule await_loop.raw_induct [where P = "\<lambda>n poll hold deadline sid c w y. n = net \<longrightarrow> f (snd y) = f w",
        OF _ assms(1)], intro impI)
    fix loop :: "('b, 'a) net \<Rightarrow> int \<Rightarrow> int \<Rightarrow> int \<Rightarrow> u32 \<Rightarrow> 'b Conn \<Rightarrow> 'a \<Rightarrow> ((terr + Verdict) \<times> 'a) option"
      and n poll hold deadline sid c w y
    assume IH: "\<And>n poll hold deadline sid c w y. loop n poll hold deadline sid c w = Some y \<Longrightarrow>
        n = net \<longrightarrow> f (snd y) = f w"
      and body: "(if \<not> nt_now n w < deadline then Some (Inl (ErrCtx DeadlineExceeded), w)
        else case AppConn_recv n (Some deadline) c w of
          (Inl e, w) \<Rightarrow> Some (Inl e, w)
        | (Inr payload, w) \<Rightarrow>
            (case own_verdict sid payload of
               None \<Rightarrow>
                 if own_delay sid payload then loop n poll hold deadline sid c (nt_sleep n hold w)
                 else loop n poll hold deadline sid c (nt_sleep n poll w)
             | Some v \<Rightarrow>
                 if vd_Kind v \<noteq> VerdictInspect then Some (Inr v, w)
                 else Option.bind (drain n hold sid c w) (\<lambda>(r, w).
                   case r of None \<Rightarrow> loop n poll hold deadline sid c w | Some vq \<Rightarrow> Some (Inr vq, w)))) = Some y"
      and n: "n = net"
    obtain x w1 where x: "AppConn_recv net (Some deadline) c w = (x, w1)" by (cases "AppConn_recv net (Some deadline) c w")
    have again: "loop net poll hold deadline sid c w0 = Some y \<Longrightarrow> f (snd y) = f w0" for w0
      using IH by blast
    have sl: "f (nt_sleep net d w1) = f w1" for d using keeps_sleep [OF k] .
    have drained: "f w2 = f w1" if "drain net hold sid c w1 = Some (r, w2)" for r w2
      using drain_keeps [OF that k] by simp
    show "f (snd y) = f w"
      using body x n again keeps_recv [OF k x] sl
      by (auto split: sum.splits option.splits if_splits simp: bind_eq_Some_conv dest!: drained)
  qed
  then show ?thesis by simp
qed

lemma await_keeps: "await net cfg sid c w = Some (r, w') \<Longrightarrow> keeps f net \<Longrightarrow> f w' = f w"
  unfolding await_def by (drule (1) await_loop_keeps) simp

lemma release_keeps:
  assumes "\<And>k w. f (nt_close net k w) = f w"
  shows "f (snd (Pool_Release net addr p w)) = f w"
  using assms by (simp add: Pool_Release_def close_conn_def AppConn_Close_def Let_def split: option.splits prod.splits)

section \<open>The frames of one call\<close>

lemma wiretap_keeps: "keeps snd (wiretap net)"
  by (simp add: keeps_def wiretap_def split_beta)

lemma wiretap_close: "snd (nt_close (wiretap net) k w) = snd w"
  by (simp add: wiretap_def split_beta)

lemma wiretap_finish:
  assumes "finish (wiretap net) cfg i sid res c p w = Some (r, p', w')"
  shows "snd w' = snd w"
  using assms release_keeps [of snd "wiretap net" "ec_RegistrationSocket cfg" "put_conn i (the (EndRequest sid c)) p" w,
      OF wiretap_close]
  by (auto simp: finish_def release_with_def bind_eq_Some_conv)

text \<open>Over a ready connection that takes everything, a call sends the frames of its request.\<close>

lemma AcquireVerdict_sends:
  assumes "pool_ready (ec_RegistrationSocket cfg) e i p" and "\<not> cn_closed (pl_conns p i)"
    and "accepts_all net (cn_conn (pl_conns p i))" and "sid = fst (Allocate (cn_sessions (pl_conns p i)))"
    and "AcquireVerdict (wiretap net) cfg ctx req p (w, []) = Some (r, p', (w', log))"
  shows "log = map (Pair (cn_conn (pl_conns p i))) (request_frames sid req)"
proof -
  have "\<not> cn_flowHeld (pl_conns p i)" using assms(1) by (simp add: pool_ready_def)
  from SendRequest_sends [OF assms(3,2) this assms(4), of req w] obtain c w1 where
    s: "SendRequest (wiretap net) req (pl_conns p i) (w, []) =
      Some (Inr sid, c, (w1, map (Pair (cn_conn (pl_conns p i))) (request_frames sid req)))" by blast
  obtain v w2 x q where "await (wiretap net) cfg sid c (w1, map (Pair (cn_conn (pl_conns p i))) (request_frames sid req)) =
      Some (v, w2)" and "finish (wiretap net) cfg i sid x c q w2 = Some (r, p', (w', log))"
    using assms(5) s ready_acquire [OF assms(1), of "wiretap net" ctx "(w, [])"]
    by (auto simp: AcquireVerdict_def bind_eq_Some_conv)
  from await_keeps [OF this(1) wiretap_keeps] wiretap_finish [OF this(2)] show ?thesis by simp
qed

text \<open>What serving a request does to the world of the verdict surface is what its one call does.\<close>

lemma ServeHTTP_world:
  assumes "readable r b" and "ServeHTTP pf gz keys h (Some acquire) origin r c w = Some (e, c', w')"
  shows "\<exists>res. acquire (request_data keys r b) w = Some (res, w')"
proof -
  obtain res w1 where a: "acquire (request_data keys r b) w = Some (res, w1)"
  proof (cases "acquire (request_data keys r b) w")
    case None
    obtain r' where r': "readRequestBody r = (Inr b, r')" "r'\<lparr>hr_Body := newRequestBody b\<rparr> = restored r b"
      using readable_read [OF assms(1), of "newRequestBody b"] by (auto simp: restored_def)
    have "hr_Header r' = hr_Header r" using arg_cong [OF r'(2), of hr_Header] by simp
    with None assms(2) r' show thesis by (simp add: ServeHTTP_def request_data_def Let_def)
  qed auto
  with assms(2) ServeHTTP_readable [where acquire = acquire and keys = keys, OF assms(1) a] have "w' = w1"
    by (auto simp: Let_def split: sum.splits prod.splits if_splits)
  with a show ?thesis by blast
qed

section \<open>Properties\<close>

text \<open>
  C5: What the engine receives is the request the client sent: when the handler serves a request whose
  body can be read and whose strings fit their length prefixes, on a pool whose entry is ready and
  whose connection is open, over a connection on which no send and no signal fails, the frames
  sent, and nothing else, read back as the request's line, addresses, headers and the whole body
  under the session the call opened, and they are all sent on that connection.
\<close>

theorem engine_reads_request:
  assumes "readable r b" and "request_fits (request_data keys r b)"
    and "pool_ready (ec_RegistrationSocket cfg) e i p" and "\<not> cn_closed (pl_conns p i)"
    and "accepts_all net (cn_conn (pl_conns p i))" and "sid = fst (Allocate (cn_sessions (pl_conns p i)))"
    and "ServeHTTP pf gz keys h (Some (policy_acquirer (wiretap net) cfg ctx)) origin r c (p, (w, [])) =
      Some (err, c', (p', (w', log)))"
  shows "fst ` set log \<subseteq> {cn_conn (pl_conns p i)} \<and> read_request (map snd log) =
    Some (sid, (request_data keys r b)\<lparr>rq_Start := (requestStart r)\<lparr>rs_SessionID := sid\<rparr>\<rparr>)"
proof -
  from ServeHTTP_world [OF assms(1,7)] obtain res where
    "AcquireVerdict (wiretap net) cfg ctx (request_data keys r b) p (w, []) = Some (res, p', (w', log))"
    by (auto simp: policy_acquirer_def)
  note log = AcquireVerdict_sends [OF assms(3-6) this]
  then have "map snd log = request_frames sid (request_data keys r b)" by (simp add: comp_def)
  with read_request_frames [OF assms(2)] log show ?thesis by (auto simp: request_data_def)
qed

text \<open>
  C2: Failing closed is strict, for a request whose body can be read, when it is configured in both
  places: outside learn mode, with fail-open off in the handler and in the engine configuration,
  either a frame was delivered that carries a final verdict for the session of this request other
  than a block, or the answer is the same for every next handler, so the request has not reached it.
  A request whose body cannot be read is not covered: it is forwarded without inspection
  (\<open>unreadable_body_uninspected\<close>).
\<close>

theorem fail_closed_strict:
  assumes "readable r b" and "failClosed h" and "\<not> failOpenEnabled cfg" and "hn_Mode h \<noteq> ModeLearn"
    and "ServeHTTP pf gz keys h (Some (policy_acquirer (rx_tap net) cfg ctx)) origin r c (p, (w, [])) =
      Some (err, c', (p', (w', log)))"
  shows "(\<exists>v. Inr v \<in> ParseVerdict ` set log \<and> own_session (rx_tap net) cfg ctx p (w, []) (vd_SessionID v) \<and>
      vd_Kind v \<notin> {VerdictInspect, VerdictDrop, VerdictCustomResponse}) \<or>
    (\<forall>origin'. ServeHTTP pf gz keys h (Some (policy_acquirer (rx_tap net) cfg ctx)) origin' r c (p, (w, [])) =
      Some (err, c', (p', (w', log))))"
proof -
  let ?acq = "policy_acquirer (rx_tap net) cfg ctx"
  obtain res where acq: "?acq (request_data keys r b) (p, (w, [])) = Some (res, (p', (w', log)))"
    using ServeHTTP_world [OF assms(1,5)] by blast
  note serve = ServeHTTP_readable [where acquire = ?acq and keys = keys, OF assms(1) acq]
  have ok: "policy_ok (own_session (rx_tap net) cfg ctx p (w, [])) cfg res log"
    using acq AcquireVerdict_ok [of net cfg ctx "request_data keys r b" p "(w, [])"] by (auto simp: policy_acquirer_def)
  show ?thesis
  proof (cases res)
    case (Inl e)
    with serve assms(2,5) show ?thesis by simp
  next
    case (Inr v)
    with ok assms(3) obtain sid q where v: "own_session (rx_tap net) cfg ctx p (w, []) sid" "q \<in> set log"
        "own_verdict sid q = Some v" "vd_Kind v \<noteq> VerdictInspect"
      by (auto simp: policy_ok_def genuine_def)
    then have "vd_SessionID v = sid" "Inr v \<in> ParseVerdict ` set log"
      by (cases "ParseVerdict q"; auto simp: own_verdict_def split: if_splits intro: rev_image_eqI)+
    with v Inr serve assms(4,5) show ?thesis by (cases "vd_Kind v \<in> {VerdictDrop, VerdictCustomResponse}") auto
  qed
qed

section \<open>Calls return\<close>

text \<open>
  On a ready pool, and with an engine that sends finitely many frames, the verdict call returns and so
  does the handler.
\<close>

lemma apsnd_log: "apsnd (\<lambda>w. (w, l)) x = (r, (w, m)) \<longleftrightarrow> x = (r, w) \<and> l = m"
  by (cases x) auto

lemma tapped_finite:
  assumes "finite_engine net left"
  shows "finite_engine (rx_tap net) (\<lambda>s. left (fst s))" and "finite_engine (wiretap net) (\<lambda>s. left (fst s))"
proof -
  note fe = finite_engine.recv [OF assms] finite_engine.queued [OF assms] finite_engine.empty [OF assms]
    finite_engine.sleep [OF assms]
  show "finite_engine (rx_tap net) (\<lambda>s. left (fst s))"
    by unfold_locales (auto simp: rx_tap_def fe(4) split: prod.splits sum.splits dest: fe(1-3))
  show "finite_engine (wiretap net) (\<lambda>s. left (fst s))"
    by unfold_locales (auto simp: wiretap_def fe(4) apsnd_log split: prod.splits dest: fe(1-3))
qed

lemma AcquireVerdict_returns:
  assumes "finite_engine net left" and "pool_ready (ec_RegistrationSocket cfg) e i p"
  shows "\<exists>r p' w'. AcquireVerdict net cfg ctx req p w = Some (r, p', w')"
proof -
  have "\<not> cn_flowHeld (pl_conns p i)" using assms(2) by (simp add: pool_ready_def)
  from SendRequest_balanced [OF this, of net req w] obtain x c w1 where
    s: "SendRequest net req (pl_conns p i) w = Some (x, c, w1)"
      "case x of Inr sid \<Rightarrow> session_open (pl_conns p i) sid c | Inl _ \<Rightarrow> session_over (pl_conns p i) c" by blast
  note acq = ready_acquire [OF assms(2), of net ctx w]
  show ?thesis
  proof (cases x)
    case (Inl err)
    with s acq show ?thesis by (simp add: AcquireVerdict_def release_with_def)
  next
    case (Inr sid)
    with s obtain d where "EndRequest sid c = Some d" using EndRequest_over [of "pl_conns p i" sid c] by auto
    moreover obtain v w2 where "await net cfg sid c w1 = Some (v, w2)"
      using finite_engine.await_returns [OF assms(1), where cfg = cfg and sid = sid and c = c and w = w1] by auto
    ultimately show ?thesis using s(1) acq Inr by (simp add: AcquireVerdict_def finish_def release_with_def)
  qed
qed

lemma ServeHTTP_returns:
  assumes "readable r b" and "acquire (request_data keys r b) w = Some (res, w')"
  shows "\<exists>e c'. ServeHTTP pf gz keys h (Some acquire) origin r c w = Some (e, c', w')"
  unfolding ServeHTTP_readable [where acquire = acquire and keys = keys, OF assms]
  by (auto simp: Let_def split: sum.splits prod.splits)

section \<open>Witnesses\<close>

lemma script_finite: "finite_engine (script_net ring) (\<lambda>w. length (sc_replies w) + length (sc_queued w))"
  by (rule scripted.finite_engine_axioms)

lemma example_run:
  assumes "finite_engine net left"
  shows "\<exists>e c s. ServeHTTP pf gz keys h (Some (policy_acquirer net strict_cfg None)) origin example_post fresh_client
    (shared_pool 1, w) = Some (e, c, s)"
proof -
  obtain x p' w' where "AcquireVerdict net strict_cfg None (request_data keys example_post [1, 2]) (shared_pool 1) w =
      Some (x, p', w')"
    using AcquireVerdict_returns [OF assms shared_pool_ready [of 1]] by fastforce
  then have "policy_acquirer net strict_cfg None (request_data keys example_post [1, 2]) (shared_pool 1, w) =
      Some (x, (p', w'))"
    by (simp add: policy_acquirer_def)
  from ServeHTTP_returns [where acquire = "policy_acquirer net strict_cfg None", OF example_readable this] show ?thesis
    by blast
qed

lemma example_post_fits: "request_fits (request_data (\<lambda>_. []) example_post b)"
proof -
  have addrs: "splitHostPort ''a.example:8080'' = (''a.example'', 8080)" "remoteIP example_post = ''10.0.0.1''"
      "localIP example_post = ''10.0.0.1''"
    by (simp_all add: splitHostPort_def remoteIP_def localIP_def example_post_def net_SplitHostPort_def LastIndexByte_def
        ParseUint_def digit_val_def)
  then show ?thesis
    by (simp add: request_fits_def request_data_def requestStart_def RequestStart_wf_def str_ok_def
        requestHeaders_def Header_wf_def) (simp add: example_post_def str_ok_def)
qed

theorem engine_reads_request_witness:
  "\<exists>e c p' w' log. ServeHTTP (\<lambda>_. None) (\<lambda>b. b) (\<lambda>_. []) default_handler
       (Some (policy_acquirer (wiretap calm_net) strict_cfg None)) page_origin example_post fresh_client
       (shared_pool 1, (accepting, [])) = Some (e, c, (p', (w', log))) \<and>
     map_option (\<lambda>(sid, req). (sid, rq_Body req)) (read_request (map snd log)) = Some (3, [1, 2])"
proof -
  have "finite_engine calm_net (\<lambda>w. length (sc_replies w) + length (sc_queued w))"
    using script_finite [of True] by (simp add: finite_engine_def calm_net_def)
  from example_run [OF tapped_finite(2) [OF this]] obtain e c p' w' log where
    run: "ServeHTTP (\<lambda>_. None) (\<lambda>b. b) (\<lambda>_. []) default_handler (Some (policy_acquirer (wiretap calm_net) strict_cfg None))
      page_origin example_post fresh_client (shared_pool 1, (accepting, [])) = Some (e, c, (p', (w', log)))"
    by (metis prod_cases3)
  note fits = example_post_fits [of "[1, 2]"]
  have conn: "pl_conns (shared_pool 1) 0 = example_conn" by (simp add: shared_pool_def pool0_def NewPool_def)
  have c: "\<not> cn_closed (pl_conns (shared_pool 1) 0)" "3 = fst (Allocate (cn_sessions (pl_conns (shared_pool 1) 0)))"
    unfolding conn by (simp_all add: example_conn_def newConn_def Allocate_def NewSessionAllocator_def)
  from engine_reads_request [OF example_readable fits shared_pool_ready [of 1] c(1) calm_net_accepts c(2) run] run
  show ?thesis by (auto simp: request_data_def)
qed

theorem fail_closed_strict_witness:
  "\<exists>h e c p' w' log. failClosed h \<and> ServeHTTP (\<lambda>_. None) (\<lambda>b. b) (\<lambda>_. []) h
       (Some (policy_acquirer (rx_tap (script_net False)) strict_cfg None)) page_origin example_post fresh_client
       (shared_pool 1, (accepting, [])) = Some (e, c, (p', (w', log))) \<and>
     ((\<exists>v. Inr v \<in> ParseVerdict ` set log \<and> vd_Kind v \<noteq> VerdictDrop) \<or>
      ServeHTTP (\<lambda>_. None) (\<lambda>b. b) (\<lambda>_. []) h
       (Some (policy_acquirer (rx_tap (script_net False)) strict_cfg None)) (\<lambda>_. ([], None)) example_post fresh_client
       (shared_pool 1, (accepting, [])) = Some (e, c, (p', (w', log))))"
proof -
  let ?h = "default_handler\<lparr>hn_FailOpen := Some False\<rparr>"
  from example_run [OF tapped_finite(1) [OF script_finite]] obtain e c p' w' log where
    run: "ServeHTTP (\<lambda>_. None) (\<lambda>b. b) (\<lambda>_. []) ?h (Some (policy_acquirer (rx_tap (script_net False)) strict_cfg None))
      page_origin example_post fresh_client (shared_pool 1, (accepting, [])) = Some (e, c, (p', (w', log)))"
    by (metis prod_cases3)
  have h: "failClosed ?h" "hn_Mode ?h \<noteq> ModeLearn" "\<not> failOpenEnabled strict_cfg"
    by (simp_all add: failClosed_def default_handler_fields ModePrevent_def ModeLearn_def failOpenEnabled_def strict_cfg_def)
  from fail_closed_strict [OF example_readable h(1,3,2) run] show ?thesis
    using h(1) run by (intro exI [of _ ?h] exI [of _ e] exI [of _ c] exI [of _ p'] exI [of _ w'] exI [of _ log]) auto
qed

end
