(* ===== verification/Open_Ring.thy ===== *)
theory Open_Ring
  imports Ring_Conn Go_Strings
begin

text \<open>
  Opening the two queue files of a shared-memory connection, internal/transport/linux/ring_linux.go:
  the files' paths, \<open>openRingQueue\<close>, \<open>OpenRing\<close> and the release of files and mappings by \<open>Close\<close>. The
  system calls are a record of operations on a world \<open>'w\<close>: a mapping is its address and the bytes
  found there. The comm connection is a value of type \<open>'k\<close> with its own \<open>Close\<close>.
\<close>

section \<open>System calls\<close>

record 'w sys =
  sy_Open :: "string \<Rightarrow> 'w \<Rightarrow> (terr + int) \<times> 'w"
  sy_Fstat :: "int \<Rightarrow> 'w \<Rightarrow> (terr + int) \<times> 'w"
  sy_Mmap :: "int \<Rightarrow> int \<Rightarrow> 'w \<Rightarrow> (terr + nat \<times> bytes) \<times> 'w"
  sy_Munmap :: "nat \<Rightarrow> 'w \<Rightarrow> 'w"
  sy_Close :: "int \<Rightarrow> 'w \<Rightarrow> 'w"

section \<open>Paths\<close>

text \<open>
  \<open>filepath.Join\<close> of an absolute directory and a name: joined with a slash and cleaned lexically,
  empty and \<open>.\<close> elements dropped and \<open>..\<close> removing the element before it.
\<close>

fun clean_step :: "string list \<Rightarrow> string \<Rightarrow> string list" where
  "clean_step st c = (if c = '''' \<or> c = ''.'' then st else if c = ''..'' then butlast st else st @ [c])"

definition filepath_Join :: "string \<Rightarrow> string \<Rightarrow> string" where
  "filepath_Join dir name =
     (case foldl clean_step [] (Split (dir @ ''/'' @ name) (CHR ''/'')) of
        [] \<Rightarrow> ''/''
      | cs \<Rightarrow> concat (map (\<lambda>c. CHR ''/'' # c) cs))"

definition dirWrite :: string where
  "dirWrite = ''rx''"

definition dirRead :: string where
  "dirRead = ''tx''"

definition queue_path :: "string \<Rightarrow> string \<Rightarrow> string" where
  "queue_path direction name = filepath_Join ''/dev/shm'' (queueFileName direction name)"

section \<open>One queue\<close>

record ringQueue =
  q_fd :: int
  q_mmap :: nat
  q_ring :: ring

definition openRingQueue :: "'w sys \<Rightarrow> string \<Rightarrow> 'w \<Rightarrow> (terr + ringQueue) \<times> 'w" where
  "openRingQueue sys path w =
     (case sy_Open sys path w of
        (Inl e, w) \<Rightarrow> (Inl e, w)
      | (Inr fd, w) \<Rightarrow>
          (case sy_Fstat sys fd w of
             (Inl e, w) \<Rightarrow> (Inl (ErrWrapped e), sy_Close sys fd w)
           | (Inr len, w) \<Rightarrow>
               if len \<le> 0 then (Inl (ErrOther ''shared-memory file is empty''), sy_Close sys fd w)
               else case sy_Mmap sys fd len w of
                 (Inl e, w) \<Rightarrow> (Inl (ErrWrapped e), sy_Close sys fd w)
               | (Inr (m, data), w) \<Rightarrow>
                   (case newRing data of
                      Inl e \<Rightarrow> (Inl (ErrRing e), sy_Close sys fd (sy_Munmap sys m w))
                    | Inr r \<Rightarrow> (Inr \<lparr>q_fd = fd, q_mmap = m, q_ring = r\<rparr>, w))))"

definition ringQueue_close :: "'w sys \<Rightarrow> ringQueue \<Rightarrow> 'w \<Rightarrow> ringQueue \<times> 'w" where
  "ringQueue_close sys q w =
     (if 0 \<le> q_fd q then (q\<lparr>q_fd := -1\<rparr>, sy_Close sys (q_fd q) (sy_Munmap sys (q_mmap q) w)) else (q, w))"

section \<open>The connection\<close>

record 'k shm_conn =
  sh_conn :: ring_conn
  sh_writeQ :: ringQueue
  sh_readQ :: ringQueue
  sh_comm :: 'k

definition OpenRing :: "'w sys \<Rightarrow> ctx \<Rightarrow> string \<Rightarrow> 'k \<Rightarrow> 'w \<Rightarrow> (terr + 'k shm_conn) \<times> 'w" where
  "OpenRing sys ctx name comm w =
     (case ctx of
        Some e \<Rightarrow> (Inl (ErrCtx e), w)
      | None \<Rightarrow>
        if name = '''' then (Inl (ErrOther ''linux: OpenRing: empty unique id (queue name)''), w)
        else case openRingQueue sys (queue_path dirWrite name) w of
          (Inl e, w) \<Rightarrow> (Inl (ErrWrapped e), w)
        | (Inr writeQ, w) \<Rightarrow>
            (case openRingQueue sys (queue_path dirRead name) w of
               (Inl e, w) \<Rightarrow> (case ringQueue_close sys writeQ w of (_, w) \<Rightarrow> (Inl (ErrWrapped e), w))
             | (Inr readQ, w) \<Rightarrow>
                 (Inr \<lparr>sh_conn = newRingConn (q_ring writeQ) (q_ring readQ) True,
                    sh_writeQ = writeQ, sh_readQ = readQ, sh_comm = comm\<rparr>, w)))"

text \<open>\<open>Close\<close> with what it releases: the comm connection and both queues, the first time only.\<close>

definition shm_Close ::
  "'w sys \<Rightarrow> ('k \<Rightarrow> 'w \<Rightarrow> 'w) \<Rightarrow> 'k shm_conn \<Rightarrow> 'w \<Rightarrow> terr option \<times> 'k shm_conn \<times> 'w" where
  "shm_Close sys closeComm s w =
     (case RingConn_Close (sh_conn s) of
        (Some e, c) \<Rightarrow> (Some e, s\<lparr>sh_conn := c\<rparr>, w)
      | (None, c) \<Rightarrow>
          let w = (if rc_comm (sh_conn s) then closeComm (sh_comm s) w else w);
              (wq, w) = ringQueue_close sys (sh_writeQ s) w;
              (rq, w) = ringQueue_close sys (sh_readQ s) w
          in (None, s\<lparr>sh_conn := c, sh_writeQ := wq, sh_readQ := rq\<rparr>, w))"

section \<open>The paths\<close>

lemma split_at_absent: "sep \<notin> set s \<Longrightarrow> split_at sep s = (s, None)"
  by (induction s) auto

lemma split_at_first: "sep \<notin> set a \<Longrightarrow> split_at sep (a @ sep # b) = (a, Some b)"
  by (induction a) auto

lemma Split_absent: "sep \<notin> set s \<Longrightarrow> Split s sep = [s]"
  by (simp add: Split.simps [of s] split_at_absent)

lemma Split_first: "sep \<notin> set a \<Longrightarrow> Split (a @ sep # b) sep = a # Split b sep"
  by (simp add: Split.simps [of "a @ sep # b"] split_at_first)

lemma Split_shm: "CHR ''/'' \<notin> set f \<Longrightarrow> Split (''/dev/shm/'' @ f) (CHR ''/'') = ['''', ''dev'', ''shm'', f]"
  using Split_first [of "CHR ''/''" "''''" "''dev/shm/'' @ f"] Split_first [of "CHR ''/''" "''dev''" "''shm/'' @ f"]
    Split_first [of "CHR ''/''" "''shm''" f] Split_absent [of "CHR ''/''" f] by simp

lemma queue_path_plain:
  assumes "CHR ''/'' \<notin> set name" and "CHR ''/'' \<notin> set d"
  shows "queue_path d name = ''/dev/shm/__cp_nano_'' @ d @ ''_shared_memory_'' @ name @ ''__''"
proof -
  have "CHR ''/'' \<notin> set (queueFileName d name)" using assms by (simp add: queueFileName_def)
  from Split_shm [OF this] show ?thesis
    by (simp add: queue_path_def filepath_Join_def) (simp add: queueFileName_def)
qed

section \<open>What stays open\<close>

text \<open>The system calls with a record of the file descriptors and mappings held.\<close>

definition held :: "'w sys \<Rightarrow> ('w \<times> int list \<times> nat list) sys" where
  "held sys = \<lparr>
     sy_Open = (\<lambda>p (w, fs, ms). case sy_Open sys p w of
        (Inr fd, w) \<Rightarrow> (Inr fd, (w, fd # fs, ms)) | (Inl e, w) \<Rightarrow> (Inl e, (w, fs, ms))),
     sy_Fstat = (\<lambda>fd (w, fs, ms). apsnd (\<lambda>w. (w, fs, ms)) (sy_Fstat sys fd w)),
     sy_Mmap = (\<lambda>fd n (w, fs, ms). case sy_Mmap sys fd n w of
        (Inr (m, b), w) \<Rightarrow> (Inr (m, b), (w, fs, m # ms)) | (Inl e, w) \<Rightarrow> (Inl e, (w, fs, ms))),
     sy_Munmap = (\<lambda>m (w, fs, ms). (sy_Munmap sys m w, fs, remove1 m ms)),
     sy_Close = (\<lambda>fd (w, fs, ms). (sy_Close sys fd w, remove1 fd fs, ms))\<rparr>"

definition fd_nonneg :: "'w sys \<Rightarrow> bool" where
  "fd_nonneg sys \<longleftrightarrow> (\<forall>p w. case fst (sy_Open sys p w) of Inr fd \<Rightarrow> 0 \<le> fd | Inl _ \<Rightarrow> True)"

lemma openRingQueue_held:
  assumes "openRingQueue (held sys) p (w, fs, ms) = (x, (w', fs', ms'))"
  shows "case x of Inl _ \<Rightarrow> fs' = fs \<and> ms' = ms
    | Inr q \<Rightarrow> fs' = q_fd q # fs \<and> ms' = q_mmap q # ms \<and> (fd_nonneg sys \<longrightarrow> 0 \<le> q_fd q) \<and>
        (\<exists>data. newRing data = Inr (q_ring q))"
proof -
  obtain r w1 where o: "sy_Open sys p w = (r, w1)" by (cases "sy_Open sys p w")
  show ?thesis
  proof (cases r)
    case (Inl e)
    with assms o show ?thesis by (auto simp: openRingQueue_def held_def)
  next
    case (Inr fd)
    have fd: "0 \<le> fd" if "fd_nonneg sys"
      using that [unfolded fd_nonneg_def, rule_format, of p w] o Inr by simp
    obtain z w2 where z: "sy_Fstat sys fd w1 = (z, w2)" by (cases "sy_Fstat sys fd w1")
    show ?thesis
    proof (cases z)
      case (Inl e)
      with assms o Inr z show ?thesis by (auto simp: openRingQueue_def held_def \<open>r = Inr fd\<close>)
    next
      case len: (Inr len)
      obtain y w3 where y: "sy_Mmap sys fd len w2 = (y, w3)" by (cases "sy_Mmap sys fd len w2")
      show ?thesis
        using assms o Inr z len y fd
        by (auto simp: openRingQueue_def held_def split: if_splits sum.splits prod.splits)
    qed
  qed
qed

lemma ringQueue_close_held:
  "0 \<le> q_fd q \<Longrightarrow> ringQueue_close (held sys) q (w, fs, ms) =
     (q\<lparr>q_fd := -1\<rparr>, (sy_Close sys (q_fd q) (sy_Munmap sys (q_mmap q) w), remove1 (q_fd q) fs, remove1 (q_mmap q) ms))"
  by (simp add: ringQueue_close_def held_def)

lemma OpenRing_held:
  assumes "OpenRing (held sys) ctx name comm (w, fs, ms) = (x, (w', fs', ms'))" and "fd_nonneg sys"
  shows "case x of Inl _ \<Rightarrow> fs' = fs \<and> ms' = ms
    | Inr s \<Rightarrow> fs' = q_fd (sh_readQ s) # q_fd (sh_writeQ s) # fs \<and>
        ms' = q_mmap (sh_readQ s) # q_mmap (sh_writeQ s) # ms \<and>
        0 \<le> q_fd (sh_readQ s) \<and> 0 \<le> q_fd (sh_writeQ s) \<and> sh_comm s = comm \<and>
        sh_conn s = newRingConn (q_ring (sh_writeQ s)) (q_ring (sh_readQ s)) True \<and>
        (\<exists>data. newRing data = Inr (q_ring (sh_writeQ s))) \<and> (\<exists>data. newRing data = Inr (q_ring (sh_readQ s)))"
proof (cases "ctx \<noteq> None \<or> name = ''''")
  case True
  with assms(1) show ?thesis by (auto simp: OpenRing_def split: option.splits if_splits)
next
  case False
  obtain a w1 fs1 ms1 where a: "openRingQueue (held sys) (queue_path dirWrite name) (w, fs, ms) = (a, (w1, fs1, ms1))"
    by (metis prod.collapse)
  note qa = openRingQueue_held [OF a]
  obtain b w2 fs2 ms2 where b: "openRingQueue (held sys) (queue_path dirRead name) (w1, fs1, ms1) = (b, (w2, fs2, ms2))"
    by (metis prod.collapse)
  note qb = openRingQueue_held [OF b]
  show ?thesis
    using assms False a b qa qb
    by (cases a; cases b) (auto simp: OpenRing_def ringQueue_close_held)
qed

section \<open>Properties\<close>

text \<open>
  C31: \<open>OpenRing\<close> holds nothing after a failure: whichever of the system calls fails, and when a
  queue's header is refused, every file it opened is closed and every mapping removed. After a
  success it holds one file and one mapping for each queue, both queues have passed the header
  check, and the first \<open>Close\<close> of the connection releases exactly these while a second one
  releases nothing.
\<close>

theorem open_ring_no_leak:
  assumes "OpenRing (held sys) ctx name comm (w, fs, ms) = (x, (w', fs', ms'))" and "fd_nonneg sys"
  shows "case x of Inl _ \<Rightarrow> fs' = fs \<and> ms' = ms
    | Inr s \<Rightarrow> length fs' = 2 + length fs \<and> length ms' = 2 + length ms \<and>
        (\<exists>data. newRing data = Inr (rc_writeQ (sh_conn s))) \<and> (\<exists>data. newRing data = Inr (rc_readQ (sh_conn s))) \<and>
        (case shm_Close (held sys) (\<lambda>_ w. w) s (w', fs', ms') of (e, s1, (w1, fs1, ms1)) \<Rightarrow>
           e = None \<and> fs1 = fs \<and> ms1 = ms \<and>
           shm_Close (held sys) (\<lambda>_ w. w) s1 (w1, fs1, ms1) = (Some ErrClosed, s1, (w1, fs1, ms1)))"
proof -
  note held = OpenRing_held [OF assms]
  show ?thesis
  proof (cases x)
    case (Inr s)
    with held have s: "0 \<le> q_fd (sh_readQ s)" "0 \<le> q_fd (sh_writeQ s)"
        "fs' = q_fd (sh_readQ s) # q_fd (sh_writeQ s) # fs" "ms' = q_mmap (sh_readQ s) # q_mmap (sh_writeQ s) # ms"
        "sh_conn s = newRingConn (q_ring (sh_writeQ s)) (q_ring (sh_readQ s)) True"
        "\<exists>data. newRing data = Inr (q_ring (sh_writeQ s))" "\<exists>data. newRing data = Inr (q_ring (sh_readQ s))"
      by simp_all
    then show ?thesis
      by (simp add: Inr shm_Close_def RingConn_Close_def newRingConn_def ringQueue_close_held)
  qed (use held in simp)
qed

text \<open>
  the attachment writes into the file the engine reads as its rx queue and reads the engine's
  tx queue, two different files: for a unique id without a slash they are
  \<open>/dev/shm/__cp_nano_rx_shared_memory_<id>__\<close> and \<open>/dev/shm/__cp_nano_tx_shared_memory_<id>__\<close>.
\<close>

theorem queue_paths:
  assumes "CHR ''/'' \<notin> set name"
  shows "queue_path dirWrite name = ''/dev/shm/__cp_nano_rx_shared_memory_'' @ name @ ''__'' \<and>
    queue_path dirRead name = ''/dev/shm/__cp_nano_tx_shared_memory_'' @ name @ ''__''"
  using queue_path_plain [OF assms] by (simp add: dirWrite_def dirRead_def)

theorem queue_paths_witness:
  "queue_path dirWrite ''edge_1'' = ''/dev/shm/__cp_nano_rx_shared_memory_edge_1__''"
  using queue_paths [of "''edge_1''"] by simp

section \<open>A file system\<close>

text \<open>Files under given paths, each opened with the next descriptor and mapped at the next address.\<close>

definition shm_files :: "(string \<rightharpoonup> bytes) \<Rightarrow> (nat \<times> (nat \<rightharpoonup> bytes)) sys" where
  "shm_files files = \<lparr>
     sy_Open = (\<lambda>p (n, fm). case files p of None \<Rightarrow> (Inl (ErrOther ''no such file or directory''), (n, fm))
        | Some b \<Rightarrow> (Inr (int n), (Suc n, fm(n \<mapsto> b)))),
     sy_Fstat = (\<lambda>fd (n, fm). case fm (nat fd) of None \<Rightarrow> (Inl (ErrOther ''bad file descriptor''), (n, fm))
        | Some b \<Rightarrow> (Inr (int (length b)), (n, fm))),
     sy_Mmap = (\<lambda>fd len (n, fm). case fm (nat fd) of None \<Rightarrow> (Inl (ErrOther ''bad file descriptor''), (n, fm))
        | Some b \<Rightarrow> (Inr (n, b), (Suc n, fm))),
     sy_Munmap = (\<lambda>m s. s),
     sy_Close = (\<lambda>fd (n, fm). (n, fm(nat fd := None)))\<rparr>"

lemma newRing_empty_ring: "newRing (rg_buf empty_ring) = Inr empty_ring"
  unfolding empty_ring_def by (rule newRing_layout) (simp_all add: empty_cells_def zeros_def)

definition two_files :: "string \<Rightarrow> string \<rightharpoonup> bytes" where
  "two_files name = [queue_path dirWrite name \<mapsto> rg_buf empty_ring, queue_path dirRead name \<mapsto> rg_buf empty_ring]"

lemma shm_files_nonneg: "fd_nonneg (shm_files files)"
  by (auto simp: fd_nonneg_def shm_files_def split: option.splits sum.splits)

lemma rg_buf_nonempty: "rg_buf empty_ring \<noteq> []"
proof
  assume "rg_buf empty_ring = []"
  then have "newRing [] = Inr empty_ring" using newRing_empty_ring by simp
  then show False by (simp add: newRing_def parseHeader_def bindE_def go_consts)
qed

theorem open_ring_no_leak_witness:
  "\<exists>s w fs ms w1 s1. OpenRing (held (shm_files (two_files ''edge_1''))) None ''edge_1'' () ((3, Map.empty), [7], []) =
      (Inr s, (w, fs, ms)) \<and> length fs = 3 \<and> length ms = 2 \<and>
    shm_Close (held (shm_files (two_files ''edge_1''))) (\<lambda>_ w. w) s (w, fs, ms) = (None, s1, (w1, [7], []))"
proof -
  let ?S = "shm_files (two_files ''edge_1'')"
  obtain x w fs ms where run: "OpenRing (held ?S) None ''edge_1'' () ((3, Map.empty), [7], []) = (x, (w, fs, ms))"
    by (metis prod.collapse)
  moreover have "\<not> is_err x"
    using run newRing_empty_ring rg_buf_nonempty
    by (auto simp: OpenRing_def openRingQueue_def held_def shm_files_def dirWrite_def dirRead_def queue_path_plain
        two_files_def)
  ultimately show ?thesis using open_ring_no_leak [OF run shm_files_nonneg] by (cases x) (auto split: prod.splits)
qed

end
