(* ===== verification/Ring_Net.thy ===== *)
theory Ring_Net
  imports Middleware Open_Ring
begin

text \<open>
  The shared-memory transport as the network under the engine connection: \<open>ring_net\<close> puts the
  dialer's \<open>OpenRing\<close> and the ring connection of internal/transport/linux under the operations
  the app uses, over a \<open>base\<close> network for the sockets. Connections are sockets of the base or ring
  connections by their number. The engine's side is \<open>peer\<close>: what it did to the connection before a
  call and the polling periods during the call, after which the call's context ends.
\<close>

section \<open>The network\<close>

type_synonym 'w peer = "nat \<Rightarrow> 'w \<Rightarrow> (ring_conn \<Rightarrow> ring_conn) \<times> poll list"

definition until_deadline :: "poll list \<Rightarrow> poll list" where
  "until_deadline polls = polls @ alone (Some DeadlineExceeded)"

definition shm_send ::
  "'w peer \<Rightarrow> nat \<Rightarrow> bytes \<Rightarrow> 'w \<times> 'k shm_conn list \<Rightarrow> terr option \<times> 'w \<times> 'k shm_conn list" where
  "shm_send peer i b = (\<lambda>(w, ss). case peer i w of (before, polls) \<Rightarrow>
     (case RingConn_Send b (until_deadline polls) (before (sh_conn (ss ! i))) of (r, c) \<Rightarrow>
        (case r of Some e \<Rightarrow> e | None \<Rightarrow> Some (ErrCtx DeadlineExceeded), (w, ss[i := (ss ! i)\<lparr>sh_conn := c\<rparr>]))))"

text \<open>A receive that is still waiting for an echo when its context ends gets the comm socket's error.\<close>

definition shm_recv ::
  "'w peer \<Rightarrow> nat \<Rightarrow> 'w \<times> 'k shm_conn list \<Rightarrow> (terr + bytes) \<times> 'w \<times> 'k shm_conn list" where
  "shm_recv peer i = (\<lambda>(w, ss). case peer i w of (before, polls) \<Rightarrow>
     (case RingConn_Recv None (until_deadline polls) (before (sh_conn (ss ! i))) of (r, c) \<Rightarrow>
        (case r of Some x \<Rightarrow> x | None \<Rightarrow> Inl (ErrWrapped (ErrCtx DeadlineExceeded)),
         (w, ss[i := (ss ! i)\<lparr>sh_conn := c\<rparr>]))))"

definition shm_recvQueued ::
  "'w peer \<Rightarrow> nat \<Rightarrow> 'w \<times> 'k shm_conn list \<Rightarrow> (terr + bytes) \<times> 'w \<times> 'k shm_conn list" where
  "shm_recvQueued peer i = (\<lambda>(w, ss). case peer i w of (before, _) \<Rightarrow>
     (case RecvQueued (before (sh_conn (ss ! i))) of (x, c) \<Rightarrow> (x, (w, ss[i := (ss ! i)\<lparr>sh_conn := c\<rparr>]))))"

definition shm_signal ::
  "('k, 'w) net \<Rightarrow> 'w peer \<Rightarrow> nat \<Rightarrow> u32 \<Rightarrow> 'w \<times> 'k shm_conn list \<Rightarrow> terr option \<times> 'w \<times> 'k shm_conn list" where
  "shm_signal base peer i sid = (\<lambda>(w, ss). case peer i w of (before, _) \<Rightarrow>
     let s = (ss ! i)\<lparr>sh_conn := before (sh_conn (ss ! i))\<rparr> in
     if rc_closed (sh_conn s) \<or> \<not> rc_comm (sh_conn s) then
       (case RingConn_Signal None sid (sh_conn s) of (e, c) \<Rightarrow> (e, (w, ss[i := s\<lparr>sh_conn := c\<rparr>])))
     else case nt_send base (sh_comm s) (le_bytes 4 (unat sid)) w of
       (r, w) \<Rightarrow> (case RingConn_Signal r sid (sh_conn s) of (e, c) \<Rightarrow> (e, (w, ss[i := s\<lparr>sh_conn := c\<rparr>]))))"

definition shm_close ::
  "('k, 'w) net \<Rightarrow> 'w sys \<Rightarrow> nat \<Rightarrow> 'w \<times> 'k shm_conn list \<Rightarrow> 'w \<times> 'k shm_conn list" where
  "shm_close base sys i = (\<lambda>(w, ss). case shm_Close sys (nt_close base) (ss ! i) w of (_, s, w) \<Rightarrow> (w, ss[i := s]))"

text \<open>The dialer opens rings over a socket it has dialed; a ring connection is never passed as comm.\<close>

definition shm_open ::
  "'w sys \<Rightarrow> string \<Rightarrow> 'k + nat \<Rightarrow> 'w \<times> 'k shm_conn list \<Rightarrow> (terr + ('k + nat)) \<times> 'w \<times> 'k shm_conn list" where
  "shm_open sys name comm = (\<lambda>(w, ss). case comm of
       Inr _ \<Rightarrow> (Inl ErrPanic, (w, ss))
     | Inl k \<Rightarrow> (case OpenRing sys None name k w of
         (Inl e, w) \<Rightarrow> (Inl e, (w, ss))
       | (Inr s, w) \<Rightarrow> (Inr (Inr (length ss)), (w, ss @ [s]))))"

definition is_shm :: "'k + nat \<Rightarrow> bool" where
  "is_shm k \<longleftrightarrow> (case k of Inl _ \<Rightarrow> False | Inr _ \<Rightarrow> True)"

definition ring_net ::
  "('k, 'w) net \<Rightarrow> 'w sys \<Rightarrow> 'w peer \<Rightarrow> ('k + nat, 'w \<times> 'k shm_conn list) net" where
  "ring_net base sys peer = \<lparr>
     nt_connect = (\<lambda>m a (w, ss). case nt_connect base m a w of (r, w) \<Rightarrow> (map_sum id Inl r, (w, ss))),
     nt_openRing = shm_open sys,
     nt_send = (\<lambda>k b. case k of
        Inl k \<Rightarrow> (\<lambda>(w, ss). apsnd (\<lambda>w. (w, ss)) (nt_send base k b w)) | Inr i \<Rightarrow> shm_send peer i b),
     nt_recv = (\<lambda>k d. case k of
        Inl k \<Rightarrow> (\<lambda>(w, ss). apsnd (\<lambda>w. (w, ss)) (nt_recv base k d w)) | Inr i \<Rightarrow> shm_recv peer i),
     nt_close = (\<lambda>k. case k of
        Inl k \<Rightarrow> (\<lambda>(w, ss). (nt_close base k w, ss)) | Inr i \<Rightarrow> shm_close base sys i),
     nt_is_ring = is_shm,
     nt_recvQueued = (\<lambda>k. case k of
        Inl k \<Rightarrow> (\<lambda>(w, ss). apsnd (\<lambda>w. (w, ss)) (nt_recvQueued base k w)) | Inr i \<Rightarrow> shm_recvQueued peer i),
     nt_signal = (\<lambda>k sid. case k of
        Inl k \<Rightarrow> (\<lambda>(w, ss). apsnd (\<lambda>w. (w, ss)) (nt_signal base k sid w)) | Inr i \<Rightarrow> shm_signal base peer i sid),
     nt_now = (\<lambda>(w, ss). nt_now base w),
     nt_sleep = (\<lambda>d (w, ss). (nt_sleep base d w, ss))\<rparr>"

lemma push_poll_returns: "rc_push_poll p (until_deadline polls) c = (r, c') \<Longrightarrow> r \<noteq> None"
proof (induction polls arbitrary: c)
  case Nil
  then show ?case
    by (subst (asm) rc_push_poll.simps)
      (auto simp: until_deadline_def alone_def Let_def split: if_splits prod.splits option.splits)
next
  case (Cons t rest)
  then show ?case
    by (subst (asm) rc_push_poll.simps)
      (auto simp: until_deadline_def Let_def split: if_splits prod.splits option.splits)
qed

section \<open>Transports that refuse frames\<close>

text \<open>
  What the app's connection relies on here: some connections refuse every frame that does not
  fit, and the rings that the dialer opens are such connections.
\<close>

locale refusing =
  fixes net :: "('k, 'w) net" and refuses :: "'k \<Rightarrow> bool" and fits :: "bytes \<Rightarrow> bool"
  assumes opened: "nt_openRing net name comm w = (Inr k, w') \<Longrightarrow> refuses k"
    and refused: "refuses k \<Longrightarrow> \<not> fits b \<Longrightarrow> fst (nt_send net k b w) \<noteq> None"
begin

lemma shm_dialed: "shmDialer_Dial net cfg w = (Inr k, w') \<Longrightarrow> refuses k"
  by (auto simp: shmDialer_Dial_def Let_def split: prod.splits sum.splits option.splits dest: opened)

lemma AppConn_send_keeps:
  assumes "AppConn_send net b c w = (e, c', w')" and "cn_dialer c = ShmDialer" and "refuses (cn_conn c)"
  shows "cn_dialer c' = ShmDialer" and "refuses (cn_conn c')"
  using assms
  by (auto simp: AppConn_send_def reconnect_def split: if_splits prod.splits option.splits sum.splits
      dest: shm_dialed)

text \<open>The one redial does not help: the new connection refuses the frame as well.\<close>

lemma AppConn_send_refused:
  assumes "AppConn_send net b c w = (e, c', w')" and "cn_dialer c = ShmDialer" and "refuses (cn_conn c)"
    and "\<not> fits b"
  shows "e \<noteq> None"
proof -
  have "e \<noteq> None" if "reconnect net c w1 = (Inr nc, c1, w2)" "nt_send net nc b w2 = (e, w')" for w1 nc c1 w2
  proof -
    have "refuses nc" using that(1) assms(2)
      by (auto simp: reconnect_def split: prod.splits sum.splits if_splits dest: shm_dialed)
    from refused [OF this assms(4), of w2] that(2) show ?thesis by simp
  qed
  with assms(1) refused [OF assms(3,4), of w] show ?thesis
    by (auto simp: AppConn_send_def split: if_splits prod.splits option.splits sum.splits)
qed

lemma send_frames_refused:
  assumes "send_frames net fs c w = (e, c', w')" and "f \<in> set fs" and "\<not> fits f"
    and "cn_dialer c = ShmDialer" and "refuses (cn_conn c)"
  shows "e \<noteq> None"
  using assms
proof (induction fs arbitrary: c w)
  case (Cons g fs)
  obtain x c1 w1 where s: "AppConn_send net g c w = (x, c1, w1)" using prod_cases3 by blast
  note keeps = AppConn_send_keeps [OF s Cons.prems(4,5)]
  from Cons.prems s AppConn_send_refused [OF s Cons.prems(4,5)] Cons.IH [OF _ _ _ keeps] show ?case
    by (cases x) auto
qed simp

lemma SendRequest_refused:
  assumes "SendRequest net req c w = Some (r, c', w')" and "\<not> cn_flowHeld c"
    and "f \<in> set (request_frames (fst (Allocate (cn_sessions c))) req)" and "\<not> fits f"
    and "cn_dialer c = ShmDialer" and "refuses (cn_conn c)"
  shows "is_err r"
proof -
  let ?sid = "fst (Allocate (cn_sessions c))"
  let ?c = "c\<lparr>cn_flowHeld := cn_flowSerial c, cn_sessions := snd (Allocate (cn_sessions c))\<rparr>"
  obtain e c1 w1 where s: "send_frames net (request_frames ?sid req) ?c w = (e, c1, w1)"
    using prod_cases3 by blast
  from send_frames_refused [OF s assms(3,4)] assms(5,6) have "e \<noteq> None" by simp
  with assms(1,2) s show ?thesis
    by (auto simp: SendRequest_def lockFlow_free split_beta bind_eq_Some_conv)
qed

lemma AcquireVerdict_refused:
  assumes "pool_ready (ec_RegistrationSocket cfg) e i p"
    and "f \<in> set (request_frames (fst (Allocate (cn_sessions (pl_conns p i)))) req)" and "\<not> fits f"
    and "cn_dialer (pl_conns p i) = ShmDialer" and "refuses (cn_conn (pl_conns p i))"
  shows "\<exists>err p' w'. AcquireVerdict net cfg ctx req p w = Some (on_error cfg 0 err, p', w')"
proof -
  have free: "\<not> cn_flowHeld (pl_conns p i)" using assms(1) by (simp add: pool_ready_def)
  from SendRequest_balanced [OF this, of net req w] obtain x c w1 where
    s: "SendRequest net req (pl_conns p i) w = Some (x, c, w1)" by blast
  from SendRequest_refused [OF s free assms(2-5)] obtain err where "x = Inl err" by (cases x) auto
  with s ready_acquire [OF assms(1), of net ctx w] show ?thesis
    by (cases "release_with net cfg (on_error cfg 0 err) (put_conn i c (add_refs 1 e p)) w")
      (auto simp: AcquireVerdict_def release_with_def)
qed

end

interpretation shm: refusing "ring_net base sys peer" is_shm write_fits for base sys peer
  by unfold_locales
    (auto simp: ring_net_def shm_open_def is_shm_def shm_send_def RingConn_Send_def write_fits_def
      split: prod.splits sum.splits)

section \<open>The size limit\<close>

lemma too_big_wraps:
  assumes "65532 < n" and "n < 2 ^ 32"
  shows "(word_of_nat n :: u32) > MaxWriteSize"
  using assms by (simp add: MaxWriteSize_def word_less_nat_alt unat_of_nat)

lemma body_frame_too_big:
  assumes "65524 < length b" and "length b < 2 ^ 32 - 8"
  shows "\<not> write_fits (BodyChunk_Encode \<lparr>bc_DataType = t, bc_SessionID = sid, bc_IsLastChunk = l, bc_PartCount = n, bc_Data = b\<rparr>)"
  using assms too_big_wraps [of "8 + length b"] unfolding write_fits_def length_BodyChunk_Encode
  by (simp add: add.commute)

text \<open>A request whose body does not fit one frame, served over shared memory.\<close>

lemma large_body_policy:
  assumes "65524 < length (rq_Body req)" and "length (rq_Body req) < 2 ^ 32 - 8"
    and "pool_ready (ec_RegistrationSocket cfg) e i p"
    and "cn_dialer (pl_conns p i) = ShmDialer" and "is_shm (cn_conn (pl_conns p i))"
  shows "\<exists>err p' w'. AcquireVerdict (ring_net base sys peer) cfg ctx req p w = Some (on_error cfg 0 err, p', w')"
proof -
  let ?sid = "fst (Allocate (cn_sessions (pl_conns p i)))"
  let ?f = "BodyChunk_Encode \<lparr>bc_DataType = DataTypeRequestBody, bc_SessionID = ?sid, bc_IsLastChunk = True,
      bc_PartCount = 0, bc_Data = rq_Body req\<rparr>"
  have "rq_Body req \<noteq> []" using assms(1) by auto
  then have "?f \<in> set (request_frames ?sid req)" by (simp add: request_frames_def)
  from shm.AcquireVerdict_refused [OF assms(3) this body_frame_too_big [OF assms(1,2)] assms(4,5)]
  show ?thesis by blast
qed

section \<open>A transaction in the ring\<close>

text \<open>The engine only takes messages off the front of the write ring, before and during a call.\<close>

definition peer_takes :: "'w peer \<Rightarrow> bool" where
  "peer_takes peer \<longleftrightarrow> (\<forall>i w. case peer i w of (before, polls) \<Rightarrow>
     engine_takes before \<and> (\<forall>(_, _, f) \<in> set polls. engine_takes f))"

definition write_ring :: "nat \<Rightarrow> 'w \<times> 'k shm_conn list \<Rightarrow> ring" where
  "write_ring i s = rc_writeQ (sh_conn (snd s ! i))"

definition write_seg :: "nat \<Rightarrow> 'w \<times> 'k shm_conn list \<Rightarrow> nat" where
  "write_seg i s = unat (rg_segSize (write_ring i s))"

lemma drop_append_later: "\<exists>l. drop k xs @ ys = drop l (xs @ ys)"
  by (rule exI [of _ "min k (length xs)"]) (simp add: min_def)

lemma engine_takes_id: "engine_takes (\<lambda>c. c)"
  by (auto simp: engine_takes_def intro!: exI [of _ 0])

lemma write_fits_small: "length b \<le> 4096 \<Longrightarrow> write_fits b"
  by (simp add: write_fits_def MaxWriteSize_def word_less_nat_alt unat_of_nat)

lemma shm_send_length: "shm_send peer i b s = (r, s') \<Longrightarrow> length (snd s') = length (snd s)"
  by (cases s) (auto simp: shm_send_def split: prod.splits)

lemma shm_send_rel:
  assumes "peer_takes peer" and "one_segment (write_seg i s) b" and "i < length (snd s)"
    and "ring_rel (write_ring i s) qs" and "shm_send peer i b s = (None, s')"
  shows "(\<exists>k. ring_rel (write_ring i s') (drop k (qs @ [b]))) \<and> write_seg i s' = write_seg i s"
proof -
  obtain w ss before polls where s: "s = (w, ss)" and p: "peer i w = (before, polls)"
    by (metis surj_pair)
  from assms(1) p have t: "engine_takes before" "\<forall>(_, _, f) \<in> set (until_deadline polls). engine_takes f"
    using engine_takes_id by (auto simp: peer_takes_def until_deadline_def alone_def split: prod.splits)
  obtain r c where r: "RingConn_Send b (until_deadline polls) (before (sh_conn (ss ! i))) = (r, c)"
    by (cases "RingConn_Send b (until_deadline polls) (before (sh_conn (ss ! i)))")
  from assms(5) s p r have ok: "r = Some None" "s' = (w, ss[i := (ss ! i)\<lparr>sh_conn := c\<rparr>])"
    by (auto simp: shm_send_def split: option.splits)
  have "write_fits b"
    using write_fits_small [OF one_segment_segs(2) [OF assms(4) assms(2) [unfolded write_seg_def]]] .
  with r ok(1) have push: "rc_push_poll b (until_deadline polls) (before (sh_conn (ss ! i))) = (Some None, c)"
    by (simp add: RingConn_Send_def write_fits_def)
  obtain k where k: "ring_rel (rc_writeQ (before (sh_conn (ss ! i)))) (drop k qs)"
      and size: "rg_segSize (rc_writeQ (before (sh_conn (ss ! i)))) = rg_segSize (write_ring i s)"
    using t(1) assms(4) s unfolding engine_takes_def write_ring_def by fastforce
  then have "fits_segment (before (sh_conn (ss ! i))) b" using assms(2) by (simp add: fits_segment_def write_seg_def)
  from rc_push_poll_rel [OF k this t(2) push] size obtain j where
    "ring_rel (rc_writeQ c) (drop j (drop k qs) @ [b])" and kept: "rg_segSize (rc_writeQ c) = rg_segSize (write_ring i s)"
    by auto
  moreover obtain l where "drop (j + k) qs @ [b] = drop l (qs @ [b])" using drop_append_later by blast
  ultimately have "ring_rel (rc_writeQ c) (drop l (qs @ [b]))" by simp
  then show ?thesis using ok assms(3) s kept by (auto simp: write_ring_def write_seg_def simp del: drop_append)
qed

text \<open>
  A redial leaves the sockets to the base network and opens a new ring connection, so a connection
  that is still the same after a transaction has carried all of it.
\<close>

lemma base_connect:
  assumes "nt_connect (ring_net base sys peer) m a s = (r, s')"
  shows "snd s' = snd s \<and> (\<forall>k. r = Inr k \<longrightarrow> (\<exists>j. k = Inl j))"
proof -
  obtain x w where "nt_connect base m a (fst s) = (x, w)" by (cases "nt_connect base m a (fst s)")
  with assms show ?thesis by (cases s; cases x) (auto simp: ring_net_def)
qed

lemma base_send: "nt_send (ring_net base sys peer) (Inl j) b s = (e, s') \<Longrightarrow> snd s' = snd s"
  by (cases s; cases s') (simp add: ring_net_def apsnd_log)

lemma base_recv: "nt_recv (ring_net base sys peer) (Inl j) d s = (x, s') \<Longrightarrow> snd s' = snd s"
  by (cases s; cases s') (simp add: ring_net_def apsnd_log)

lemma base_close: "snd (nt_close (ring_net base sys peer) (Inl j) s) = snd s"
  by (cases s) (simp add: ring_net_def)

lemma base_register: "register (ring_net base sys peer) (Inl j) cfg s = (r, s') \<Longrightarrow> snd s' = snd s"
  by (auto simp: register_def recvSignalPath_def split: prod.splits option.splits sum.splits list.splits if_splits
      dest!: base_send base_recv)

lemma base_sendComm: "sendComm (ring_net base sys peer) (Inl j) cfg s = (r, s') \<Longrightarrow> snd s' = snd s"
  by (auto simp: sendComm_def recvAck_def split: prod.splits option.splits sum.splits if_splits
      dest!: base_send base_recv)

lemma shm_open_new:
  "shm_open sys name comm s = (Inr k, s') \<Longrightarrow> k = Inr (length (snd s))"
  by (auto simp: shm_open_def split: sum.splits prod.splits)

lemma shm_dial_opens:
  assumes "shmDialer_Dial (ring_net base sys peer) cfg s = (x, s')"
  shows "(case x of Inl _ \<Rightarrow> True | Inr k \<Rightarrow> k = Inr (length (snd s))) \<and> length (snd s) \<le> length (snd s')"
proof -
  let ?N = "ring_net base sys peer"
  obtain c s1 where c: "nt_connect ?N UnixSocket (ec_RegistrationSocket cfg) s = (c, s1)"
    by (cases "nt_connect ?N UnixSocket (ec_RegistrationSocket cfg) s")
  show ?thesis
  proof (cases c)
    case (Inl e)
    with assms c base_connect [OF c] show ?thesis by (auto simp: shmDialer_Dial_def)
  next
    case (Inr sig)
    then obtain j where sig: "c = Inr (Inl j)" and s1: "snd s1 = snd s" using base_connect [OF c] by auto
    obtain r s2 where r: "register ?N (Inl j) cfg s1 = (r, s2)" by (cases "register ?N (Inl j) cfg s1")
    define s3 where "s3 = nt_close ?N (Inl j) s2"
    have s3: "snd s3 = snd s" using base_register [OF r] s1 by (simp add: s3_def base_close)
    show ?thesis
    proof (cases r)
      case (Inl e)
      with assms c sig r s3 show ?thesis by (auto simp: shmDialer_Dial_def s3_def)
    next
      case path: (Inr path)
      obtain d s4 where d: "nt_connect ?N UnixSocket path s3 = (d, s4)" by (cases "nt_connect ?N UnixSocket path s3")
      note dial = assms c sig r path d [unfolded s3_def] base_connect [OF d] s3
      show ?thesis
      proof (cases d)
        case (Inl e)
        with dial show ?thesis by (auto simp: shmDialer_Dial_def)
      next
        case comm: (Inr comm)
        then obtain m where m: "comm = Inl m" using base_connect [OF d] by auto
        obtain z s5 where z: "sendComm ?N (Inl m) cfg s4 = (z, s5)" by (cases "sendComm ?N (Inl m) cfg s4")
        have s5: "snd s5 = snd s" using base_sendComm [OF z] dial(7,8) by simp
        show ?thesis
        proof (cases z)
          case None
          obtain y s6 where y: "shm_open sys (UniqueID cfg) (Inl m) s5 = (y, s6)"
            by (cases "shm_open sys (UniqueID cfg) (Inl m) s5")
          have "nt_openRing ?N = shm_open sys" by (simp add: ring_net_def)
          with dial comm m z None y have "x = y \<and> s' = s6" by (simp add: shmDialer_Dial_def)
          with y s5 show ?thesis
            by (cases s5) (auto simp: shm_open_def split: sum.splits prod.splits)
        next
          case (Some e)
          with dial comm m z s5 show ?thesis by (auto simp: shmDialer_Dial_def base_close)
        qed
      qed
    qed
  qed
qed

lemma shm_close_length: "length (snd (shm_close base sys j s)) = length (snd s)"
  by (cases s) (auto simp: shm_close_def split: prod.splits)

text \<open>Either the first attempt has sent the frame, or the connection is a new one.\<close>

lemma shm_AppConn_send:
  assumes "AppConn_send (ring_net base sys peer) b c s = (None, c', s')"
    and "cn_dialer c = ShmDialer" and "cn_conn c = Inr i"
  shows "length (snd s) \<le> length (snd s') \<and> cn_dialer c' = ShmDialer \<and>
    (c' = c \<and> shm_send peer i b s = (None, s') \<or> (\<exists>n \<ge> length (snd s). cn_conn c' = Inr n))"
proof -
  let ?N = "ring_net base sys peer"
  have send: "nt_send ?N (Inr j) = shm_send peer j" and close: "nt_close ?N (Inr j) = shm_close base sys j" for j
    by (simp_all add: ring_net_def fun_eq_iff)
  obtain x s1 where x: "shm_send peer i b s = (x, s1)" by (cases "shm_send peer i b s")
  have open1: "\<not> cn_closed c" using assms(1) by (auto simp: AppConn_send_def split: if_splits)
  show ?thesis
  proof (cases x)
    case None
    with assms x open1 shm_send_length [OF x] show ?thesis by (simp add: AppConn_send_def send)
  next
    case (Some e)
    obtain d s2 where d: "shmDialer_Dial ?N (cn_cfg c) s1 = (d, s2)" by (cases "shmDialer_Dial ?N (cn_cfg c) s1")
    obtain nc where nc: "d = Inr nc"
      using assms x open1 Some d by (cases d) (auto simp: AppConn_send_def reconnect_def send)
    note dialed = shm_dial_opens [OF d] shm_send_length [OF x]
    let ?n = "length (snd s1)"
    obtain e2 s4 where e2: "shm_send peer ?n b (shm_close base sys i s2) = (e2, s4)"
      by (cases "shm_send peer ?n b (shm_close base sys i s2)")
    have "c' = c\<lparr>cn_conn := Inr ?n\<rparr> \<and> s' = s4"
      using assms x open1 Some d nc dialed e2 by (simp add: AppConn_send_def reconnect_def send close)
    with assms(2) dialed shm_send_length [OF e2] shm_close_length [of base sys i s2] show ?thesis by auto
  qed
qed

lemma shm_frames_move:
  assumes "send_frames (ring_net base sys peer) fs c s = (None, c', s')"
    and "cn_dialer c = ShmDialer" and "cn_conn c = Inr i"
  shows "c' = c \<or> (\<exists>n \<ge> length (snd s). cn_conn c' = Inr n)"
  using assms
proof (induction fs arbitrary: c s i)
  case (Cons f fs)
  obtain c1 s1 where f: "AppConn_send (ring_net base sys peer) f c s = (None, c1, s1)"
      and rest: "send_frames (ring_net base sys peer) fs c1 s1 = (None, c', s')"
    using Cons.prems(1) by (auto split: prod.splits option.splits)
  from shm_AppConn_send [OF f Cons.prems(2,3)] consider "c1 = c" "length (snd s) \<le> length (snd s1)"
    | n where "cn_conn c1 = Inr n" "length (snd s) \<le> n" "cn_dialer c1 = ShmDialer" "length (snd s) \<le> length (snd s1)"
    by auto
  then show ?case
  proof cases
    case 1
    with Cons.IH [OF rest] Cons.prems show ?thesis by (meson order_trans)
  next
    case 2
    with Cons.IH [OF rest 2(3,1)] show ?thesis by (metis order_trans)
  qed
qed simp

lemma shm_frames_rel:
  assumes "send_frames (ring_net base sys peer) fs c s = (None, c', s')"
    and "cn_dialer c = ShmDialer" and "cn_conn c = Inr i" and "cn_conn c' = Inr i" and "i < length (snd s)"
    and "peer_takes peer" and "\<forall>f \<in> set fs. one_segment (write_seg i s) f" and "ring_rel (write_ring i s) qs"
  shows "c' = c \<and> length (snd s) \<le> length (snd s') \<and> (\<exists>k. ring_rel (write_ring i s') (drop k (qs @ fs)))"
  using assms
proof (induction fs arbitrary: s qs)
  case (Cons f fs)
  obtain c1 s1 where f: "AppConn_send (ring_net base sys peer) f c s = (None, c1, s1)"
      and rest: "send_frames (ring_net base sys peer) fs c1 s1 = (None, c', s')"
    using Cons.prems(1) by (auto split: prod.splits option.splits)
  note sent = shm_AppConn_send [OF f Cons.prems(2,3)]
  have "cn_conn c1 \<noteq> Inr n" if "length (snd s) \<le> n" for n
  proof
    assume n: "cn_conn c1 = Inr n"
    from shm_frames_move [OF rest _ n] sent have "c' = c1 \<or> (\<exists>m \<ge> length (snd s1). cn_conn c' = Inr m)" by blast
    with n that sent Cons.prems(4,5) show False by auto
  qed
  with sent have c1: "c1 = c" "shm_send peer i f s = (None, s1)" "length (snd s) \<le> length (snd s1)" by auto
  from shm_send_rel [OF Cons.prems(6) _ Cons.prems(5,8) c1(2)] Cons.prems(7) obtain k where
    k: "ring_rel (write_ring i s1) (drop k (qs @ [f]))" and size: "write_seg i s1 = write_seg i s" by auto
  from Cons.IH [OF rest [unfolded c1(1)] Cons.prems(2-4) _ Cons.prems(6) _ k] Cons.prems(5,7) c1(3) size obtain j where
    "c' = c \<and> length (snd s1) \<le> length (snd s')" "ring_rel (write_ring i s') (drop j (drop k (qs @ [f]) @ fs))"
    by (auto simp del: drop_append)
  moreover obtain l where "drop k (qs @ [f]) @ fs = drop l ((qs @ [f]) @ fs)" using drop_append_later by blast
  ultimately have "c' = c \<and> length (snd s1) \<le> length (snd s') \<and> ring_rel (write_ring i s') (drop (j + l) (qs @ f # fs))"
    by (metis append.assoc append_Cons append_Nil drop_drop)
  with c1(3) show ?case by (meson order_trans)
qed (auto intro!: exI [of _ 0])

lemma shm_signal_rel:
  assumes "peer_takes peer" and "i < length (snd s)" and "ring_rel (write_ring i s) qs"
    and "shm_signal base peer i sid s = (None, s')"
  shows "(\<exists>k. ring_rel (write_ring i s') (drop k qs)) \<and>
    (\<exists>sigs. rc_signals (sh_conn (snd s' ! i)) = sigs @ [le_bytes 4 (unat sid)])"
proof -
  obtain w ss before polls where s: "s = (w, ss)" and p: "peer i w = (before, polls)"
    by (metis surj_pair)
  from assms(1) p have "engine_takes before" by (auto simp: peer_takes_def split: prod.splits)
  with assms(3) s have "\<exists>k. ring_rel (rc_writeQ (before (sh_conn (ss ! i)))) (drop k qs)"
    by (auto simp: engine_takes_def write_ring_def)
  with assms(2,4) s p show ?thesis
    by (auto simp: shm_signal_def RingConn_Signal_def write_ring_def Let_def split: if_splits prod.splits option.splits)
qed

lemma SendRequest_queued:
  assumes "SendRequest (ring_net base sys peer) req c s = Some (Inr sid, c', s')"
    and "cn_dialer c = ShmDialer" and "cn_conn c = Inr i" and "cn_conn c' = Inr i" and "i < length (snd s)"
    and "peer_takes peer" and "\<forall>f \<in> set (request_frames sid req). one_segment (write_seg i s) f"
    and "ring_rel (write_ring i s) qs"
  shows "(\<exists>k. ring_rel (write_ring i s') (drop k (qs @ request_frames sid req))) \<and>
    (\<exists>sigs. rc_signals (sh_conn (snd s' ! i)) = sigs @ [le_bytes 4 (unat sid)])"
proof -
  let ?N = "ring_net base sys peer" and ?c = "\<lambda>c1. c1\<lparr>cn_sessions := snd (Allocate (cn_sessions c1))\<rparr>"
  obtain c1 where l: "lockFlow c = Some c1" using assms(1) by (auto simp: SendRequest_def bind_eq_Some_conv)
  then have c1: "cn_dialer c1 = ShmDialer" "cn_conn c1 = Inr i" "cn_sessions c1 = cn_sessions c"
    using assms(2,3) by (auto simp: lockFlow_def split: if_splits)
  obtain e c2 s2 where f: "send_frames ?N (request_frames (fst (Allocate (cn_sessions c))) req) (?c c1) s = (e, c2, s2)"
    using prod_cases3 by blast
  obtain g s3 where g: "AppConn_signal ?N (fst (Allocate (cn_sessions c))) c2 s2 = (g, s3)"
    by (cases "AppConn_signal ?N (fst (Allocate (cn_sessions c))) c2 s2")
  have ok: "e = None" "g = None" "sid = fst (Allocate (cn_sessions c))" "c' = c2" "s' = s3"
    using assms(1) l f g c1(3)
    by (cases e; cases g; auto simp: SendRequest_def split_beta Let_def bind_eq_Some_conv)+
  from shm_frames_rel [OF f [unfolded ok(1)] _ _ _ assms(5,6) _ assms(8)] c1 assms(4,7) ok(3,4) obtain k where
    k: "c2 = ?c c1 \<and> length (snd s) \<le> length (snd s2)" "ring_rel (write_ring i s2) (drop k (qs @ request_frames sid req))"
    by (auto simp del: drop_append)
  have "i < length (snd s2)" using k(1) assms(5) by linarith
  moreover have "shm_signal base peer i sid s2 = (None, s')"
    using g ok assms(4) by (auto simp: AppConn_signal_def ring_net_def is_shm_def split: if_splits)
  ultimately show ?thesis using shm_signal_rel [OF assms(6) _ k(2)] by (metis drop_drop)
qed

section \<open>Properties\<close>

text \<open>
  C9: over shared memory a request whose body can be read and has from 65525 bytes to fewer than
  2 ^ 32 - 8 is never inspected, when the pool has a ready entry for the engine, whatever the
  engine, the sockets and the system calls do: the whole body is one frame, the ring
  refuses a frame above 65532 bytes, and the one redial meets the same limit. The handler forwards
  the request to the next handler with its body unchanged when fail-open is on in the engine
  configuration or not off in the handler, and answers 502 when it is off in both.
\<close>

theorem large_body_uninspected:
  assumes "readable r b" and "65524 < length b" and "length b < 2 ^ 32 - 8"
    and "pool_ready (ec_RegistrationSocket cfg) e i p"
    and "cn_dialer (pl_conns p i) = ShmDialer" and "is_shm (cn_conn (pl_conns p i))"
  shows "\<exists>s. ServeHTTP pf gz keys h (Some (policy_acquirer (ring_net base sys peer) cfg ctx)) origin r c (p, w) =
    (if failOpenEnabled cfg \<or> \<not> failClosed h
     then case forward pf gz h origin (restored r b) c of (err, c) \<Rightarrow> Some (err, c, s)
     else Some (None, writeUnavailable c, s))"
proof -
  let ?acq = "policy_acquirer (ring_net base sys peer) cfg ctx" and ?req = "request_data keys r b"
  have "65524 < length (rq_Body ?req)" "length (rq_Body ?req) < 2 ^ 32 - 8"
    using assms(2,3) by (simp_all add: request_data_def)
  from large_body_policy [OF this assms(4-6)] obtain err p' w' where
    "AcquireVerdict (ring_net base sys peer) cfg ctx ?req p w = Some (on_error cfg 0 err, p', w')" by blast
  then have acq: "?acq ?req (p, w) = Some (on_error cfg 0 err, (p', w'))" by (simp add: policy_acquirer_def)
  show ?thesis
    unfolding ServeHTTP_readable [where acquire = ?acq and keys = keys, OF assms(1) acq]
    by (intro exI [of _ "(p', w')"]) (simp add: on_error_def failOpenVerdict_def go_consts)
qed

text \<open>
  C14: over shared memory a request reaches the engine as one transaction. When \<open>SendRequest\<close> succeeds
  without a redial, the request's strings fit their length prefixes, each of its frames fits one
  segment of the write ring, and the engine does nothing to that ring but take messages off the
  front, then the messages the engine has taken followed by those still in its ring are the earlier
  messages followed by the frames of the request, these read back as the request under the
  session returned, and the last thing written to the comm socket is that session's id.
\<close>

theorem ring_transaction_queued:
  assumes "SendRequest (ring_net base sys peer) req c s = Some (Inr sid, c', s')" and "request_fits req"
    and "cn_dialer c = ShmDialer" and "cn_conn c = Inr i" and "cn_conn c' = Inr i" and "i < length (snd s)"
    and "peer_takes peer" and "\<forall>f \<in> set (request_frames sid req). one_segment (write_seg i s) f"
    and "ring_rel (write_ring i s) qs"
  shows "\<exists>taken left. taken @ left = qs @ request_frames sid req \<and> ring_rel (write_ring i s') left \<and>
    read_request (drop (length qs) (taken @ left)) = Some (sid, req\<lparr>rq_Start := (rq_Start req)\<lparr>rs_SessionID := sid\<rparr>\<rparr>) \<and>
    last (rc_signals (sh_conn (snd s' ! i))) = le_bytes 4 (unat sid)"
proof -
  from SendRequest_queued [OF assms(1,3-9)] obtain k sigs where
    k: "ring_rel (write_ring i s') (drop k (qs @ request_frames sid req))"
      "rc_signals (sh_conn (snd s' ! i)) = sigs @ [le_bytes 4 (unat sid)]" by blast
  let ?all = "qs @ request_frames sid req"
  show ?thesis
    by (rule exI [of _ "take k ?all"], rule exI [of _ "drop k ?all"], unfold append_take_drop_id)
      (use k read_request_frames [OF assms(2), of sid] in simp)
qed

section \<open>Witnesses\<close>

text \<open>No queue file can be opened, the engine is idle, and one connection over an empty ring exists.\<close>

definition no_files :: "'w sys" where
  "no_files = \<lparr>sy_Open = (\<lambda>p w. (Inl (ErrOther ''no such file or directory''), w)),
     sy_Fstat = (\<lambda>fd w. (Inl (ErrOther ''bad file descriptor''), w)),
     sy_Mmap = (\<lambda>fd n w. (Inl (ErrOther ''bad file descriptor''), w)),
     sy_Munmap = (\<lambda>m w. w), sy_Close = (\<lambda>fd w. w)\<rparr>"

definition idle_peer :: "'w peer" where
  "idle_peer = (\<lambda>i w. (\<lambda>c. c, []))"

lemma idle_peer_takes: "peer_takes idle_peer"
  by (simp add: peer_takes_def idle_peer_def engine_takes_id)

definition idle_shm :: "nat shm_conn" where
  "idle_shm = \<lparr>sh_conn = newRingConn empty_ring empty_ring True,
     sh_writeQ = \<lparr>q_fd = 5, q_mmap = 0, q_ring = empty_ring\<rparr>, sh_readQ = \<lparr>q_fd = 6, q_mmap = 1, q_ring = empty_ring\<rparr>,
     sh_comm = 0\<rparr>"

definition shm_conn0 :: "(nat + nat) Conn" where
  "shm_conn0 = newConn (ring_net (script_net True) no_files idle_peer) EngineConfig_zero ShmDialer ''reg'' (Inr 0)"

definition shm_pool :: "(nat + nat) Pool" where
  "shm_pool = (NewPool EngineConfig_zero ShmDialer (\<lambda>_. shm_conn0))\<lparr>pl_entries := [ec_RegistrationSocket strict_cfg \<mapsto> 0],
     pl_nexte := 1, pl_nextc := 1, pl_entry := (\<lambda>_. \<lparr>pe_refs = 1, pe_conn = Some 0, pe_err = None, pe_ready = True\<rparr>)\<rparr>"

definition large_post :: request where
  "large_post = example_post\<lparr>hr_Body := newRequestBody (zeros 70000)\<rparr>"

theorem large_body_uninspected_witness:
  "\<exists>s. ServeHTTP (\<lambda>_. None) (\<lambda>b. b) (\<lambda>_. []) default_handler
      (Some (policy_acquirer (ring_net (script_net True) no_files idle_peer) strict_cfg None)) page_origin large_post
      fresh_client (shm_pool, (script0, [idle_shm])) =
    (case forward (\<lambda>_. None) (\<lambda>b. b) default_handler page_origin (restored large_post (zeros 70000)) fresh_client of
       (err, c) \<Rightarrow> Some (err, c, s))"
proof -
  have r: "readable large_post (zeros 70000)" by (simp add: readable_def large_post_def newRequestBody_def)
  have p: "pool_ready (ec_RegistrationSocket strict_cfg) 0 0 shm_pool"
    by (simp add: pool_ready_def shm_pool_def NewPool_def shm_conn0_def newConn_def)
  have d: "cn_dialer (pl_conns shm_pool 0) = ShmDialer" "is_shm (cn_conn (pl_conns shm_pool 0))"
    by (simp_all add: shm_pool_def NewPool_def shm_conn0_def newConn_def is_shm_def)
  have l: "65524 < length (zeros 70000)" "length (zeros 70000) < 2 ^ 32 - 8" by (simp_all add: zeros_def)
  have "\<not> failClosed default_handler" by (simp add: failClosed_def default_handler_fields)
  with large_body_uninspected [OF r l p d, where h = default_handler and pf = "\<lambda>_. None" and gz = "\<lambda>b. b"
      and keys = "\<lambda>_. []" and base = "script_net True" and sys = no_files and peer = idle_peer and ctx = None
      and origin = page_origin and c = fresh_client and w = "(script0, [idle_shm])"]
  show ?thesis by simp
qed

text \<open>A ring with a free segment besides the one kept free takes a one-segment message.\<close>

lemma push_room:
  assumes "ring_rel r qs" and "one_segment (unat (rg_segSize r)) m" and "c_rp (cells_of r) \<le> c_wp (cells_of r)"
    and "Suc (c_wp (cells_of r)) < unat (rg_numSegs r)"
  shows "\<exists>r'. push [m] r = (None, r') \<and> ring_rel r' (qs @ [m]) \<and> rg_numSegs r' = rg_numSegs r \<and>
    rg_segSize r' = rg_segSize r \<and>
    c_rp (cells_of r') = c_rp (cells_of r) \<and> c_wp (cells_of r') = Suc (c_wp (cells_of r))"
proof -
  let ?c = "cells_of r"
  have m: "0 < length m" "length m \<le> 4096"
    using assms(2) one_segment_segs(2) [OF assms(1,2)] by (simp_all add: one_segment_def)
  obtain e r' where p: "push [m] r = (e, r')" "same_shape r r'" "c_push m ?c = (e, cells_of r')"
    using push_one [OF assms(1), of m] m(2) by auto
  have n: "segs (c_S ?c) (length m) = 1" using one_segment_segs(1) [OF assms(1,2)] by simp
  have "c_enough (c_N ?c) (c_wp ?c) (c_rp ?c) 1" using assms(3,4) by (simp add: c_enough_def)
  then have c: "e = None" "cells_of r' = c_store (c_wp ?c) 1 m ?c"
    using p(3) m(2) n assms(4) by (auto simp: c_push_def Let_def split: if_splits)
  have "ring_rel r' (qs @ [m])"
    using one_segment_push [OF assms(1,2) p(1)] c(1) by simp
  with p(1,2) c assms(4) show ?thesis by (simp add: same_shape_def c_store_def)
qed

text \<open>The connection of the example with another write ring, on which a frame is sent.\<close>

definition over_ring :: "ring \<Rightarrow> nat shm_conn" where
  "over_ring r = idle_shm\<lparr>sh_conn := newRingConn r empty_ring True\<rparr>"

lemma idle_send:
  assumes "push [b] r = (None, r')" and "length b \<le> 4096"
  shows "shm_send idle_peer 0 b (w, [over_ring r]) = (None, (w, [over_ring r']))"
  using assms write_fits_small [OF assms(2)]
  by (simp add: shm_send_def idle_peer_def over_ring_def idle_shm_def RingConn_Send_def write_fits_def
      rc_push_poll.simps [of b] newRingConn_def)

lemma bare_frames: "\<exists>a b c. request_frames 3 bare_request = [a, b, c]"
  by (simp add: request_frames_def bare_request_def example_request_def)

lemma bare_frames_small: "\<forall>f \<in> set (request_frames 3 bare_request). one_segment 1024 f"
  by code_simp

lemma bare_request_sent:
  "\<exists>c r w. SendRequest (ring_net (script_net True) no_files idle_peer) bare_request shm_conn0 (script0, [idle_shm]) =
     Some (Inr 3, c, (w, [(over_ring r)\<lparr>sh_conn := (newRingConn r empty_ring True)\<lparr>rc_signals := [le_bytes 4 3]\<rparr>\<rparr>])) \<and>
     cn_conn c = Inr 0"
proof -
  let ?N = "ring_net (script_net True) no_files idle_peer"
  obtain a b c where f: "request_frames 3 bare_request = [a, b, c]" using bare_frames by blast
  then have small: "one_segment 1024 a" "one_segment 1024 b" "one_segment 1024 c" using bare_frames_small by simp_all
  have start: "c_rp (cells_of empty_ring) = 0" "c_wp (cells_of empty_ring) = 0" "unat (rg_numSegs empty_ring) = 4"
      "unat (rg_segSize empty_ring) = 1024"
    using cells_of_N [of empty_ring] cells_of_S [of empty_ring] by (simp_all add: cells_empty_ring empty_cells_def)
  obtain r1 where r1: "push [a] empty_ring = (None, r1)" "ring_rel r1 [a]" "rg_numSegs r1 = rg_numSegs empty_ring"
      "rg_segSize r1 = rg_segSize empty_ring"
      "c_rp (cells_of r1) = 0" "c_wp (cells_of r1) = 1"
    using push_room [OF empty_ring_rel, of a] small(1) start by auto
  obtain r2 where r2: "push [b] r1 = (None, r2)" "ring_rel r2 [a, b]" "rg_numSegs r2 = rg_numSegs empty_ring"
      "rg_segSize r2 = rg_segSize empty_ring"
      "c_rp (cells_of r2) = 0" "c_wp (cells_of r2) = 2"
    using push_room [OF r1(2), of b] small(2) start r1(3-6) by auto
  obtain r3 where r3: "push [c] r2 = (None, r3)"
    using push_room [OF r2(2), of c] small(3) start r2(3-6) by auto
  have len: "length a \<le> 4096" "length b \<le> 4096" "length c \<le> 4096" using small by (simp_all add: one_segment_def)
  have send: "nt_send ?N (Inr j) = shm_send idle_peer j" and sig: "nt_signal ?N (Inr j) = shm_signal (script_net True) idle_peer j"
    and ring: "nt_is_ring ?N (Inr j)" for j
    by (simp_all add: ring_net_def fun_eq_iff is_shm_def)
  have frames: "send_frames ?N [a, b, c] k (script0, [over_ring empty_ring]) = (None, k, (script0, [over_ring r3]))"
    if "cn_conn k = Inr 0" "\<not> cn_closed k" for k
    using that idle_send [OF r1(1) len(1), of script0] idle_send [OF r2(1) len(2), of script0] idle_send [OF r3 len(3), of script0]
    by (simp add: AppConn_send_def send)
  obtain w where signal: "shm_signal (script_net True) idle_peer 0 3 (script0, [over_ring r3]) =
      (None, (w, [(over_ring r3)\<lparr>sh_conn := (newRingConn r3 empty_ring True)\<lparr>rc_signals := [le_bytes 4 3]\<rparr>\<rparr>]))"
    by (simp add: shm_signal_def idle_peer_def over_ring_def newRingConn_def RingConn_Signal_def script_net_def
        script_send_def script0_def idle_shm_def)
  have conn: "cn_conn shm_conn0 = Inr 0" "\<not> cn_closed shm_conn0" "\<not> cn_flowHeld shm_conn0"
      "Allocate (cn_sessions shm_conn0) = (3, snd (Allocate NewSessionAllocator))"
    by (simp_all add: shm_conn0_def newConn_def NewSessionAllocator_def Allocate_def)
  have idle: "idle_shm = over_ring empty_ring" by (simp add: over_ring_def idle_shm_def)
  show ?thesis
    unfolding idle using conn signal
    by (simp add: SendRequest_def lockFlow_free f frames AppConn_signal_def sig ring del: send_frames.simps) blast
qed

theorem ring_transaction_queued_witness:
  "\<exists>c w s taken left. SendRequest (ring_net (script_net True) no_files idle_peer) bare_request shm_conn0
      (script0, [idle_shm]) = Some (Inr 3, c, (w, [s])) \<and> taken @ left = request_frames 3 bare_request \<and>
    ring_rel (rc_writeQ (sh_conn s)) left \<and> last (rc_signals (sh_conn s)) = le_bytes 4 3"
proof -
  obtain c r w where run: "SendRequest (ring_net (script_net True) no_files idle_peer) bare_request shm_conn0
      (script0, [idle_shm]) = Some (Inr 3, c, (w, [(over_ring r)\<lparr>sh_conn := (newRingConn r empty_ring True)\<lparr>rc_signals := [le_bytes 4 3]\<rparr>\<rparr>]))"
      and c: "cn_conn c = Inr 0"
    using bare_request_sent by blast
  have fits: "request_fits bare_request" using example_request_fits by (simp add: request_fits_def bare_request_def)
  have conn: "cn_dialer shm_conn0 = ShmDialer" "cn_conn shm_conn0 = Inr 0"
    by (simp_all add: shm_conn0_def newConn_def)
  have rel: "ring_rel (write_ring 0 (script0, [idle_shm])) []"
    using empty_ring_rel by (simp add: write_ring_def idle_shm_def newRingConn_def)
  have "write_seg 0 (script0, [idle_shm]) = 1024"
    using cells_of_S [of empty_ring]
    by (simp add: write_seg_def write_ring_def idle_shm_def newRingConn_def cells_empty_ring empty_cells_def)
  with bare_frames_small have "\<forall>f \<in> set (request_frames 3 bare_request). one_segment (write_seg 0 (script0, [idle_shm])) f"
    by simp
  from ring_transaction_queued [OF run fits conn c _ idle_peer_takes this rel] run show ?thesis
    by (auto simp: write_ring_def)
qed

end
