(* ===== verification/Endpoints.thy ===== *)
theory Endpoints
  imports Socket
begin

text \<open>
  Opening the stream transports: \<open>Listen\<close> and \<open>Dial\<close> of internal/transport/socket/socket.go, the
  listener of listener.go, and \<open>DialSignal\<close> and \<open>DialKeepAlive\<close> of internal/transport/linux/unix_linux.go.
  What the package net does is a record of operations on a world \<open>'w\<close>, listeners \<open>'l\<close> and sockets \<open>'c\<close>;
  the errors of a closed listener are told from the others, as \<open>errors.Is\<close> does.
\<close>

section \<open>The package net\<close>

datatype net_err = NetClosed | NetFailed string

record ('l, 'c, 'w) sockets =
  so_Listen :: "string \<Rightarrow> 'w \<Rightarrow> (net_err + 'l) \<times> 'w"
  so_Addr :: "'l \<Rightarrow> string"
  so_Accept :: "'l \<Rightarrow> 'w \<Rightarrow> (net_err + 'c) \<times> 'w"
  so_Close :: "'l \<Rightarrow> 'w \<Rightarrow> net_err option \<times> 'w"
  so_Dial :: "string \<Rightarrow> string \<Rightarrow> int option \<Rightarrow> ctx \<Rightarrow> 'w \<Rightarrow> (net_err + 'c) \<times> 'w"

section \<open>TCP\<close>

definition dialTimeout :: int where
  "dialTimeout = 30000000000"

definition socket_Listen :: "('l, 'c, 'w) sockets \<Rightarrow> string \<Rightarrow> 'w \<Rightarrow> (terr + 'l) \<times> 'w" where
  "socket_Listen so addr w =
     (case parseAddr addr of
        Inl e \<Rightarrow> (Inl (ErrOther e), w)
      | Inr hostport \<Rightarrow>
          (case so_Listen so hostport w of
             (Inl e, w) \<Rightarrow> (Inl (ErrOther ''socket: listen''), w)
           | (Inr l, w) \<Rightarrow> (Inr l, w)))"

definition socket_Dial :: "('l, 'c, 'w) sockets \<Rightarrow> string \<Rightarrow> 'w \<Rightarrow> (terr + 'c) \<times> 'w" where
  "socket_Dial so addr w =
     (case parseAddr addr of
        Inl e \<Rightarrow> (Inl (ErrOther e), w)
      | Inr hostport \<Rightarrow>
          (case so_Dial so ''tcp'' hostport (Some dialTimeout) None w of
             (Inl e, w) \<Rightarrow> (Inl (ErrOther ''socket: dial''), w)
           | (Inr c, w) \<Rightarrow> (Inr c, w)))"

definition socket_Accept :: "('l, 'c, 'w) sockets \<Rightarrow> 'l \<Rightarrow> 'w \<Rightarrow> (terr + 'c) \<times> 'w" where
  "socket_Accept so l w =
     (case so_Accept so l w of
        (Inl e, w) \<Rightarrow> (Inl (if e = NetClosed then ErrClosed else ErrOther ''socket: accept''), w)
      | (Inr c, w) \<Rightarrow> (Inr c, w))"

definition socket_Listener_Close :: "('l, 'c, 'w) sockets \<Rightarrow> 'l \<Rightarrow> 'w \<Rightarrow> terr option \<times> 'w" where
  "socket_Listener_Close so l w =
     (case so_Close so l w of (e, w) \<Rightarrow>
        (map_option (\<lambda>e. case e of NetClosed \<Rightarrow> ErrClosed | NetFailed s \<Rightarrow> ErrOther s) e, w))"

definition socket_Listener_Addr :: "('l, 'c, 'w) sockets \<Rightarrow> 'l \<Rightarrow> string" where
  "socket_Listener_Addr so l = Listener_Addr (so_Addr so l)"

section \<open>Unix sockets\<close>

definition DialSignal :: "('l, 'c, 'w) sockets \<Rightarrow> ctx \<Rightarrow> string \<Rightarrow> 'w \<Rightarrow> (terr + 'c) \<times> 'w" where
  "DialSignal so ctx path w =
     (case so_Dial so ''unix'' path None ctx w of
        (Inl e, w) \<Rightarrow> (Inl (case e of NetClosed \<Rightarrow> ErrOther ''use of closed network connection'' | NetFailed s \<Rightarrow> ErrOther s), w)
      | (Inr c, w) \<Rightarrow> (Inr c, w))"

definition unix_DialKeepAlive :: "('l, 'c, 'w) sockets \<Rightarrow> ctx \<Rightarrow> string \<Rightarrow> 'w \<Rightarrow> (terr + 'c) \<times> 'w" where
  "unix_DialKeepAlive so ctx path w = DialSignal so ctx path w"

section \<open>Properties\<close>

lemma parseAddr_listener: "bound \<noteq> '''' \<Longrightarrow> parseAddr (Listener_Addr bound) = Inr bound"
  by (simp add: parseAddr_def Listener_Addr_def HasPrefix_def TrimPrefix_def)

text \<open>
  an address leads back to its listener: dialing what \<open>Addr\<close> reports dials the host and port the
  listener is bound to over TCP, the ephemeral port that was allocated included, so the address
  that the mock engine hands out in its registration reply reaches it; and an address with the
  \<open>unix://\<close> scheme is refused by both \<open>Listen\<close> and \<open>Dial\<close> without touching the network.
\<close>

theorem listener_address_dials_back:
  "(so_Addr so l \<noteq> '''' \<longrightarrow> socket_Dial so (socket_Listener_Addr so l) w =
      (case so_Dial so ''tcp'' (so_Addr so l) (Some dialTimeout) None w of
         (Inl e, w) \<Rightarrow> (Inl (ErrOther ''socket: dial''), w) | (Inr c, w) \<Rightarrow> (Inr c, w))) \<and>
   (\<exists>e. socket_Dial so (''unix://'' @ path) w = (Inl (ErrOther e), w) \<and>
      socket_Listen so (''unix://'' @ path) w = (Inl (ErrOther e), w))"
  by (simp add: socket_Dial_def socket_Listen_def socket_Listener_Addr_def parseAddr_listener)
    (simp add: parseAddr_def HasPrefix_def)

text \<open>A network with one listener at an ephemeral port, which only dials of that port reach.\<close>

definition one_port :: "(unit, nat, nat) sockets" where
  "one_port = \<lparr>so_Listen = (\<lambda>a n. (Inr (), n)), so_Addr = (\<lambda>_. ''127.0.0.1:4242''),
     so_Accept = (\<lambda>_ n. if n = 0 then (Inl NetClosed, n) else (Inr (n - 1), n - 1)), so_Close = (\<lambda>_ n. (None, n)),
     so_Dial = (\<lambda>proto a _ _ n. if proto = ''tcp'' \<and> a = ''127.0.0.1:4242'' then (Inr n, Suc n)
       else (Inl (NetFailed ''connection refused''), n))\<rparr>"

theorem listener_address_dials_back_witness:
  "socket_Dial one_port (socket_Listener_Addr one_port ()) 0 = (Inr 0, 1) \<and> fst (socket_Accept one_port () 1) = Inr 0"
  using listener_address_dials_back [of one_port "()" 0 "''''"]
  by (simp add: one_port_def socket_Accept_def)

end
