(* ===== verification/Mock_Command.thy ===== *)
theory Mock_Command
  imports Mock Middleware
begin

text \<open>
  The command cmd/mockengine: its flags' transports and scenarios, the frame dump, and what a client
  of the handler sees of each scenario, the handler, the policy, the pool's connection and the
  engine taken together. Listening is a parameter: what the listeners return. The command's log
  lines are lists of their parts; waiting for a signal is left out.
\<close>

section \<open>Scenarios\<close>

definition blockWebResponse :: WebResponse where
  "blockWebResponse = \<lparr>wr_Type = WebResponseCustom, wr_StatusCode = 403, wr_Title = ''Blocked by mock engine'',
     wr_Body = ''This request was blocked by the mock open-appsec engine.'', wr_UUID = '''', wr_RedirectLocation = '''',
     wr_Headers = []\<rparr>"

definition injectVerdict :: Verdict where
  "injectVerdict = \<lparr>vd_Kind = VerdictInject, vd_SessionID = 0, vd_WebResponse = None, vd_Injections =
     [\<lparr>inj_InjectionPos = InjectPosIrrelevant, inj_ModType = ModInject, inj_InjectionSize = 0, inj_IsHeader = False,
       inj_OrigBufferIndex = 0, inj_Data = to_bytes ''<mock-inject>''\<rparr>]\<rparr>"

definition configureScenario :: "Engine \<Rightarrow> string \<Rightarrow> int \<Rightarrow> string + Engine" where
  "configureScenario eng scenario requests =
     (if scenario = ''allow'' then Inr (SetResponder (Some (\<lambda>_. accept_for 0)) eng)
      else if scenario = ''block'' then
        Inr (SetResponder (Some (\<lambda>_. \<lparr>vd_Kind = VerdictDrop, vd_SessionID = 0, vd_WebResponse = Some blockWebResponse,
          vd_Injections = []\<rparr>)) eng)
      else if scenario = ''inject'' then Inr (SetResponder (Some (\<lambda>_. injectVerdict)) eng)
      else if scenario = ''flaky'' then Inr (SetFlakyAfter requests eng)
      else if scenario = ''down'' then Inr (SetVerdictsEnabled False eng)
      else Inl (''unknown scenario '' @ scenario))"

text \<open>
  The start of \<open>main\<close>: the engine with the address it logs, or the fatal message. An engine whose
  scenario is unknown is not taken down: \<open>log.Fatal\<close> skips the deferred \<open>Close\<close>.
\<close>

definition mockengine_main ::
  "(string \<Rightarrow> 'w \<Rightarrow> (terr + string) \<times> 'w) \<Rightarrow> (string \<Rightarrow> 'w \<Rightarrow> (terr + string) \<times> 'w) \<Rightarrow>
   string \<Rightarrow> string \<Rightarrow> int \<Rightarrow> string \<Rightarrow> 'w \<Rightarrow> (string + Engine \<times> string) \<times> 'w" where
  "mockengine_main listenMemory listenSocket addr scenario requests transport w =
     (let serve = (\<lambda>bound effective. case configureScenario (NewWithListener bound) scenario requests of
          Inl e \<Rightarrow> Inl e | Inr eng \<Rightarrow> Inr (eng, effective)) in
      if transport = ''memory'' then
        (case listenMemory addr w of (Inl _, w) \<Rightarrow> (Inl ''mockengine: listen'', w) | (Inr bound, w) \<Rightarrow> (serve bound addr, w))
      else if transport = ''socket'' then
        (case listenSocket addr w of (Inl _, w) \<Rightarrow> (Inl ''mockengine: listen'', w) | (Inr bound, w) \<Rightarrow> (serve bound bound, w))
      else (Inl (''mockengine: unknown transport '' @ transport), w))"

section \<open>The frame dump\<close>

definition hex_digit :: "nat \<Rightarrow> char" where
  "hex_digit n = ''0123456789abcdef'' ! n"

definition EncodeToString :: "bytes \<Rightarrow> string" where
  "EncodeToString b = concat (map (\<lambda>x. [hex_digit (unat x div 16), hex_digit (unat x mod 16)]) b)"

fun Join :: "string list \<Rightarrow> string \<Rightarrow> string" where
  "Join [] sep = []"
| "Join [s] sep = s"
| "Join (s # t # ts) sep = s @ sep @ Join (t # ts) sep"

fun hex_pairs :: "string \<Rightarrow> string list" where
  "hex_pairs (a # b # h) = [a, b] # hex_pairs h"
| "hex_pairs _ = []"

definition spacedHex :: "string \<Rightarrow> string" where
  "spacedHex h = Join (hex_pairs h) '' ''"

text \<open>
  One round of \<open>dumpLoop\<close>: the lines for the frames not seen before, each its number and its hex
  dump, and the number seen.
\<close>

definition dumpLoop_step :: "bytes list \<Rightarrow> nat \<Rightarrow> (nat \<times> string) list \<times> nat" where
  "dumpLoop_step frames seen =
     (map (\<lambda>f. (seen + 1, spacedHex (EncodeToString f))) (drop seen frames), length frames)"

fun dumpLoop :: "bytes list list \<Rightarrow> nat \<Rightarrow> (nat \<times> string) list" where
  "dumpLoop [] seen = []"
| "dumpLoop (fs # snaps) seen = (case dumpLoop_step fs seen of (lines, seen) \<Rightarrow> lines @ dumpLoop snaps seen)"

section \<open>Many requests\<close>

text \<open>Requests served one after the other, each to a fresh client: the outcomes and the world at the end.\<close>

type_synonym outcome = "serve_err option \<times> client"

fun serve_all :: "(request \<Rightarrow> 'w \<Rightarrow> (serve_err option \<times> client \<times> 'w) option) \<Rightarrow> request list \<Rightarrow> 'w \<Rightarrow> (outcome list \<times> 'w) option" where
  "serve_all srv [] w = Some ([], w)"
| "serve_all srv (r # rs) w = Option.bind (srv r w) (\<lambda>(e, c, w).
     map_option (\<lambda>(os, w). ((e, c) # os, w)) (serve_all srv rs w))"

text \<open>What keeps an invariant and gives each request its outcome does so for all requests.\<close>

lemma serve_all_outcomes:
  assumes "\<And>r w. r \<in> set rs \<Longrightarrow> keep w \<Longrightarrow> \<exists>w'. srv r w = Some (fst (out r), snd (out r), w') \<and> keep w' \<and> cost w' = cost w + d"
    and "keep w"
  shows "\<exists>w'. serve_all srv rs w = Some (map out rs, w') \<and> keep w' \<and> cost w' = cost w + int (length rs) * (d :: int)"
  using assms
proof (induction rs arbitrary: w)
  case (Cons r rs)
  obtain w1 where w1: "srv r w = Some (fst (out r), snd (out r), w1)" "keep w1" "cost w1 = cost w + d"
    using Cons.prems(1) [of r w] Cons.prems(2) by auto
  from Cons.IH [OF _ w1(2)] Cons.prems(1) obtain w2 where
    "serve_all srv rs w1 = Some (map out rs, w2)" "keep w2" "cost w2 = cost w1 + int (length rs) * d" by auto
  with w1 show ?case by (simp add: algebra_simps)
qed simp

section \<open>Engines that always answer the same\<close>

text \<open>An engine with a responder, its connection holding any number of left-over verdicts for a session.\<close>

definition steady :: "(u32 \<Rightarrow> Verdict) \<Rightarrow> nat \<Rightarrow> bytes \<Rightarrow> mock_world \<Rightarrow> bool" where
  "steady f k reply w \<longleftrightarrow> (\<exists>n. answering k (replicate n reply) (Some f) (eng_verdicts (mk_engine w)) w)"

lemma steady_call:
  assumes "pool_ready (ec_RegistrationSocket cfg) e i p" and "\<not> cn_closed (pl_conns p i)"
    and "\<not> cn_flowSerial (pl_conns p i)" and "request_fits req"
    and "steady f (cn_conn (pl_conns p i)) reply w" and "sid = fst (Allocate (cn_sessions (pl_conns p i)))"
    and "Verdict_Encode ((f sid)\<lparr>vd_SessionID := sid\<rparr>) = Inr reply"
    and "own_verdict sid reply = Some v" and "vd_Kind v \<noteq> VerdictInspect"
  shows "\<exists>w'. AcquireVerdict mock_net cfg ctx req p w = Some (Inr v, p, w') \<and>
    steady f (cn_conn (pl_conns p i)) reply w'"
proof -
  let ?vs = "eng_verdicts (mk_engine w)"
  obtain n where n: "answering (cn_conn (pl_conns p i)) (replicate n reply) (Some f) ?vs w"
    using assms(5) by (auto simp: steady_def)
  have "replicate n reply @ [reply, reply] = reply # replicate (Suc n) reply"
    by (induction n) simp_all
  from mock_call [OF assms(1-4) n assms(6,7,7) next_verdict_simps(2) next_verdict_simps(2) this assms(8,9), of ctx]
  obtain w' where "AcquireVerdict mock_net cfg ctx req p w = Some (Inr v, p, w')"
      "answering (cn_conn (pl_conns p i)) (replicate (Suc n) reply) (Some f) ?vs w'" by blast
  moreover from this(2) have "?vs = eng_verdicts (mk_engine w')" by (simp add: answering_def)
  ultimately show ?thesis by (metis steady_def)
qed

text \<open>What the handler makes of each scenario's verdict for a request with a readable body.\<close>

definition body_of :: "request \<Rightarrow> bytes" where
  "body_of r = (case hr_Body r of None \<Rightarrow> [] | Some rd \<Rightarrow> io_data rd)"

definition inspectable :: "(header \<Rightarrow> string list) \<Rightarrow> request \<Rightarrow> bool" where
  "inspectable keys r \<longleftrightarrow> readable r (body_of r) \<and> request_fits (request_data keys r (body_of r))"

definition verdict_outcome ::
  "(string \<Rightarrow> qval option) \<Rightarrow> (bytes \<Rightarrow> bytes) \<Rightarrow> Handler \<Rightarrow> origin \<Rightarrow> Verdict \<Rightarrow> request \<Rightarrow> outcome" where
  "verdict_outcome pf gz h origin v r =
     (if vd_Kind v = VerdictDrop \<and> hn_Mode h \<noteq> ModeLearn then (None, writeBlock h v fresh_client)
      else if vd_Kind v = VerdictInject then
        forward pf gz h origin (restored r (body_of r @ concat (map inj_Data (vd_Injections v)))) fresh_client
      else forward pf gz h origin (restored r (body_of r)) fresh_client)"

lemma body_injections:
  assumes "\<forall>j \<in> set js. \<not> inj_IsHeader j"
  shows "fold applyInjection js (r, b, x) = (r, b @ concat (map inj_Data js), x \<or> js \<noteq> [])"
  using assms by (induction js arbitrary: b x) auto

lemma ServeHTTP_outcome:
  assumes "inspectable keys r" and "acquire (request_data keys r (body_of r)) w = Some (Inr v, w')"
    and "vd_Kind v \<noteq> VerdictCustomResponse" and "\<forall>j \<in> set (vd_Injections v). \<not> inj_IsHeader j"
  shows "ServeHTTP pf gz keys h (Some acquire) origin r fresh_client w =
    (case verdict_outcome pf gz h origin v r of (e, c) \<Rightarrow> Some (e, c, w'))"
proof -
  have r: "readable r (body_of r)" using assms(1) by (simp add: inspectable_def)
  show ?thesis
    unfolding ServeHTTP_readable [where acquire = acquire and keys = keys, OF r assms(2)] verdict_outcome_def
    using assms(3) body_injections [OF assms(4), of "restored r (body_of r)" "body_of r" False]
    by (auto simp: applyInjections_def restored_def Let_def go_consts split: prod.splits)
qed

lemma steady_serves:
  assumes "pool_ready (ec_RegistrationSocket cfg) e i p" and "\<not> cn_closed (pl_conns p i)"
    and "\<not> cn_flowSerial (pl_conns p i)" and "\<forall>r \<in> set rs. inspectable keys r"
    and "steady f (cn_conn (pl_conns p i)) reply w" and "sid = fst (Allocate (cn_sessions (pl_conns p i)))"
    and "Verdict_Encode ((f sid)\<lparr>vd_SessionID := sid\<rparr>) = Inr reply" and "own_verdict sid reply = Some v"
    and "vd_Kind v \<notin> {VerdictInspect, VerdictCustomResponse}" and "\<forall>j \<in> set (vd_Injections v). \<not> inj_IsHeader j"
  shows "\<exists>w'. serve_all (\<lambda>r. ServeHTTP pf gz keys h (Some (policy_acquirer mock_net cfg ctx)) origin r fresh_client) rs (p, w) =
    Some (map (verdict_outcome pf gz h origin v) rs, (p, w'))"
proof -
  let ?acq = "policy_acquirer mock_net cfg ctx" and ?out = "verdict_outcome pf gz h origin v"
  let ?inv = "\<lambda>(q, w). q = p \<and> steady f (cn_conn (pl_conns p i)) reply w"
  have "\<exists>s'. ServeHTTP pf gz keys h (Some ?acq) origin r fresh_client s = Some (fst (?out r), snd (?out r), s') \<and>
      ?inv s' \<and> (0 :: int) = 0 + 0" if r: "r \<in> set rs" and s: "?inv s" for r s
  proof -
    obtain w0 where w0: "s = (p, w0)" "steady f (cn_conn (pl_conns p i)) reply w0" using s by auto
    from assms(4) r have "request_fits (request_data keys r (body_of r))" by (simp add: inspectable_def)
    from steady_call [OF assms(1-3) this w0(2) assms(6-8), of ctx] assms(9) obtain w1 where
      w1: "AcquireVerdict mock_net cfg ctx (request_data keys r (body_of r)) p w0 = Some (Inr v, p, w1)"
        "steady f (cn_conn (pl_conns p i)) reply w1" by auto
    then have "?acq (request_data keys r (body_of r)) s = Some (Inr v, (p, w1))" by (simp add: policy_acquirer_def w0(1))
    from ServeHTTP_outcome [where acquire = ?acq, OF _ this] assms(4,9,10) r w1(2) show ?thesis
      by (auto split: prod.splits)
  qed
  from serve_all_outcomes [where keep = ?inv and cost = "\<lambda>_. 0" and d = 0, OF this] assms(5) show ?thesis by fastforce
qed

section \<open>An engine that never replies\<close>

definition silent :: "nat \<Rightarrow> mock_world \<Rightarrow> bool" where
  "silent k w \<longleftrightarrow> \<not> mq_closed (mk_conn w k) \<and> mq_replies (mk_conn w k) = [] \<and>
     \<not> eng_replyEnabled (mk_engine w) \<and> eng_flaky (mk_engine w) \<le> 0"

lemma silent_frame:
  assumes "silent k w" and "frame_type b = Some dt"
    and "dt \<in> {DataTypeRequestStart, DataTypeRequestHeader, DataTypeRequestBody, DataTypeRequestEnd}"
    and "parseRequest b = Some x"
  shows "\<exists>w'. mock_send k b w = (None, w') \<and> silent k w' \<and> mk_clock w' = mk_clock w"
proof -
  obtain sid isStart where x: "x = (sid, isStart)" by (cases x)
  from dispatch_request [OF assms(2-4)]
  have "dispatch b y = requestFrame b ((fst y)\<lparr>cs_phase := 2\<rparr>, snd y)" for y by (cases y) auto
  with assms(1,4) x show ?thesis
    by (auto simp: mock_send_def requestFrame_def silent_def eng_record_def put_mock_def Let_def)
qed

lemma request_frames_types:
  assumes "request_fits req" and "f \<in> set (request_frames sid req)"
  shows "\<exists>dt x. frame_type f = Some dt \<and> parseRequest f = Some x \<and>
    dt \<in> {DataTypeRequestStart, DataTypeRequestHeader, DataTypeRequestBody, DataTypeRequestEnd}"
proof -
  note own = own_frames [OF assms(1) refl refl refl refl, of sid]
  note types = accepted_types(1) [OF own(1)] parsed_type(1) [OF own(2), simplified] parsed_type(2) [OF own(3), simplified]
    parsed_type(3) [OF own(4), simplified]
  note requests = parseRequest_start [OF own(1)] parseRequest_bulk [OF own(2)] parseRequest_body [OF own(3)]
      parseRequest_end [OF own(4)]
  show ?thesis
    using assms(2) types requests by (auto simp: request_frames_def split: if_splits)
qed

lemma silent_frames:
  assumes "\<not> cn_closed c" and "\<And>f. f \<in> set fs \<Longrightarrow> \<exists>dt x. frame_type f = Some dt \<and> parseRequest f = Some x \<and>
      dt \<in> {DataTypeRequestStart, DataTypeRequestHeader, DataTypeRequestBody, DataTypeRequestEnd}"
    and "silent (cn_conn c) w"
  shows "\<exists>w'. send_frames mock_net fs c w = (None, c, w') \<and> silent (cn_conn c) w' \<and> mk_clock w' = mk_clock w"
  using assms(2,3)
proof (induction fs arbitrary: w)
  case (Cons f fs)
  from Cons.prems(1) [of f] obtain dt x where "frame_type f = Some dt" "parseRequest f = Some x"
    "dt \<in> {DataTypeRequestStart, DataTypeRequestHeader, DataTypeRequestBody, DataTypeRequestEnd}" by auto
  from silent_frame [OF Cons.prems(2) this(1,3,2)] obtain w1 where
    w1: "mock_send (cn_conn c) f w = (None, w1)" "silent (cn_conn c) w1" "mk_clock w1 = mk_clock w" by blast
  from Cons.IH [OF Cons.prems(1) w1(2)] obtain w2 where
    "send_frames mock_net fs c w1 = (None, c, w2)" "silent (cn_conn c) w2" "mk_clock w2 = mk_clock w1" by auto
  with mock_frame [OF assms(1) w1(1), of fs] w1(3) show ?case by (simp del: send_frames.simps)
qed simp

text \<open>The wait ends with the budget spent, and the fail-open policy accepts.\<close>

lemma silent_await:
  assumes "\<not> cn_closed c" and "silent (cn_conn c) w"
  shows "\<exists>w'. await mock_net cfg sid c w = Some (Inl (ErrCtx DeadlineExceeded), w') \<and> silent (cn_conn c) w' \<and>
    mk_clock w' = mk_clock w + verdictBudget cfg"
proof -
  have "0 < verdictBudget cfg" by (simp add: verdictBudget_def Let_def)
  with assms show ?thesis
    unfolding await_def
    by (subst await_loop.simps)
      (simp add: AppConn_recv_def mock_net_simps mock_recv_def silent_def Let_def)
qed

lemma silent_call:
  assumes "pool_ready (ec_RegistrationSocket cfg) e i p" and "\<not> cn_closed (pl_conns p i)"
    and "\<not> cn_flowSerial (pl_conns p i)" and "request_fits req" and "silent (cn_conn (pl_conns p i)) w"
    and "sid = fst (Allocate (cn_sessions (pl_conns p i)))"
  shows "\<exists>w'. AcquireVerdict mock_net cfg ctx req p w = Some (on_error cfg sid (ErrCtx DeadlineExceeded), p, w') \<and>
    silent (cn_conn (pl_conns p i)) w' \<and> mk_clock w' = mk_clock w + verdictBudget cfg"
proof -
  define c1 where "c1 = (pl_conns p i)\<lparr>cn_sessions := snd (Allocate (cn_sessions (pl_conns p i)))\<rparr>"
  have c1: "\<not> cn_closed c1" "silent (cn_conn c1) w" using assms(2,5) by (simp_all add: c1_def)
  from silent_frames [OF c1(1) request_frames_types [OF assms(4), where sid = sid] c1(2)] obtain w1 where
    w1: "send_frames mock_net (request_frames sid req) c1 w = (None, c1, w1)" "silent (cn_conn c1) w1"
      "mk_clock w1 = mk_clock w" by auto
  from silent_await [OF c1(1) w1(2)] obtain w2 where
    w2: "await mock_net cfg sid c1 w1 = Some (Inl (ErrCtx DeadlineExceeded), w2)" "silent (cn_conn c1) w2"
      "mk_clock w2 = mk_clock w1 + verdictBudget cfg" by auto
  from mock_served [OF assms(1-3,6) c1_def w1(1) w2(1), of ctx] w1(3) w2(2,3) show ?thesis by (simp add: c1_def)
qed

lemma silent_serves:
  assumes "pool_ready (ec_RegistrationSocket cfg) e i p" and "\<not> cn_closed (pl_conns p i)"
    and "\<not> cn_flowSerial (pl_conns p i)" and "\<forall>r \<in> set rs. inspectable keys r"
    and "silent (cn_conn (pl_conns p i)) w" and "failOpenEnabled cfg"
  shows "\<exists>w'. serve_all (\<lambda>r. ServeHTTP pf gz keys h (Some (policy_acquirer mock_net cfg ctx)) origin r fresh_client) rs (p, w) =
    Some (map (\<lambda>r. forward pf gz h origin (restored r (body_of r)) fresh_client) rs, (p, w')) \<and>
    mk_clock w' = mk_clock w + int (length rs) * verdictBudget cfg"
proof -
  let ?acq = "policy_acquirer mock_net cfg ctx"
  let ?sid = "fst (Allocate (cn_sessions (pl_conns p i)))" and ?k = "cn_conn (pl_conns p i)"
  let ?out = "\<lambda>r. forward pf gz h origin (restored r (body_of r)) fresh_client"
  let ?inv = "\<lambda>(q, w). q = p \<and> silent ?k w" and ?cost = "\<lambda>s. mk_clock (snd s)"
  have "\<exists>s'. ServeHTTP pf gz keys h (Some ?acq) origin r fresh_client s = Some (fst (?out r), snd (?out r), s') \<and>
      ?inv s' \<and> ?cost s' = ?cost s + verdictBudget cfg" if r: "r \<in> set rs" and s: "?inv s" for r s
  proof -
    obtain w0 where w0: "s = (p, w0)" "silent ?k w0" using s by auto
    have rd: "inspectable keys r" using assms(4) r by simp
    then have "request_fits (request_data keys r (body_of r))" by (simp add: inspectable_def)
    from silent_call [OF assms(1-3) this w0(2) refl, of ctx] assms(6) obtain w1 where
      w1: "AcquireVerdict mock_net cfg ctx (request_data keys r (body_of r)) p w0 = Some (Inr (failOpenVerdict ?sid), p, w1)"
        "silent ?k w1" "mk_clock w1 = mk_clock w0 + verdictBudget cfg" by (auto simp: on_error_open)
    then have "?acq (request_data keys r (body_of r)) s = Some (Inr (failOpenVerdict ?sid), (p, w1))"
      by (simp add: policy_acquirer_def w0(1))
    from ServeHTTP_outcome [where acquire = ?acq, OF rd this] w1(2,3) w0(1) show ?thesis
      by (auto simp: failOpenVerdict_def verdict_outcome_def go_consts split: prod.splits)
  qed
  from serve_all_outcomes [where keep = ?inv and cost = ?cost and d = "verdictBudget cfg", OF this] assms(5) show ?thesis
    by fastforce
qed

text \<open>The outcomes of the three steady scenarios.\<close>

lemma outcome_allow:
  "verdict_outcome pf gz h origin (accept_for sid) = (\<lambda>r. forward pf gz h origin (restored r (body_of r)) fresh_client)"
  by (rule ext) (simp add: verdict_outcome_def accept_for_def go_consts)

definition block_verdict :: "u32 \<Rightarrow> Verdict" where
  "block_verdict sid = \<lparr>vd_Kind = VerdictDrop, vd_SessionID = sid, vd_WebResponse = Some blockWebResponse, vd_Injections = []\<rparr>"

lemma outcome_block:
  assumes "hn_Mode h \<noteq> ModeLearn"
  shows "case verdict_outcome pf gz h origin (block_verdict sid) r of (err, c) \<Rightarrow> err = None \<and> cl_status c = Some 403 \<and>
    cl_body c = to_bytes (block_html ''Blocked by mock engine''
      ''This request was blocked by the mock open-appsec engine.'')"
proof -
  have page: "block_page h (block_verdict sid) =
      (403, ''Blocked by mock engine'', ''This request was blocked by the mock open-appsec engine.'')"
    by (simp add: block_page_def block_verdict_def blockWebResponse_def)
  have "verdict_outcome pf gz h origin (block_verdict sid) r = (None, writeBlock h (block_verdict sid) fresh_client)"
    using assms by (simp add: verdict_outcome_def block_verdict_def)
  moreover have "final_code 403" by (simp add: final_code_def body_allowed_def)
  ultimately show ?thesis
    using block_writes [OF block_html_nonempty, where s = 403] page by (simp add: writeBlock_def Let_def)
qed

definition injected :: "u32 \<Rightarrow> Verdict" where
  "injected sid = injectVerdict\<lparr>vd_SessionID := sid, vd_Injections :=
     [(hd (vd_Injections injectVerdict))\<lparr>inj_InjectionSize := 13\<rparr>]\<rparr>"

lemma outcome_inject:
  "verdict_outcome pf gz h origin (injected sid) =
     (\<lambda>r. forward pf gz h origin (restored r (body_of r @ to_bytes ''<mock-inject>'')) fresh_client)"
  by (rule ext) (simp add: verdict_outcome_def injected_def injectVerdict_def go_consts)

lemma scenario_replies:
  "\<exists>r. Verdict_Encode ((accept_for 0)\<lparr>vd_SessionID := sid\<rparr>) = Inr r \<and> own_verdict sid r = Some (accept_for sid)"
  "\<exists>r. Verdict_Encode ((block_verdict 0)\<lparr>vd_SessionID := sid\<rparr>) = Inr r \<and> own_verdict sid r = Some (block_verdict sid)"
  "\<exists>r. Verdict_Encode (injectVerdict\<lparr>vd_SessionID := sid\<rparr>) = Inr r \<and> own_verdict sid r = Some (injected sid)"
proof -
  have "Verdict_wf (accept_for 0)" by (simp add: Verdict_wf_def accept_for_def go_consts)
  from reply_frame [OF this, of sid] show
    "\<exists>r. Verdict_Encode ((accept_for 0)\<lparr>vd_SessionID := sid\<rparr>) = Inr r \<and> own_verdict sid r = Some (accept_for sid)"
    by (auto simp: accept_for_def)
  have "Verdict_wf (block_verdict 0)"
    by (simp add: Verdict_wf_def block_verdict_def blockWebResponse_def drop_response_wf_def go_consts)
  from reply_frame [OF this, of sid] show
    "\<exists>r. Verdict_Encode ((block_verdict 0)\<lparr>vd_SessionID := sid\<rparr>) = Inr r \<and> own_verdict sid r = Some (block_verdict sid)"
    by (auto simp: block_verdict_def)
  let ?v = "injected 0"
  have "Verdict_wf ?v" by (simp add: Verdict_wf_def injected_def injectVerdict_def Injection_wf_def to_bytes_def)
  then obtain r where "Verdict_Encode (?v\<lparr>vd_SessionID := sid\<rparr>) = Inr r"
      "own_verdict sid r = Some (?v\<lparr>vd_SessionID := sid\<rparr>)" by (rule reply_frame)
  moreover have "?v\<lparr>vd_SessionID := sid\<rparr> = injected sid" by (simp add: injected_def)
  moreover have "Verdict_Encode (injectVerdict\<lparr>vd_SessionID := sid\<rparr>) = Verdict_Encode (?v\<lparr>vd_SessionID := sid\<rparr>)"
    by (simp add: Verdict_Encode_def injected_def injectVerdict_def encodeInjection_def)
  ultimately show
    "\<exists>r. Verdict_Encode (injectVerdict\<lparr>vd_SessionID := sid\<rparr>) = Inr r \<and> own_verdict sid r = Some (injected sid)" by simp
qed

text \<open>An engine that differs from another in the connections and frames it has seen only.\<close>

definition only_used :: "Engine \<Rightarrow> Engine \<Rightarrow> bool" where
  "only_used e0 e \<longleftrightarrow> (\<exists>conns fs n. e = e0\<lparr>eng_conns := conns, eng_frames := fs, eng_total := n\<rparr>)"

lemma only_used_refl: "only_used e e"
  unfolding only_used_def by (intro exI [of _ "eng_conns e"] exI [of _ "eng_frames e"] exI [of _ "eng_total e"]) simp

text \<open>An idle connection to an engine with a responder.\<close>

lemma fresh_steady:
  assumes "only_used (SetResponder (Some f) (NewWithListener addr)) (mk_engine w)" and "\<not> mq_closed (mk_conn w k)"
    and "mq_replies (mk_conn w k) = []"
  shows "steady f k reply w"
proof -
  have "answering k (replicate 0 reply) (Some f) (eng_verdicts (mk_engine w)) w"
    using assms by (auto simp: only_used_def answering_def SetResponder_def NewWithListener_def)
  then show ?thesis unfolding steady_def by blast
qed

lemma scenario_serves:
  assumes "configureScenario (NewWithListener addr) scenario requests = Inr e0 \<and> only_used e0 (mk_engine w)"
    and "scenario \<noteq> ''flaky''"
    and "\<not> mq_closed (mk_conn w (cn_conn (pl_conns p i)))" and "mq_replies (mk_conn w (cn_conn (pl_conns p i))) = []"
    and "pool_ready (ec_RegistrationSocket cfg) e i p" and "\<not> cn_closed (pl_conns p i)"
    and "\<not> cn_flowSerial (pl_conns p i)" and "\<forall>r \<in> set rs. inspectable keys r" and "failOpenEnabled cfg"
  shows "\<exists>os w'. serve_all (\<lambda>r. ServeHTTP pf gz keys h (Some (policy_acquirer mock_net cfg ctx)) origin r fresh_client) rs (p, w) =
      Some (os, (p, w')) \<and> scenario \<in> {''allow'', ''block'', ''inject'', ''down''} \<and>
    (scenario = ''allow'' \<longrightarrow> os = map (\<lambda>r. forward pf gz h origin (restored r (body_of r)) fresh_client) rs) \<and>
    (scenario = ''block'' \<and> hn_Mode h \<noteq> ModeLearn \<longrightarrow> (\<forall>(err, c) \<in> set os. err = None \<and> cl_status c = Some 403 \<and>
       cl_body c = to_bytes (block_html ''Blocked by mock engine''
         ''This request was blocked by the mock open-appsec engine.''))) \<and>
    (scenario = ''inject'' \<longrightarrow> os = map (\<lambda>r. forward pf gz h origin
       (restored r (body_of r @ to_bytes ''<mock-inject>'')) fresh_client) rs) \<and>
    (scenario = ''down'' \<longrightarrow> os = map (\<lambda>r. forward pf gz h origin (restored r (body_of r)) fresh_client) rs \<and>
       mk_clock w' = mk_clock w + int (length rs) * verdictBudget cfg)"
  (is "\<exists>os w'. serve_all ?srv rs (p, w) = _ \<and> _")
proof -
  let ?sid = "fst (Allocate (cn_sessions (pl_conns p i)))" and ?k = "cn_conn (pl_conns p i)"
  let ?out = "verdict_outcome pf gz h origin"
  note serves = steady_serves [OF assms(5-8) fresh_steady [OF _ assms(3,4)] refl, where pf = pf and gz = gz and h = h
      and ctx = ctx and origin = origin]
  consider (allow) "scenario = ''allow''" "only_used (SetResponder (Some (\<lambda>_. accept_for 0)) (NewWithListener addr)) (mk_engine w)"
    | (block) "scenario = ''block''" "only_used (SetResponder (Some (\<lambda>_. block_verdict 0)) (NewWithListener addr)) (mk_engine w)"
    | (inject) "scenario = ''inject''" "only_used (SetResponder (Some (\<lambda>_. injectVerdict)) (NewWithListener addr)) (mk_engine w)"
    | (down) "scenario = ''down''" "only_used (SetVerdictsEnabled False (NewWithListener addr)) (mk_engine w)"
    using assms(1,2) by (auto simp: configureScenario_def block_verdict_def split: if_splits)
  then show ?thesis
  proof cases
    case allow
    obtain r where r: "Verdict_Encode ((accept_for 0)\<lparr>vd_SessionID := ?sid\<rparr>) = Inr r" "own_verdict ?sid r = Some (accept_for ?sid)"
      using scenario_replies(1) by blast
    have "vd_Kind (accept_for ?sid) \<notin> {VerdictInspect, VerdictCustomResponse}" "vd_Injections (accept_for ?sid) = []"
      by (simp_all add: accept_for_def go_consts)
    with serves [OF allow(2) r] show ?thesis by (simp add: allow(1) outcome_allow)
  next
    case block
    obtain r where r: "Verdict_Encode ((block_verdict 0)\<lparr>vd_SessionID := ?sid\<rparr>) = Inr r" "own_verdict ?sid r = Some (block_verdict ?sid)"
      using scenario_replies(2) by blast
    have "vd_Kind (block_verdict ?sid) \<notin> {VerdictInspect, VerdictCustomResponse}" "vd_Injections (block_verdict ?sid) = []"
      by (simp_all add: block_verdict_def go_consts)
    with serves [OF block(2) r] obtain w' where "serve_all ?srv rs (p, w) = Some (map (?out (block_verdict ?sid)) rs, (p, w'))"
      by auto
    moreover have "\<forall>(err, c) \<in> set (map (?out (block_verdict ?sid)) rs). err = None \<and> cl_status c = Some 403 \<and>
       cl_body c = to_bytes (block_html ''Blocked by mock engine''
         ''This request was blocked by the mock open-appsec engine.'')" if "hn_Mode h \<noteq> ModeLearn"
      unfolding set_map ball_simps(9) by (intro ballI outcome_block [OF that])
    ultimately show ?thesis by (simp add: block(1))
  next
    case inject
    obtain r where r: "Verdict_Encode (injectVerdict\<lparr>vd_SessionID := ?sid\<rparr>) = Inr r" "own_verdict ?sid r = Some (injected ?sid)"
      using scenario_replies(3) by blast
    have "vd_Kind (injected ?sid) \<notin> {VerdictInspect, VerdictCustomResponse}" "\<forall>j \<in> set (vd_Injections (injected ?sid)). \<not> inj_IsHeader j"
      by (simp_all add: injected_def injectVerdict_def go_consts)
    from serves [OF inject(2) r this] show ?thesis by (simp add: inject(1) outcome_inject)
  next
    case down
    then have "silent ?k w" using assms(3,4) by (auto simp: only_used_def silent_def SetVerdictsEnabled_def NewWithListener_def)
    from silent_serves [OF assms(5-8) this assms(9), of pf gz h ctx origin] show ?thesis by (simp add: down(1))
  qed
qed

section \<open>Properties\<close>

text \<open>
  C8: what a client sees of the mock engine's scenarios allow, block, inject and down, the handler, the
  policy with fail-open on, the pooled connection and the engine taken together, for every sequence
  of requests, one after the other over one connection, whose bodies can be read and whose strings
  fit their length prefixes. The pool has a ready entry whose connection is open, takes no flow lock
  and has no reply waiting. Although each request leaves a verdict behind that the next one takes:
  allow forwards each request as it was; block, unless in learn mode, answers each with status 403
  and the engine's page; inject forwards each with the tag appended to its request body, where the
  comment in the command and the README speak of the response body; and down forwards each as it
  was after waiting for the whole verdict budget. The flaky scenario is not covered; no other
  name is accepted.
\<close>

theorem scenario_outcomes:
  assumes "configureScenario (NewWithListener addr) scenario requests = Inr (mk_engine w)" and "scenario \<noteq> ''flaky''"
    and "\<not> mq_closed (mk_conn w (cn_conn (pl_conns p i)))" and "mq_replies (mk_conn w (cn_conn (pl_conns p i))) = []"
    and "pool_ready (ec_RegistrationSocket cfg) e i p" and "\<not> cn_closed (pl_conns p i)"
    and "\<not> cn_flowSerial (pl_conns p i)" and "\<forall>r \<in> set rs. inspectable keys r" and "failOpenEnabled cfg"
  shows "\<exists>os w'. serve_all (\<lambda>r. ServeHTTP pf gz keys h (Some (policy_acquirer mock_net cfg ctx)) origin r fresh_client) rs (p, w) =
      Some (os, (p, w')) \<and> scenario \<in> {''allow'', ''block'', ''inject'', ''down''} \<and>
    (scenario = ''allow'' \<longrightarrow> os = map (\<lambda>r. forward pf gz h origin (restored r (body_of r)) fresh_client) rs) \<and>
    (scenario = ''block'' \<and> hn_Mode h \<noteq> ModeLearn \<longrightarrow> (\<forall>(err, c) \<in> set os. err = None \<and> cl_status c = Some 403 \<and>
       cl_body c = to_bytes (block_html ''Blocked by mock engine''
         ''This request was blocked by the mock open-appsec engine.''))) \<and>
    (scenario = ''inject'' \<longrightarrow> os = map (\<lambda>r. forward pf gz h origin
       (restored r (body_of r @ to_bytes ''<mock-inject>'')) fresh_client) rs) \<and>
    (scenario = ''down'' \<longrightarrow> os = map (\<lambda>r. forward pf gz h origin (restored r (body_of r)) fresh_client) rs \<and>
       mk_clock w' = mk_clock w + int (length rs) * verdictBudget cfg)"
  by (rule scenario_serves [OF conjI [OF assms(1) only_used_refl] assms(2-9)])

lemma dump_from:
  assumes "sorted_wrt prefix snaps" and "snaps \<noteq> []" and "seen \<le> length (hd snaps)"
  shows "map snd (dumpLoop snaps seen) = map (spacedHex \<circ> EncodeToString) (drop seen (last snaps))"
  using assms
proof (induction snaps arbitrary: seen)
  case (Cons fs snaps)
  show ?case
  proof (cases "snaps = []")
    case False
    with Cons.prems(1) have pre: "prefix fs (last snaps)" "prefix fs (hd snaps)" by simp_all
    then obtain t where t: "last snaps = fs @ t" by (auto simp: prefix_def)
    from Cons.IH [OF _ False] Cons.prems(1) pre(2)
    have "map snd (dumpLoop snaps (length fs)) = map (spacedHex \<circ> EncodeToString) t"
      by (simp add: t prefix_length_le)
    with Cons.prems(3) False show ?thesis by (simp add: t dumpLoop_step_def comp_def)
  qed (simp add: dumpLoop_step_def comp_def)
qed simp

text \<open>
  the dump shows every frame received exactly once and in order, each round the ones that have
  arrived since; but all frames of a round bear the number of its first.
\<close>

theorem dump_each_once:
  assumes "sorted_wrt prefix snaps" and "snaps \<noteq> []"
  shows "map snd (dumpLoop snaps 0) = map (spacedHex \<circ> EncodeToString) (last snaps) \<and>
    map fst (dumpLoop [[a, b]] 0) = [1, 1]"
  using dump_from [OF assms, of 0] by (simp add: dumpLoop_step_def)

theorem dump_each_once_witness:
  "map snd (dumpLoop [[[3, 0]], [[3, 0], [255]]] 0) = [''03 00'', ''ff'']"
  using dump_each_once [of "[[[3, 0]], [[3, 0], [255]]]" "[]" "[]"]
  by (simp add: spacedHex_def EncodeToString_def hex_digit_def)

section \<open>Witnesses\<close>

definition mock_block :: mock_world where
  "mock_block = mock0\<lparr>mk_engine := projr (configureScenario (NewWithListener ''engine'') ''block'' 1)\<rparr>"

definition open_cfg :: EngineConfig where
  "open_cfg = strict_cfg\<lparr>ec_FailOpen := None\<rparr>"

theorem scenario_outcomes_witness:
  "\<exists>os w'. serve_all (\<lambda>r. ServeHTTP (\<lambda>_. None) (\<lambda>b. b) (\<lambda>_. []) default_handler
        (Some (policy_acquirer mock_net open_cfg None)) page_origin r fresh_client)
      [example_post, example_post] (shared_pool 1, mock_block) = Some (os, (shared_pool 1, w')) \<and>
    (\<forall>(err, c) \<in> set os. err = None \<and> cl_status c = Some 403)"
proof -
  have conn: "pl_conns (shared_pool 1) 0 = example_conn" by (simp add: shared_pool_def pool0_def NewPool_def)
  have c: "\<not> cn_closed (pl_conns (shared_pool 1) 0)" "\<not> cn_flowSerial (pl_conns (shared_pool 1) 0)"
    unfolding conn by (simp_all add: example_conn_def newConn_def script_net_def)
  have eng: "configureScenario (NewWithListener ''engine'') ''block'' 1 = Inr (mk_engine mock_block)"
    by (simp add: mock_block_def configureScenario_def)
  have idle: "\<not> mq_closed (mk_conn mock_block k)" "mq_replies (mk_conn mock_block k) = []" for k
    by (simp_all add: mock_block_def mock0_def)
  have ready: "pool_ready (ec_RegistrationSocket open_cfg) 0 0 (shared_pool 1)"
    using shared_pool_ready [of 1] by (simp add: open_cfg_def)
  have body: "body_of example_post = [1, 2]" by (simp add: body_of_def example_post_def)
  have reqs: "\<forall>r \<in> set [example_post, example_post]. inspectable (\<lambda>_. []) r"
    using example_readable example_post_fits by (simp add: inspectable_def body)
  have mode: "failOpenEnabled open_cfg" "hn_Mode default_handler \<noteq> ModeLearn"
    by (simp_all add: failOpenEnabled_def open_cfg_def default_handler_fields ModePrevent_def ModeLearn_def)
  from scenario_outcomes [OF eng _ idle ready c reqs mode(1), where pf = "\<lambda>_. None" and gz = "\<lambda>b. b"
      and h = default_handler and ctx = None and origin = page_origin] mode(2)
  show ?thesis by (force simp: split_beta)
qed

end
