(* ===== verification/Mock_Serve.thy ===== *)
theory Mock_Serve
  imports Mock
begin

text \<open>
  The loops of the mock engine, internal/mock: accepting connections (engine.go) and serving one until
  it closes (serve.go), the counters it keeps of what it received, and the two-phase handshake of
  the dialers against it. What other goroutines do to the engine between two steps of a loop is a
  function in the list of the loop's events; a loop whose list runs out is still waiting.
\<close>

section \<open>Loops\<close>

text \<open>
  \<open>acceptLoop\<close> given what \<open>Accept\<close> returns: the connections handed to a handler, those closed at once,
  and the engine.
\<close>

fun acceptLoop :: "((Engine \<Rightarrow> Engine) \<times> (terr + nat)) list \<Rightarrow> Engine \<Rightarrow> nat list \<times> nat list \<times> Engine" where
  "acceptLoop [] e = ([], [], e)"
| "acceptLoop ((f, Inl err) # evs) e = ([], [], f e)"
| "acceptLoop ((f, Inr c) # evs) e =
     (case accept_conn c (f e) of
        (False, e) \<Rightarrow> ([], [c], e)
      | (True, e) \<Rightarrow> (case acceptLoop evs e of (served, closed, e) \<Rightarrow> (c # served, closed, e)))"

text \<open>\<open>handleConn\<close> given what \<open>Recv\<close> returns: the frames sent, or the panic of an \<open>Encode\<close>, and the engine.\<close>

fun handle_frames ::
  "nat \<Rightarrow> ((Engine \<Rightarrow> Engine) \<times> (terr + bytes)) list \<Rightarrow> connState \<times> Engine \<Rightarrow> (panic + bytes list) \<times> Engine" where
  "handle_frames c [] (st, e) = (Inr [], e)"
| "handle_frames c ((f, Inl err) # evs) (st, e) = (Inr [], conn_gone c (f e))"
| "handle_frames c ((f, Inr b) # evs) (st, e) =
     (case dispatch b (st, f e) of
        (Inl p, st, e) \<Rightarrow> (Inl p, e)
      | (Inr (out, _), st, e) \<Rightarrow>
          (case handle_frames c evs (st, e) of (r, e) \<Rightarrow> (map_sum id (append out) r, e)))"

definition handleConn ::
  "nat \<Rightarrow> ((Engine \<Rightarrow> Engine) \<times> (terr + bytes)) list \<Rightarrow> Engine \<Rightarrow> (panic + bytes list) \<times> Engine" where
  "handleConn c evs e = handle_frames c evs (\<lparr>cs_phase = 0, cs_flakyN = 0\<rparr>, e)"

section \<open>Counters\<close>

definition ReceivedFrames :: "Engine \<Rightarrow> bytes list" where
  "ReceivedFrames e = eng_frames e"

definition Requests :: "Engine \<Rightarrow> int" where
  "Requests e = eng_requests e"

definition ResponseCount :: "Engine \<Rightarrow> int" where
  "ResponseCount e = eng_responses e"

definition FrameCount :: "Engine \<Rightarrow> int" where
  "FrameCount e = eng_total e"

text \<open>The counters say what the record of frames says.\<close>

definition counts_frames :: "Engine \<Rightarrow> bool" where
  "counts_frames e \<longleftrightarrow>
     FrameCount e = int (length (ReceivedFrames e)) \<and>
     Requests e = int (length (filter (\<lambda>b. \<not> is_err (ParseRequestStart b)) (ReceivedFrames e))) \<and>
     ResponseCount e = int (length (filter (\<lambda>b. isResponseCode b \<and> parseRequest b \<noteq> None) (ReceivedFrames e)))"

lemma start_classified: "\<not> is_err (ParseRequestStart b) \<Longrightarrow> classify b ph = FrameRequest \<and>
    (\<exists>sid. parseRequest b = Some (sid, True)) \<and> \<not> isResponseCode b"
proof -
  assume "\<not> is_err (ParseRequestStart b)"
  then obtain m where m: "ParseRequestStart b = Inr m" by (cases "ParseRequestStart b") auto
  then have "frame_type b = Some DataTypeRequestStart" by (rule accepted_types)
  moreover from frame_type_bytes [OF this] have "2 \<le> length b" "b ! 1 = 0" by (simp_all add: go_consts)
  ultimately show ?thesis
    using parseRequest_start [OF m]
    by (auto simp: classify_def isResponseFrame_def isResponseCode_def go_consts)
qed

lemma code_classified: "isResponseCode b \<Longrightarrow> parseRequest b \<noteq> None \<Longrightarrow> classify b ph = FrameResponse"
proof -
  assume b: "isResponseCode b" "parseRequest b \<noteq> None"
  then have t: "frame_type b = Some DataTypeResponseCode" by (simp add: isResponseCode_def)
  from frame_type_bytes [OF this] have "2 \<le> length b" "b ! 1 = 0" by (simp_all add: go_consts)
  with t b(2) show ?thesis by (simp add: classify_def isResponseFrame_def)
qed

lemma classified_request:
  "classify b ph = FrameRequest \<Longrightarrow> parseRequest b \<noteq> None \<and> \<not> isResponseFrame b"
  "classify b ph = FrameResponse \<Longrightarrow> parseRequest b \<noteq> None \<and> isResponseFrame b"
  by (auto simp: classify_def split: if_splits)

lemma parseRequest_is_start:
  "parseRequest b = Some (sid, x) \<Longrightarrow> x \<longleftrightarrow> \<not> is_err (ParseRequestStart b)"
  by (auto simp: parseRequest_def split: sum.splits)

lemma verdictFor_counters:
  "eng_frames (snd (verdictFor sid e)) = eng_frames e" "eng_total (snd (verdictFor sid e)) = eng_total e"
  "eng_requests (snd (verdictFor sid e)) = eng_requests e" "eng_responses (snd (verdictFor sid e)) = eng_responses e"
  "eng_frames (snd (responseVerdictFor sid e)) = eng_frames e" "eng_total (snd (responseVerdictFor sid e)) = eng_total e"
  "eng_requests (snd (responseVerdictFor sid e)) = eng_requests e"
  "eng_responses (snd (responseVerdictFor sid e)) = eng_responses e"
  by (simp_all add: verdictFor_def responseVerdictFor_def split: option.split list.split)

text \<open>What one frame adds to the record and the counters.\<close>

definition counted :: "bytes \<Rightarrow> bool \<Rightarrow> bool \<Rightarrow> Engine \<Rightarrow> Engine \<Rightarrow> bool" where
  "counted b start code e e' \<longleftrightarrow> eng_frames e' = eng_frames e @ [b] \<and> eng_total e' = eng_total e + 1 \<and>
     eng_requests e' = eng_requests e + (if start then 1 else 0) \<and>
     eng_responses e' = eng_responses e + (if code then 1 else 0)"

lemma counted_record: "counted b start False e (eng_record b start e)"
  by (simp add: counted_def eng_record_def)

lemma requestFrame_counted:
  assumes "requestFrame b (st, e) = (x, st', e')" and "parseRequest b = Some (sid, start)"
  shows "counted b start False e e'"
proof -
  obtain v e1 where v: "verdictFor sid (eng_record b start e) = (v, e1)" by fastforce
  with verdictFor_counters(1-4) [of sid "eng_record b start e"] have "counted b start False e e1"
    by (simp add: counted_def eng_record_def)
  with assms v counted_record [of b start e] show ?thesis
    by (simp add: requestFrame_def Let_def split: if_splits)
qed

lemma responseFrame_counted:
  assumes "responseFrame b (st, e) = (x, st', e')"
  shows "counted b False (isResponseCode b) e e'"
proof -
  define sid where "sid = (case parseRequest b of None \<Rightarrow> 0 | Some (sid, _) \<Rightarrow> sid)"
  define e0 where "e0 = (eng_record b False e)\<lparr>eng_responses := eng_responses (eng_record b False e) + 1\<rparr>"
  obtain v e1 where v: "responseVerdictFor sid e0 = (v, e1)" by fastforce
  have e0: "counted b False True e e0" by (simp add: counted_def eng_record_def e0_def)
  with v verdictFor_counters(5-8) [of sid e0] have "counted b False True e e1" by (simp add: counted_def)
  with assms e0 v counted_record [of b False e] show ?thesis
    unfolding responseFrame_def Let_def sid_def [symmetric] prod.case e0_def [symmetric]
    by (simp split: if_splits)
qed

lemma dispatch_counted:
  assumes "dispatch b (st, e) = (x, st', e')"
  shows "counted b (\<not> is_err (ParseRequestStart b)) (isResponseCode b \<and> parseRequest b \<noteq> None) e e'"
proof -
  have plain: ?thesis if "e' = eng_record b False e" "classify b (cs_phase st) \<noteq> FrameRequest"
      "classify b (cs_phase st) \<noteq> FrameResponse"
  proof -
    have "is_err (ParseRequestStart b)" using start_classified [of b "cs_phase st"] that(2) by auto
    moreover have "\<not> (isResponseCode b \<and> parseRequest b \<noteq> None)"
      using code_classified [of b "cs_phase st"] that(3) by blast
    ultimately show ?thesis using that(1) counted_record [of b False e] by metis
  qed
  show ?thesis
  proof (cases "classify b (cs_phase st)")
    case FrameRequest
    with classified_request(1) obtain sid start where p: "parseRequest b = Some (sid, start)" by fastforce
    have "\<not> isResponseCode b" using code_classified [of b "cs_phase st"] FrameRequest p by auto
    moreover have "start = (\<not> is_err (ParseRequestStart b))" by (rule parseRequest_is_start [OF p])
    moreover have "counted b start False e e'"
      using assms FrameRequest by (intro requestFrame_counted [OF _ p]) (simp add: dispatch_def)
    ultimately show ?thesis by simp
  next
    case FrameResponse
    with classified_request(2) have "parseRequest b \<noteq> None" by blast
    moreover have "is_err (ParseRequestStart b)" using start_classified [of b "cs_phase st"] FrameResponse by auto
    moreover have "counted b False (isResponseCode b) e e'"
      using assms FrameResponse by (intro responseFrame_counted) (simp add: dispatch_def)
    ultimately show ?thesis by simp
  qed (use assms plain in \<open>auto simp: dispatch_def\<close>)
qed

lemma counted_keeps: "counted b start code e e' \<Longrightarrow> start = (\<not> is_err (ParseRequestStart b)) \<Longrightarrow>
    code = (isResponseCode b \<and> parseRequest b \<noteq> None) \<Longrightarrow> counts_frames e \<Longrightarrow> counts_frames e'"
  by (simp add: counted_def counts_frames_def ReceivedFrames_def FrameCount_def Requests_def ResponseCount_def)

text \<open>A step of another goroutine that leaves the record and the counters alone.\<close>

definition other_step :: "(Engine \<Rightarrow> Engine) \<Rightarrow> bool" where
  "other_step f \<longleftrightarrow> (\<forall>e. counts_frames e \<longrightarrow> counts_frames (f e))"

text \<open>
  However the connections of the engine interleave, its counters agree with its record of received
  frames: the total is the number of frames, the requests are the frames that parse as a request start,
  the responses are the frames with a response code. A new engine starts that way, and serving a
  connection keeps it, whatever frames arrive, when what other goroutines do between two of them keeps it.
\<close>

theorem engine_counts_frames:
  shows "counts_frames (NewWithListener addr) \<and>
    ((\<forall>ev\<in>set evs. other_step (fst ev)) \<longrightarrow> counts_frames e \<longrightarrow> counts_frames (snd (handleConn c evs e)))"
proof -
  have "counts_frames (snd (handle_frames c evs (st, e)))"
    if "\<forall>ev\<in>set evs. other_step (fst ev)" "counts_frames e" for st
    using that
  proof (induction c evs "(st, e)" arbitrary: st e rule: handle_frames.induct)
    case (2 c f err evs st e)
    then have "counts_frames (f e)" by (simp add: other_step_def)
    then show ?case
      by (simp add: conn_gone_def counts_frames_def ReceivedFrames_def FrameCount_def Requests_def ResponseCount_def)
  next
    case (3 c f b evs st e)
    obtain r st' e' where d: "dispatch b (st, f e) = (r, st', e')" by (metis surj_pair)
    have "counts_frames (f e)" using "3.prems" by (simp add: other_step_def)
    from counted_keeps [OF dispatch_counted [OF d] refl refl this] have e': "counts_frames e'" .
    show ?case
    proof (cases r)
      case (Inr a)
      with d "3.hyps" [OF d [symmetric, unfolded Inr] refl, of "fst a" "snd a" st' e'] "3.prems" e'
      show ?thesis by (cases a) (auto split: prod.splits)
    qed (use d e' in simp)
  qed simp
  then show ?thesis
    by (auto simp: handleConn_def counts_frames_def NewWithListener_def ReceivedFrames_def FrameCount_def
        Requests_def ResponseCount_def)
qed

theorem engine_counts_frames_witness:
  "counts_frames (snd (handleConn 7 [(id, Inr (RequestStart_Encode example_start)), (id, Inl ErrClosed)]
     (NewWithListener ''mock'')))"
  using engine_counts_frames [of "''mock''" "[(id, Inr (RequestStart_Encode example_start)), (id, Inl ErrClosed)]"
      "NewWithListener ''mock''" 7]
  by (simp add: other_step_def)

section \<open>The handshake against the engine\<close>

text \<open>A frame whose second byte is not 0 is no request frame.\<close>

lemma classify_no_request: "b ! 1 \<noteq> 0 \<Longrightarrow> classify b ph = (if ph = 0 \<and> \<not> is_err (ParseRegistration b) then FrameRegistration
    else if \<not> is_err (ParseCommData b) then FrameComm
    else if \<not> is_err (ParseKeepAlive b) then FrameKeepAlive else FrameUnknown)"
  by (simp add: classify_def)

definition fresh_conn :: mock_conn where
  "fresh_conn = \<lparr>mq_state = \<lparr>cs_phase = 0, cs_flakyN = 0\<rparr>, mq_replies = [], mq_closed = False\<rparr>"

lemma mock_connect_open:
  assumes "\<not> eng_closed (mk_engine w)" and "mock_reaches m a w"
  shows "mock_connect m a w = (Inr (mk_next w), put_mock (mk_next w) fresh_conn
    ((mk_engine w)\<lparr>eng_conns := mk_next w # eng_conns (mk_engine w)\<rparr>) (w\<lparr>mk_next := Suc (mk_next w)\<rparr>))"
  using assms by (simp add: mock_connect_def accept_conn_def fresh_conn_def Let_def)

text \<open>One frame of the handshake: the engine records it and its reply is the next thing received.\<close>

definition shaken :: "nat \<Rightarrow> bytes \<Rightarrow> mock_world \<Rightarrow> mock_world \<Rightarrow> bool" where
  "shaken k b w w' \<longleftrightarrow> mk_engine w' = eng_record b False (mk_engine w) \<and> mk_next w' = mk_next w \<and>
     mk_medium w' = mk_medium w \<and>
     mq_replies (mk_conn w' k) = [] \<and> \<not> mq_closed (mk_conn w' k)"

lemma handshake_exchange:
  assumes "dispatch b (mq_state (mk_conn w k), mk_engine w) = (Inr ([r], False), st, eng_record b False (mk_engine w))"
    and "mq_replies (mk_conn w k) = []" "\<not> mq_closed (mk_conn w k)"
  shows "\<exists>w1 w2. mock_send k b w = (None, w1) \<and> mock_recv k None w1 = (Inr r, w2) \<and> shaken k b w w2"
  using assms by (simp add: mock_send_def mock_recv_def put_mock_def shaken_def Let_def)

lemma registration_reply_path:
  "length p < 256 \<Longrightarrow> \<exists>n rest. RegistrationReply_Encode \<lparr>rr_Path = p\<rparr> = n # rest \<and> unat n = length p \<and> rest = to_bytes p"
  by (simp add: RegistrationReply_Encode_def emit_simps w_str8_def w_u8_def unat_of_nat)

lemma engine_registers:
  assumes "mk_conn w k = fresh_conn" and "word_of_int (ec_WorkerID cfg + 1) \<noteq> (0::u8)"
    and "length (ec_FamilyName cfg) < 256" and "length (eng_addr (mk_engine w)) < 256"
  shows "\<exists>w'. register mock_net k cfg w = (Inr (eng_addr (mk_engine w)), w') \<and> shaken k (registrationFrame cfg) w w'"
proof -
  let ?r = "RegistrationReply_Encode \<lparr>rr_Path = eng_addr (mk_engine w)\<rparr>"
  have "ParseRegistration (registrationFrame cfg) = Inr \<lparr>reg_AttachmentType = 0,
      reg_WorkerID = word_of_int (ec_WorkerID cfg + 1), reg_WorkersAmount = word_of_int (ec_Workers cfg),
      reg_FamilyName = ec_FamilyName cfg\<rparr>"
    unfolding registrationFrame_encode using assms(3)
    by (simp add: registration.parse_encode Registration_wf_def str8_ok_def)
  moreover have "registrationFrame cfg ! 1 \<noteq> 0" using assms(2) by (simp add: registrationFrame_def)
  ultimately have "classify (registrationFrame cfg) 0 = FrameRegistration" by (simp add: classify_no_request)
  then obtain w1 w2 where x: "mock_send k (registrationFrame cfg) w = (None, w1)" "mock_recv k None w1 = (Inr ?r, w2)"
      "shaken k (registrationFrame cfg) w w2"
    using handshake_exchange [of "registrationFrame cfg" w k ?r] assms(1) by (auto simp: dispatch_def fresh_conn_def)
  moreover obtain n rest where "?r = n # rest" "unat n = length (eng_addr (mk_engine w))" "rest = to_bytes (eng_addr (mk_engine w))"
    using registration_reply_path [OF assms(4)] by blast
  ultimately show ?thesis
    by (simp add: register_def recvSignalPath_def mock_net_simps to_bytes_def of_bytes_def comp_def)
qed

lemma engine_acks:
  assumes "mk_conn w k = fresh_conn" and "UniqueID cfg = x # xs" "x \<noteq> CHR 0x00" "length (UniqueID cfg) < 256"
    and "length (eng_addr (mk_engine w)) < 256"
  shows "\<exists>w'. sendComm mock_net k cfg w = (None, w') \<and> shaken k (commFrame cfg) w w'"
proof -
  have "\<not> is_err (ParseCommData (commFrame cfg))"
    unfolding commFrame_def using assms(4) by (simp add: comm_data.parse_encode CommData_wf_def str8_ok_def)
  moreover have "byte_of_char x \<noteq> 0"
  proof
    assume "byte_of_char x = 0"
      then have "x = char_of_byte 0" using char_of_byte_of_char [of x] by simp
    moreover have "char_of_byte 0 = CHR 0x00" by code_simp
    ultimately show False using assms(3) by simp
  qed
  then have "commFrame cfg ! 1 \<noteq> 0"
    using assms(2) by (simp add: commFrame_def CommData_Encode_def emit_simps w_str8_def w_u8_def to_bytes_def)
  ultimately have "classify (commFrame cfg) 0 \<in> {FrameRegistration, FrameComm}" by (simp add: classify_no_request)
  then obtain r w1 w2 where "r \<noteq> []" "mock_send k (commFrame cfg) w = (None, w1)" "mock_recv k None w1 = (Inr r, w2)"
      "shaken k (commFrame cfg) w w2"
    using handshake_exchange [of "commFrame cfg" w k] assms(1) registration_reply_path [OF assms(5)]
    by (fastforce simp: dispatch_def fresh_conn_def Ack_Encode_def)
  then show ?thesis by (auto simp: sendComm_def recvAck_def mock_net_simps)
qed

text \<open>The dialer goes to the engine: its medium and the registration address reach the engine's listener.\<close>

definition dials_engine :: "dialer \<Rightarrow> EngineConfig \<Rightarrow> mock_world \<Rightarrow> bool" where
  "dials_engine d cfg w \<longleftrightarrow>
     (d = MemoryDialer \<and> mock_reaches InMemory (ec_RegistrationSocket cfg) w \<or>
      d = SocketDialer \<and> mock_reaches TCP (ec_RegistrationSocket cfg) w)"

lemma mock_dials:
  assumes "dials_engine d cfg w" and "\<not> eng_closed (mk_engine w)"
    and "length (eng_addr (mk_engine w)) < 256" and "mk_next w \<notin> set (eng_conns (mk_engine w))"
    and "word_of_int (ec_WorkerID cfg + 1) \<noteq> (0::u8)" and "length (ec_FamilyName cfg) < 256"
    and "UniqueID cfg = x # xs" "x \<noteq> CHR 0x00" "length (UniqueID cfg) < 256"
  shows "\<exists>k w'. Dial_engine mock_net d cfg w = (Inr k, w') \<and>
    mq_replies (mk_conn w' k) = [] \<and> \<not> mq_closed (mk_conn w' k) \<and>
    mk_engine w' = (mk_engine w)\<lparr>eng_conns := k # eng_conns (mk_engine w),
      eng_frames := eng_frames (mk_engine w) @ [registrationFrame cfg, commFrame cfg],
      eng_total := eng_total (mk_engine w) + 2\<rparr>"
proof -
  let ?e = "mk_engine w" and ?k = "mk_next w"
  define w1 where "w1 = put_mock ?k fresh_conn (?e\<lparr>eng_conns := ?k # eng_conns ?e\<rparr>) (w\<lparr>mk_next := Suc ?k\<rparr>)"
  obtain m where m: "mock_reaches m (ec_RegistrationSocket cfg) w"
      "Dial_engine mock_net d cfg = two_phase mock_net m cfg (\<lambda>comm w. (Inr comm, w))"
    using assms(1) by (auto simp: dials_engine_def dialers_two_phase fun_eq_iff)
  have c1: "nt_connect mock_net m (ec_RegistrationSocket cfg) w = (Inr ?k, w1)"
    using mock_connect_open [OF assms(2) m(1)] by (simp add: mock_net_def w1_def)
  have w1: "mk_conn w1 ?k = fresh_conn" "mk_engine w1 = ?e\<lparr>eng_conns := ?k # eng_conns ?e\<rparr>" "mk_next w1 = Suc ?k"
      "mk_medium w1 = mk_medium w"
    by (simp_all add: w1_def put_mock_def)
  from engine_registers [of w1 ?k cfg] w1 assms(3,5,6) obtain w2 where
    r: "register mock_net ?k cfg w1 = (Inr (eng_addr ?e), w2)" and w2: "shaken ?k (registrationFrame cfg) w1 w2" by auto
  define w3 where "w3 = nt_close mock_net ?k w2"
  define e3 where "e3 = (eng_record (registrationFrame cfg) False ?e)"
  have w3: "mk_engine w3 = e3" "mk_next w3 = Suc ?k" "mk_medium w3 = mk_medium w"
    using w2 w1 assms(4) by (simp_all add: w3_def mock_net_def put_mock_def conn_gone_def shaken_def e3_def eng_record_def)
  have "\<not> eng_closed (mk_engine w3)" using w3 assms(2) by (simp add: e3_def eng_record_def)
  moreover have "mock_reaches m (eng_addr ?e) w3"
    using m(1) w3 by (auto simp: mock_reaches_def e3_def eng_record_def split: if_splits)
  ultimately have c: "mock_connect m (eng_addr ?e) w3 = (Inr (mk_next w3), put_mock (mk_next w3) fresh_conn
      ((mk_engine w3)\<lparr>eng_conns := mk_next w3 # eng_conns (mk_engine w3)\<rparr>) (w3\<lparr>mk_next := Suc (mk_next w3)\<rparr>))"
    by (rule mock_connect_open)
  define w4 where "w4 = put_mock (Suc ?k) fresh_conn (e3\<lparr>eng_conns := Suc ?k # eng_conns e3\<rparr>) (w3\<lparr>mk_next := Suc (Suc ?k)\<rparr>)"
  have c2: "nt_connect mock_net m (eng_addr ?e) w3 = (Inr (Suc ?k), w4)"
    using c w3 by (simp add: mock_net_def w4_def)
  have w4: "mk_conn w4 (Suc ?k) = fresh_conn" "mk_engine w4 = e3\<lparr>eng_conns := Suc ?k # eng_conns e3\<rparr>"
    by (simp_all add: w4_def put_mock_def)
  have "length (eng_addr (mk_engine w4)) < 256" using w4 assms(3) by (simp add: e3_def eng_record_def)
  from engine_acks [OF w4(1) assms(7,8,9) this] obtain w5 where
    s: "sendComm mock_net (Suc ?k) cfg w4 = (None, w5)" and w5: "shaken (Suc ?k) (commFrame cfg) w4 w5" by blast
  have "Dial_engine mock_net d cfg w = (Inr (Suc ?k), w5)"
    by (simp add: m(2) two_phase_def c1 r c2 s Let_def flip: w3_def)
  moreover have "mk_engine w5 = ?e\<lparr>eng_conns := Suc ?k # eng_conns ?e,
      eng_frames := eng_frames ?e @ [registrationFrame cfg, commFrame cfg], eng_total := eng_total ?e + 2\<rparr>"
    using w5 w4 by (simp add: shaken_def e3_def eng_record_def)
  ultimately show ?thesis using w5 by (auto simp: shaken_def)
qed

text \<open>
  A dial of an open engine completes: the memory or the socket dialer, on the medium of the engine
  and with its address as the registration socket, returns a new open connection
  with no reply waiting, known to the engine and the only one left of the two opened; the engine has
  received exactly the registration and the comm frame, and its script is untouched. It takes a worker
  number whose byte on the wire is not 0 and a unique id that starts with a byte other than 0, since
  a frame with a second byte 0 is first tried as a request.
\<close>

theorem mock_dial_completes:
  assumes "dials_engine d cfg w" and "\<not> eng_closed (mk_engine w)"
    and "length (eng_addr (mk_engine w)) < 256" and "mk_next w \<notin> set (eng_conns (mk_engine w))"
    and "word_of_int (ec_WorkerID cfg + 1) \<noteq> (0::u8)" and "length (ec_FamilyName cfg) < 256"
    and "UniqueID cfg = x # xs" "x \<noteq> CHR 0x00" "length (UniqueID cfg) < 256"
  shows "\<exists>k w'. Dial_engine mock_net d cfg w = (Inr k, w') \<and>
    mq_replies (mk_conn w' k) = [] \<and> \<not> mq_closed (mk_conn w' k) \<and>
    mk_engine w' = (mk_engine w)\<lparr>eng_conns := k # eng_conns (mk_engine w),
      eng_frames := eng_frames (mk_engine w) @ [registrationFrame cfg, commFrame cfg],
      eng_total := eng_total (mk_engine w) + 2\<rparr>"
  by (rule mock_dials [OF assms])

definition mock_start :: mock_world where
  "mock_start = \<lparr>mk_engine = NewWithListener ''tcp://127.0.0.1:4242'', mk_conn = (\<lambda>k. fresh_conn\<lparr>mq_closed := True\<rparr>),
     mk_next = 0, mk_clock = 0, mk_medium = TCP\<rparr>"

definition mock_cfg :: EngineConfig where
  "mock_cfg = EngineConfig_zero\<lparr>ec_RegistrationSocket := ''127.0.0.1:4242''\<rparr>"

theorem mock_dial_completes_witness:
  "\<exists>k w'. Dial_engine mock_net SocketDialer mock_cfg mock_start = (Inr k, w') \<and>
    eng_total (mk_engine w') = 2 \<and> eng_conns (mk_engine w') = [k]"
proof -
  have id: "UniqueID mock_cfg = CHR ''1'' # []" by code_simp
  have reach: "dials_engine SocketDialer mock_cfg mock_start" by code_simp
  have start: "\<not> eng_closed (mk_engine mock_start)" "length (eng_addr (mk_engine mock_start)) < 256"
      "mk_next mock_start \<notin> set (eng_conns (mk_engine mock_start))"
      "ec_WorkerID mock_cfg = 0" "ec_FamilyName mock_cfg = ''''"
    by (simp_all add: mock_start_def mock_cfg_def NewWithListener_def EngineConfig_zero_def)
  obtain k w' where "Dial_engine mock_net SocketDialer mock_cfg mock_start = (Inr k, w') \<and>
    mq_replies (mk_conn w' k) = [] \<and> \<not> mq_closed (mk_conn w' k) \<and>
    mk_engine w' = (mk_engine mock_start)\<lparr>eng_conns := k # eng_conns (mk_engine mock_start),
      eng_frames := eng_frames (mk_engine mock_start) @ [registrationFrame mock_cfg, commFrame mock_cfg],
      eng_total := eng_total (mk_engine mock_start) + 2\<rparr>"
    using mock_dial_completes [OF reach _ _ _ _ _ id] id start by auto
  then show ?thesis by (auto simp: mock_start_def NewWithListener_def)
qed

text \<open>
  Without a family name the comm frame reads as a registration: the engine, which expects the comm frame
  on the connection of the registration while the dialers open a second one, answers with its path.
\<close>

lemma nameless_comm_as_registration: "classify (commFrame EngineConfig_zero) 0 = FrameRegistration"
proof -
  let ?m = "\<lparr>reg_AttachmentType = 1, reg_WorkerID = 49, reg_WorkersAmount = 0, reg_FamilyName = ''''\<rparr>"
  have id: "UniqueID EngineConfig_zero = ''1''" by code_simp
  have c: "byte_of_char CHR ''1'' = 49" by code_simp
  have z: "le_bytes 4 0 = [0, 0, 0, 0]" by code_simp
  obtain t where f: "commFrame EngineConfig_zero = Registration_Encode ?m @ t"
    by (simp add: commFrame_def id CommData_Encode_def Registration_Encode_def emit_simps w_str8_def w_u8_def
        w_u32_def to_bytes_def c z)
  moreover have "commFrame EngineConfig_zero ! 1 \<noteq> 0"
    by (simp add: f Registration_Encode_def emit_simps w_u8_def)
  moreover have "ParseRegistration (commFrame EngineConfig_zero) = Inr ?m"
    unfolding f by (rule registration.parse_append) (simp add: Registration_wf_def str8_ok_def)
  ultimately show ?thesis by (simp add: classify_no_request)
qed

end
