(* ===== verification/Handler_Config.thy ===== *)
theory Handler_Config
  imports Handler
begin

text \<open>
  The handler's configuration against the configuration type of internal/config it repeats
  (handler.go in both packages), the options nothing reads, and the life of two handlers that share a
  connection, from \<open>Provision\<close> to \<open>Cleanup\<close>.
\<close>

section \<open>The check of compressed bodies\<close>

text \<open>
  \<open>inspectBody\<close>, which no other code calls: the message it logs, if any. The decoders take and return
  readers; an error while decompressing is how the decoded reader ends.
\<close>

datatype inspect_log = EncodingUnsupported body_err | DecompressionFailed read_err

definition inspectBody ::
  "(io_reader \<Rightarrow> string + io_reader) \<Rightarrow> (io_reader \<Rightarrow> string + io_reader) \<Rightarrow> Handler \<Rightarrow> bytes \<Rightarrow> request \<Rightarrow>
   inspect_log option" where
  "inspectBody gunz inflate h raw r =
     (if hn_SkipCompressedBodyInspection h then None
      else
        let enc = Header_Get (hr_Header r) ''Content-Encoding'' in
        if enc = '''' \<or> EqualFold enc ''identity'' then None
        else case OpenRequestBody gunz inflate \<lparr>io_data = raw, io_err = IO_EOF\<rparr> enc of
          Inl e \<Rightarrow> Some (EncodingUnsupported e)
        | Inr dec \<Rightarrow> if io_err dec = IO_EOF then None else Some (DecompressionFailed (io_err dec)))"

section \<open>Two configurations\<close>

text \<open>A \<open>HandlerConfig\<close> with the settings of a handler.\<close>

definition same_config :: "HandlerConfig \<Rightarrow> Handler \<Rightarrow> bool" where
  "same_config c h \<longleftrightarrow> hc_BodyBufferLimit c = hn_BodyBufferLimit h \<and> hc_ResponseBufferLimit c = hn_ResponseBufferLimit h \<and>
     hc_BlockStatusCode c = hn_BlockStatusCode h \<and> hc_Mode c = hn_Mode h \<and> hc_FailOpen c = hn_FailOpen h \<and>
     hc_SkipCompressedBodyInspection c = hn_SkipCompressedBodyInspection h \<and>
     map_of (hc_CustomHeaders c) = hn_CustomHeaders h \<and>
     hc_BlockPageTitle c = hn_BlockPageTitle h \<and> hc_BlockPageBody c = hn_BlockPageBody h"

text \<open>
  The handler validates and fills in its settings as the configuration type of internal/config
  does: the same violations beside those of the engine, in another order, the same defaults, and
  the same posture. Only the page title and text get defaults of the handler's own, and an unset
  \<open>FailOpen\<close> stays unset, which the handler reads as fail-open.
\<close>

theorem handler_config_agrees:
  assumes "same_config c h"
  shows "set (Handler_Validate h) = set (EngineConfig_Validate (hn_Engine h)) \<union> set (HandlerConfig_Validate c) \<and>
    same_config ((HandlerConfig_SetDefaults c)\<lparr>hc_FailOpen := hc_FailOpen c,
        hc_BlockPageTitle := dflt_str DefaultBlockPageTitle (hc_BlockPageTitle c),
        hc_BlockPageBody := dflt_str DefaultBlockPageBody (hc_BlockPageBody c)\<rparr>) (Handler_SetDefaults h) \<and>
    (failClosed (Handler_SetDefaults h) \<longleftrightarrow> hc_FailOpen (HandlerConfig_SetDefaults c) = Some False)"
proof (intro conjI)
  note c = assms [unfolded same_config_def]
  show "set (Handler_Validate h) = set (EngineConfig_Validate (hn_Engine h)) \<union> set (HandlerConfig_Validate c)"
    using c by (auto simp: Handler_Validate_def HandlerConfig_Validate_def positiveErrors_def)
  show "same_config ((HandlerConfig_SetDefaults c)\<lparr>hc_FailOpen := hc_FailOpen c,
        hc_BlockPageTitle := dflt_str DefaultBlockPageTitle (hc_BlockPageTitle c),
        hc_BlockPageBody := dflt_str DefaultBlockPageBody (hc_BlockPageBody c)\<rparr>) (Handler_SetDefaults h)"
    using c by (simp add: same_config_def HandlerConfig_SetDefaults_def Handler_SetDefaults_def)
  show "failClosed (Handler_SetDefaults h) \<longleftrightarrow> hc_FailOpen (HandlerConfig_SetDefaults c) = Some False"
    using c by (auto simp: failClosed_def Handler_SetDefaults_def HandlerConfig_SetDefaults_def dflt_bool_def)
qed

theorem handler_config_agrees_witness:
  "set (Handler_Validate (Handler_zero\<lparr>hn_BodyBufferLimit := 1, hn_ResponseBufferLimit := 1, hn_Mode := ''learn''\<rparr>)) =
     set (EngineConfig_Validate EngineConfig_zero) \<union> {BadStatus 0}"
  using handler_config_agrees [of "HandlerConfig_zero\<lparr>hc_BodyBufferLimit := 1, hc_ResponseBufferLimit := 1, hc_Mode := ''learn''\<rparr>"
      "Handler_zero\<lparr>hn_BodyBufferLimit := 1, hn_ResponseBufferLimit := 1, hn_Mode := ''learn''\<rparr>"]
  by (simp add: same_config_def HandlerConfig_zero_def Handler_zero_def HandlerConfig_Validate_def positiveErrors_def
      Mode_IsValid_def ModePrevent_def ModeLearn_def)

section \<open>Options that nothing reads\<close>

text \<open>
  Two options of the handler have no effect: \<open>SkipCompressedBodyInspection\<close>, since a compressed
  request body is always given to the engine as it was received, and \<open>CustomHeaders\<close>, since a
  block response never carries them.
\<close>

lemma dead_options:
  "ServeHTTP pf gz keys (h\<lparr>hn_SkipCompressedBodyInspection := b, hn_CustomHeaders := m\<rparr>) acquirer origin r c w =
     ServeHTTP pf gz keys h acquirer origin r c w"
proof -
  let ?h = "h\<lparr>hn_SkipCompressedBodyInspection := b, hn_CustomHeaders := m\<rparr>"
  have eqs: "forward pf gz ?h = forward pf gz h" "writeBlock ?h = writeBlock h" "failClosed ?h = failClosed h"
      "hn_Mode ?h = hn_Mode h"
    by (simp_all add: fun_eq_iff forward_def writeBlock_def block_page_def failClosed_def split: option.split)
  show ?thesis unfolding ServeHTTP_def eqs ..
qed

section \<open>Handlers sharing a connection\<close>

lemma dialed_twice:
  assumes "pl_entries p addr = None"
  shows "Pool_Acquire net x addr p w = (case Dial_engine net (pl_dialer p) (pl_cfg p) w of
      (Inl err, w) \<Rightarrow> Some (Inl err, p\<lparr>pl_nexte := Suc (pl_nexte p), pl_entries := (pl_entries p)(addr := None),
          pl_entry := (pl_entry p)(pl_nexte p := \<lparr>pe_refs = 1, pe_conn = None, pe_err = Some err, pe_ready = True\<rparr>)\<rparr>, w)
    | (Inr k, w) \<Rightarrow> Some (Inr (pl_nextc p), p\<lparr>pl_nexte := Suc (pl_nexte p), pl_entries := (pl_entries p)(addr \<mapsto> pl_nexte p),
          pl_entry := (pl_entry p)(pl_nexte p := \<lparr>pe_refs = 1, pe_conn = Some (pl_nextc p), pe_err = None, pe_ready = True\<rparr>),
          pl_nextc := Suc (pl_nextc p),
          pl_conns := (pl_conns p)(pl_nextc p := newConn net (pl_cfg p) (pl_dialer p) addr k)\<rparr>, w))"
  using assms
  by (simp add: Pool_Acquire_def acquire_enter_def acquire_dialed_def set_entry_def Let_def split: prod.split sum.split)

text \<open>
  C38: A handler that was provisioned while the engine was down, which fail-open tolerates, takes down
  the connection of another one: it holds no reference, but its \<open>Cleanup\<close> releases one, and with the
  second handler the only holder that closes the connection under it.
\<close>

theorem cleanup_takes_others_connection:
  assumes "pl_entries p addr = None" and "\<not> failClosed h1"
    and "ec_RegistrationSocket (EngineConfig_SetDefaults (hn_Engine h1)) = addr"
    and "ec_RegistrationSocket (EngineConfig_SetDefaults (hn_Engine h2)) = addr"
    and "Dial_engine net (pl_dialer p) (pl_cfg p) w1 = (Inl err, w2)"
    and "Dial_engine net (pl_dialer p) (pl_cfg p) w3 = (Inr k, w4)"
  shows "\<exists>h1' h2' p1 p2 c. Handler_Provision net h1 p w1 = Some (None, h1', p1, w2) \<and>
    Handler_Provision net h2 p1 w3 = Some (None, h2', p2, w4) \<and>
    pool_ready addr (pl_nexte p1) c p2 \<and> \<not> cn_closed (pl_conns p2 c) \<and>
    (case Handler_Cleanup net h1' p2 w4 of (p3, w5) \<Rightarrow> cn_closed (pl_conns p3 c) \<and> pl_entries p3 addr = None)"
proof -
  note acquire = dialed_twice [where net = net and x = "Some DeadlineExceeded" and addr = addr]
  define p1 where "p1 = p\<lparr>pl_nexte := Suc (pl_nexte p), pl_entries := (pl_entries p)(addr := None),
    pl_entry := (pl_entry p)(pl_nexte p := \<lparr>pe_refs = 1, pe_conn = None, pe_err = Some err, pe_ready = True\<rparr>)\<rparr>"
  define p2 where "p2 = p1\<lparr>pl_nexte := Suc (pl_nexte p1), pl_entries := (pl_entries p1)(addr \<mapsto> pl_nexte p1),
    pl_entry := (pl_entry p1)(pl_nexte p1 := \<lparr>pe_refs = 1, pe_conn = Some (pl_nextc p1), pe_err = None, pe_ready = True\<rparr>),
    pl_nextc := Suc (pl_nextc p1),
    pl_conns := (pl_conns p1)(pl_nextc p1 := newConn net (pl_cfg p1) (pl_dialer p1) addr k)\<rparr>"
  have sock: "ec_RegistrationSocket (hn_Engine (Handler_SetDefaults h1)) = addr"
      "ec_RegistrationSocket (hn_Engine (Handler_SetDefaults h2)) = addr"
    using assms(3,4) by (simp_all add: Handler_SetDefaults_def)
  have open_h1: "\<not> failClosed (Handler_SetDefaults h1)"
    using assms(2) by (simp add: failClosed_def Handler_SetDefaults_def)
  have "Pool_Acquire net (Some DeadlineExceeded) addr p w1 = Some (Inl err, p1, w2)"
    using acquire [OF assms(1), of w1] assms(5) by (simp add: p1_def)
  then have "Handler_Provision net h1 p w1 = Some (None, Handler_SetDefaults h1, p1, w2)"
    using open_h1 by (simp add: Handler_Provision_def sock)
  moreover have "Pool_Acquire net (Some DeadlineExceeded) addr p1 w3 = Some (Inr (pl_nextc p1), p2, w4)"
    using acquire [of p1 w3] assms(6) by (simp add: p1_def p2_def)
  then have "Handler_Provision net h2 p1 w3 = Some (None, Handler_SetDefaults h2, p2, w4)"
    by (simp add: Handler_Provision_def sock)
  moreover have "pool_ready addr (pl_nexte p1) (pl_nextc p1) p2" "\<not> cn_closed (pl_conns p2 (pl_nextc p1))"
    by (simp_all add: pool_ready_def p2_def newConn_def)
  moreover have "case Handler_Cleanup net (Handler_SetDefaults h1) p2 w4 of
      (p3, w5) \<Rightarrow> cn_closed (pl_conns p3 (pl_nextc p1)) \<and> pl_entries p3 addr = None"
    by (simp add: Handler_Cleanup_def Pool_Release_def sock p2_def add_refs_def set_entry_def close_conn_def
        AppConn_Close_def newConn_def Let_def split: prod.split)
  ultimately show ?thesis
    by (intro exI [of _ "Handler_SetDefaults h1"] exI [of _ "Handler_SetDefaults h2"] exI [of _ p1] exI [of _ p2]
        exI [of _ "pl_nextc p1"]) simp
qed

text \<open>A network on which the first dial fails.\<close>

definition late_net :: "(nat, script) net" where
  "late_net = (script_net False)\<lparr>nt_connect := \<lambda>m a w. (case sc_next w of
     0 \<Rightarrow> (Inl (ErrOther ''connection refused''), w\<lparr>sc_next := 1\<rparr>) | Suc n \<Rightarrow> (Inr n, w\<lparr>sc_next := Suc (Suc n)\<rparr>))\<rparr>"

theorem cleanup_takes_others_connection_witness:
  "\<exists>h1' h2' p1 p2 c w w'.
     Handler_Provision late_net default_handler (pool0\<lparr>pl_dialer := SocketDialer\<rparr>) script0 = Some (None, h1', p1, w) \<and>
     Handler_Provision late_net default_handler p1 w = Some (None, h2', p2, w') \<and>
     \<not> cn_closed (pl_conns p2 c) \<and> cn_closed (pl_conns (fst (Handler_Cleanup late_net h1' p2 w')) c)"
proof -
  define p :: "nat Pool" where "p = pool0\<lparr>pl_dialer := SocketDialer\<rparr>"
  obtain err w1 where down: "Dial_engine late_net (pl_dialer p) (pl_cfg p) script0 = (Inl err, w1)" and w1: "w1 = script0\<lparr>sc_next := 1\<rparr>"
    by (simp add: p_def socketDialer_Dial_def late_net_def script0_def)
  obtain k w2 where up: "Dial_engine late_net (pl_dialer p) (pl_cfg p) w1 = (Inr k, w2)"
    by (simp add: p_def w1 socketDialer_Dial_def late_net_def script_net_def script0_def register_def recvSignalPath_def
        sendComm_def recvAck_def script_send_def script_recv_def Let_def)
  have "pl_entries p (ec_RegistrationSocket (EngineConfig_SetDefaults (hn_Engine default_handler))) = None"
      "\<not> failClosed default_handler"
    by (simp_all add: p_def pool0_def NewPool_def failClosed_def default_handler_def Handler_SetDefaults_def Handler_zero_def)
  from cleanup_takes_others_connection [OF this refl refl down up] obtain h1' h2' p1 p2 c where
    "Handler_Provision late_net default_handler p script0 = Some (None, h1', p1, w1)"
    "Handler_Provision late_net default_handler p1 w1 = Some (None, h2', p2, w2)" "\<not> cn_closed (pl_conns p2 c)"
    "case Handler_Cleanup late_net h1' p2 w2 of (p3, w5) \<Rightarrow> cn_closed (pl_conns p3 c) \<and>
       pl_entries p3 (ec_RegistrationSocket (EngineConfig_SetDefaults (hn_Engine default_handler))) = None"
    by (elim exE conjE)
  then show ?thesis unfolding p_def
    by (intro exI [of _ h1'] exI [of _ h2'] exI [of _ p1] exI [of _ p2] exI [of _ c] exI [of _ w1] exI [of _ w2])
      (simp split: prod.splits)
qed

end
