(* ===== verification/Keep_Alive.thy ===== *)
theory Keep_Alive
  imports App_Conn
begin

text \<open>
  The keep-alive loop of internal/app/keepalive.go over a whole life: any sequence of ticks, ends of
  the delay and stops, with the connections it opens tracked (theory Handshake), up to the \<open>Close\<close>
  of the engine connection, which waits for the loop to end.
\<close>

section \<open>One send\<close>

text \<open>The open connections are those of the others and the keep-alive connection, if there is one.\<close>

definition ka_open :: "'k list \<Rightarrow> 'k Conn \<Rightarrow> 'k list" where
  "ka_open ks c = (case cn_kaConn c of None \<Rightarrow> ks | Some k \<Rightarrow> k # ks)"

lemma track_DialKeepAlive:
  "DialKeepAlive (track net) d cfg s = (x, s') \<Longrightarrow> snd s' = (case x of Inr k \<Rightarrow> k # snd s | Inl _ \<Rightarrow> snd s)"
  by (cases d) (auto dest: track_connect)

lemma only_ka:
  "c1 = c\<lparr>cn_kaConn := x\<rparr> \<Longrightarrow> cn_cfg c1 = cn_cfg c \<and> cn_conn c1 = cn_conn c \<and> cn_closed c1 = cn_closed c"
  "c1 = c\<lparr>cn_kaConn := x\<rparr> \<Longrightarrow> c2 = c1\<lparr>cn_kaConn := y\<rparr> \<Longrightarrow> c2 = c\<lparr>cn_kaConn := y\<rparr>"
  by simp_all

lemma keepAliveSend_open:
  assumes "keepAliveSend (track net) c s = (e, c', s')" and "snd s = ka_open ks c"
  shows "snd s' = ka_open ks c' \<and> c' = c\<lparr>cn_kaConn := cn_kaConn c'\<rparr>"
proof -
  let ?frame = "KeepAlive_Encode \<lparr>ka_WorkerID = word_of_int (ec_WorkerID (cn_cfg c)), ka_FamilyName = ec_FamilyName (cn_cfg c)\<rparr>"
  have sending: "snd s' = ka_open ks c' \<and> c' = c\<lparr>cn_kaConn := cn_kaConn c'\<rparr>"
    if s1: "snd s1 = ka # ks" and r: "(case nt_send (track net) ka ?frame s1 of
        (None, w) \<Rightarrow> (None, c1, w) | (Some e, w) \<Rightarrow> (Some e, c1\<lparr>cn_kaConn := None\<rparr>, nt_close (track net) ka w)) = (e, c', s')"
      and c1: "c1 = c\<lparr>cn_kaConn := Some ka\<rparr>" for s1 ka c1
  proof -
    obtain y s2 where y: "nt_send (track net) ka ?frame s1 = (y, s2)"
      by (cases "nt_send (track net) ka ?frame s1")
    with track_send [of net ka ?frame s1] s1 have "snd s2 = ka # ks" by simp
    with r y c1 track_close [of net ka s2] show ?thesis by (cases y) (auto simp: ka_open_def)
  qed
  show ?thesis
  proof (cases "cn_kaConn c")
    case (Some ka)
    then have "c = c\<lparr>cn_kaConn := Some ka\<rparr>" by simp
    with sending [of s ka c] assms Some show ?thesis by (simp add: keepAliveSend_def ka_open_def)
  next
    case None
    obtain x s1 where d: "DialKeepAlive (track net) (cn_dialer c) (cn_cfg c) s = (x, s1)"
      by (cases "DialKeepAlive (track net) (cn_dialer c) (cn_cfg c) s")
    show ?thesis
    proof (cases x)
      case (Inl err)
      with None d assms track_DialKeepAlive [OF d] show ?thesis by (auto simp: keepAliveSend_def ka_open_def)
    next
      case (Inr ka)
      with None assms(2) track_DialKeepAlive [OF d] have "snd s1 = ka # ks" by (simp add: ka_open_def)
      with sending [of s1 ka "c\<lparr>cn_kaConn := Some ka\<rparr>"] None d assms(1) Inr show ?thesis
        by (simp add: keepAliveSend_def)
    qed
  qed
qed

section \<open>Any history\<close>

definition keepAliveLoop_run ::
  "('k, 'w) net \<Rightarrow> ka_event list \<Rightarrow> ka_state \<times> 'k Conn \<times> 'w \<Rightarrow> ka_state \<times> 'k Conn \<times> 'w" where
  "keepAliveLoop_run net evs = fold (keepAliveLoop_step net) evs"

lemma stopped_run: "kl_done s \<Longrightarrow> keepAliveLoop_run net evs (s, c, w) = (s, c, w)"
  by (induction evs) (simp_all add: keepAliveLoop_run_def)

definition ka_paced :: "EngineConfig \<Rightarrow> ka_state \<Rightarrow> bool" where
  "ka_paced cfg s \<longleftrightarrow> 0 \<le> kl_attempt s \<and>
     (\<forall>d. kl_delay s = Some d \<longrightarrow> 1 \<le> kl_attempt s \<and>
       d = min (ms (ec_ReconnectBackoffMaxMs cfg)) (ms (ec_ReconnectBackoffMinMs cfg) * 2 ^ nat (kl_attempt s)))"

lemma keepAliveLoop_keeps:
  assumes "keepAliveLoop_step (track net) ev (s, c, w) = (s', c', w')"
    and "0 < ms (ec_ReconnectBackoffMinMs (cn_cfg c))" and "ms (ec_ReconnectBackoffMaxMs (cn_cfg c)) < 2 ^ 63"
    and "ka_paced (cn_cfg c) s" and "snd w = ka_open ks c"
  shows "ka_paced (cn_cfg c) s' \<and> snd w' = ka_open ks c' \<and> c' = c\<lparr>cn_kaConn := cn_kaConn c'\<rparr>"
proof -
  obtain e c1 w1 where k: "keepAliveSend (track net) c w = (e, c1, w1)" by (metis surj_pair)
  from keepAliveSend_open [OF k assms(5)] have c1: "snd w1 = ka_open ks c1" "c1 = c\<lparr>cn_kaConn := cn_kaConn c1\<rparr>" by blast+
  then have cfg: "cn_cfg c1 = cn_cfg c" using only_ka(1) [OF c1(2)] by blast
  show ?thesis
  proof (cases "kl_done s \<or> ev \<noteq> KaTick \<or> kl_delay s \<noteq> None")
    case True
    with assms show ?thesis by (cases ev) (auto simp: ka_paced_def split: if_splits)
  next
    case False
    with assms k c1 cfg backoff_loop_eq [OF assms(2,3)] show ?thesis
      by (cases e) (auto simp: ka_paced_def Let_def backoffDelay_def)
  qed
qed

lemma keepAliveLoop_run_keeps:
  assumes "keepAliveLoop_run (track net) evs (s, c, w) = (s', c', w')"
    and "0 < ms (ec_ReconnectBackoffMinMs (cn_cfg c))" and "ms (ec_ReconnectBackoffMaxMs (cn_cfg c)) < 2 ^ 63"
    and "ka_paced (cn_cfg c) s" and "snd w = ka_open ks c"
  shows "ka_paced (cn_cfg c) s' \<and> snd w' = ka_open ks c' \<and> c' = c\<lparr>cn_kaConn := cn_kaConn c'\<rparr>"
  using assms
proof (induction evs arbitrary: s c w)
  case (Cons ev evs)
  obtain s1 c1 w1 where st: "keepAliveLoop_step (track net) ev (s, c, w) = (s1, c1, w1)" by (metis surj_pair)
  from keepAliveLoop_keeps [OF st Cons.prems(2-5)]
  have one: "ka_paced (cn_cfg c) s1" "snd w1 = ka_open ks c1" "c1 = c\<lparr>cn_kaConn := cn_kaConn c1\<rparr>" by blast+
  have cfg: "cn_cfg c1 = cn_cfg c" using only_ka(1) [OF one(3)] by blast
  have "keepAliveLoop_run (track net) evs (s1, c1, w1) = (s', c', w')"
    using Cons.prems(1) st by (simp add: keepAliveLoop_run_def)
  from Cons.IH [OF this] one cfg Cons.prems(2,3)
  have two: "ka_paced (cn_cfg c) s'" "snd w' = ka_open ks c'" "c' = c1\<lparr>cn_kaConn := cn_kaConn c'\<rparr>" by simp_all
  moreover have "c' = c\<lparr>cn_kaConn := cn_kaConn c'\<rparr>" by (rule only_ka(2) [OF one(3) two(3)])
  ultimately show ?case using two(1,2) by blast
qed (simp add: keepAliveLoop_run_def)

text \<open>
  C40: Over any history of the loop, started on an open connection, at most one keep-alive connection
  is open, the one the engine connection records, and of the engine connection nothing else changes.
  A delay is only waited for after a failed send and is the backoff delay of the count of failures,
  hence never above the configured maximum. After a stop nothing is sent, dialed or closed any more,
  and the \<open>Close\<close> that follows leaves open exactly what was open before, less the engine connection.
\<close>

theorem keep_alive_life:
  assumes "keepAliveLoop_run (track net) evs (ka_start, c, (w, ks)) = (s, c', (w', ks'))"
    and "cn_kaConn c = None" and "\<not> cn_closed c"
    and "0 < ms (ec_ReconnectBackoffMinMs (cn_cfg c))" and "ms (ec_ReconnectBackoffMaxMs (cn_cfg c)) < 2 ^ 63"
  shows "ks' = (case cn_kaConn c' of None \<Rightarrow> ks | Some k \<Rightarrow> k # ks) \<and> c' = c\<lparr>cn_kaConn := cn_kaConn c'\<rparr> \<and>
    (\<forall>d. kl_delay s = Some d \<longrightarrow> 1 \<le> kl_attempt s \<and> d = min (ms (ec_ReconnectBackoffMaxMs (cn_cfg c)))
       (ms (ec_ReconnectBackoffMinMs (cn_cfg c)) * 2 ^ nat (kl_attempt s))) \<and>
    (\<forall>more. snd (keepAliveLoop_run (track net) (evs @ KaStop # more) (ka_start, c, (w, ks))) = (c', (w', ks'))) \<and>
    snd (snd (AppConn_Close (track net) c' (w', ks'))) = remove1 (cn_conn c) ks"
proof -
  have "ka_paced (cn_cfg c) ka_start" "snd (w, ks) = ka_open ks c"
    using assms(2) by (simp_all add: ka_paced_def ka_start_def ka_open_def)
  from keepAliveLoop_run_keeps [OF assms(1,4,5) this]
  have end_state: "ka_paced (cn_cfg c) s" "ks' = ka_open ks c'" and c': "c' = c\<lparr>cn_kaConn := cn_kaConn c'\<rparr>" by simp_all
  have "cn_closed c' = cn_closed c" "cn_conn c' = cn_conn c" using only_ka(1) [OF c'] by blast+
  with assms(3) end_state(2) track_close [of net]
  have "snd (snd (AppConn_Close (track net) c' (w', ks'))) = remove1 (cn_conn c) ks"
    by (cases "cn_kaConn c'") (auto simp: AppConn_Close_def ka_open_def Let_def)
  moreover have "snd (keepAliveLoop_run (track net) (evs @ KaStop # more) (ka_start, c, (w, ks))) = (c', (w', ks'))" for more
  proof -
    have "keepAliveLoop_run (track net) (evs @ KaStop # more) (ka_start, c, (w, ks)) =
        keepAliveLoop_run (track net) more (keepAliveLoop_step (track net) KaStop (s, c', (w', ks')))"
      using assms(1) by (simp add: keepAliveLoop_run_def)
    then show ?thesis by (simp add: stopped_run)
  qed
  ultimately show ?thesis using end_state c' by (simp add: ka_paced_def ka_open_def)
qed

text \<open>A loop whose sends all fail opens a connection each time and keeps none.\<close>

theorem keep_alive_life_witness:
  "let net = (script_net False)\<lparr>nt_send := \<lambda>k b w. (Some ErrClosed, w)\<rparr>;
       c = example_conn\<lparr>cn_cfg := EngineConfig_SetDefaults EngineConfig_zero\<rparr>
   in case keepAliveLoop_run (track net) [KaTick, KaDelayOver, KaTick] (ka_start, c, (script0, [7])) of
     (s, c', (w', ks')) \<Rightarrow> snd (snd (AppConn_Close (track net) c' (w', ks'))) = remove1 (cn_conn c) [7] \<and>
       (\<forall>d. kl_delay s = Some d \<longrightarrow> d \<le> 5000000000)"
proof -
  define net where "net = (script_net False)\<lparr>nt_send := \<lambda>k b w. (Some ErrClosed, w)\<rparr>"
  define c where "c = example_conn\<lparr>cn_cfg := EngineConfig_SetDefaults EngineConfig_zero\<rparr>"
  obtain s c' w' ks' where r: "keepAliveLoop_run (track net) [KaTick, KaDelayOver, KaTick] (ka_start, c, (script0, [7])) =
      (s, c', (w', ks'))" by (metis surj_pair)
  have "cn_kaConn c = None" "\<not> cn_closed c" "0 < ms (ec_ReconnectBackoffMinMs (cn_cfg c))"
      "ms (ec_ReconnectBackoffMaxMs (cn_cfg c)) = 5000000000"
    by (simp_all add: c_def example_conn_def newConn_def EngineConfig_SetDefaults_def EngineConfig_zero_def
        dflt_int_def config_consts ms_def go_int_id)
  with keep_alive_life [OF r] have "snd (snd (AppConn_Close (track net) c' (w', ks'))) = remove1 (cn_conn c) [7]"
      "\<forall>d. kl_delay s = Some d \<longrightarrow> d \<le> 5000000000"
    by auto
  then show ?thesis unfolding Let_def net_def [symmetric] c_def [symmetric] r prod.case by blast
qed

end
