(* ===== verification/Concurrent.thy ===== *)
theory Concurrent
  imports Policy
begin

text \<open>
  Requests served at the same time over one shared connection (internal/app/conn.go, policy.go). Each
  caller runs \<open>SendRequest\<close>, \<open>await\<close> and the deferred \<open>EndRequest\<close> of \<open>AcquireVerdict\<close>; a step is one
  critical section or one call of the transport by one caller, or a frame of the engine arriving. A
  send, a signal or a receive may fail at any time, which stands for every error of the transport and
  for the end of the wait. The record keeps, beside the connection and the frames waiting on it, the
  frames sent, each with its caller, and all frames received.
\<close>

section \<open>Reacting to a frame\<close>

text \<open>What \<open>await\<close> does with a received frame: return its verdict, drain the ring, or wait on.\<close>

datatype reaction = Deliver Verdict | DrainRing | WaitOn

definition react :: "u32 \<Rightarrow> bytes \<Rightarrow> reaction" where
  "react sid payload = (case own_verdict sid payload of
       Some v \<Rightarrow> if vd_Kind v \<noteq> VerdictInspect then Deliver v else DrainRing
     | None \<Rightarrow> WaitOn)"

text \<open>The loop of the policy is this reaction, repeated: a frame that is not of the session only costs time.\<close>

lemma await_loop_reacts:
  assumes "nt_now net w < deadline" and "AppConn_recv net (Some deadline) c w = (Inr payload, w1)"
  shows "await_loop net poll hold deadline sid c w = (case react sid payload of
      Deliver v \<Rightarrow> Some (Inr v, w1)
    | DrainRing \<Rightarrow> Option.bind (drain net hold sid c w1) (\<lambda>(r, w).
        case r of Some vq \<Rightarrow> Some (Inr vq, w) | None \<Rightarrow> await_loop net poll hold deadline sid c w)
    | WaitOn \<Rightarrow> await_loop net poll hold deadline sid c
        (nt_sleep net (if own_delay sid payload then hold else poll) w1))"
  using assms by (subst await_loop.simps) (simp add: react_def split: option.split)

section \<open>Callers\<close>

datatype caller =
    Arriving
  | Locked
  | Sending u32 "bytes list"
  | Awaiting u32
  | Draining u32
  | Ending u32 "terr + Verdict"
  | Returned u32 "terr + Verdict"

record 'k traffic =
  tf_conn :: "'k Conn"
  tf_sent :: "(nat \<times> bytes) list"
  tf_waiting :: "bytes list"
  tf_received :: "bytes list"
  tf_callers :: "nat \<Rightarrow> caller"

definition set_caller :: "nat \<Rightarrow> caller \<Rightarrow> 'k traffic \<Rightarrow> 'k traffic" where
  "set_caller i x s = s\<lparr>tf_callers := (tf_callers s)(i := x)\<rparr>"

text \<open>
  Sessions of a ring are drained by \<open>RecvQueued\<close>, which other transports do not have; it takes the
  next frame, or ends the draining when there is none.
\<close>

inductive traffic_step ::
  "EngineConfig \<Rightarrow> (nat \<Rightarrow> RequestData) \<Rightarrow> nat \<Rightarrow> 'k traffic \<Rightarrow> 'k traffic \<Rightarrow> bool"
  for cfg :: EngineConfig and reqs :: "nat \<Rightarrow> RequestData" and n :: nat where
  lock: "i < n \<Longrightarrow> tf_callers s i = Arriving \<Longrightarrow> lockFlow (tf_conn s) = Some c \<Longrightarrow>
    traffic_step cfg reqs n s (set_caller i Locked (s\<lparr>tf_conn := c\<rparr>))"
| allocate: "i < n \<Longrightarrow> tf_callers s i = Locked \<Longrightarrow> Allocate (cn_sessions (tf_conn s)) = (sid, a) \<Longrightarrow>
    traffic_step cfg reqs n s (set_caller i (Sending sid (request_frames sid (reqs i)))
      (s\<lparr>tf_conn := (tf_conn s)\<lparr>cn_sessions := a\<rparr>\<rparr>))"
| send: "i < n \<Longrightarrow> tf_callers s i = Sending sid (f # fs) \<Longrightarrow>
    traffic_step cfg reqs n s (set_caller i (Sending sid fs) (s\<lparr>tf_sent := tf_sent s @ [(i, f)]\<rparr>))"
| signal: "i < n \<Longrightarrow> tf_callers s i = Sending sid [] \<Longrightarrow>
    traffic_step cfg reqs n s (set_caller i (Awaiting sid) s)"
| send_fails: "i < n \<Longrightarrow> tf_callers s i = Sending sid fs \<Longrightarrow>
    traffic_step cfg reqs n s (set_caller i (Ending sid (on_error cfg 0 err)) s)"
| arrive: "traffic_step cfg reqs n s (s\<lparr>tf_waiting := tf_waiting s @ [b]\<rparr>)"
| receive: "i < n \<Longrightarrow> tf_callers s i = Awaiting sid \<Longrightarrow> tf_waiting s = b # bs \<Longrightarrow>
    traffic_step cfg reqs n s
      (set_caller i (case react sid b of Deliver v \<Rightarrow> Ending sid (Inr v) | DrainRing \<Rightarrow> Draining sid | WaitOn \<Rightarrow> Awaiting sid)
        (s\<lparr>tf_waiting := bs, tf_received := tf_received s @ [b]\<rparr>))"
| drain_next: "i < n \<Longrightarrow> tf_callers s i = Draining sid \<Longrightarrow> cn_flowSerial (tf_conn s) \<Longrightarrow> tf_waiting s = b # bs \<Longrightarrow>
    traffic_step cfg reqs n s
      (set_caller i (case react sid b of Deliver v \<Rightarrow> Ending sid (Inr v) | _ \<Rightarrow> Draining sid)
        (s\<lparr>tf_waiting := bs, tf_received := tf_received s @ [b]\<rparr>))"
| drained: "i < n \<Longrightarrow> tf_callers s i = Draining sid \<Longrightarrow>
    traffic_step cfg reqs n s (set_caller i (Awaiting sid) s)"
| wait_ends: "i < n \<Longrightarrow> tf_callers s i = Awaiting sid \<Longrightarrow>
    traffic_step cfg reqs n s (set_caller i (Ending sid (on_error cfg sid err)) s)"
| finish: "i < n \<Longrightarrow> tf_callers s i = Ending sid r \<Longrightarrow> EndRequest sid (tf_conn s) = Some c \<Longrightarrow>
    traffic_step cfg reqs n s (set_caller i (Returned sid r) (s\<lparr>tf_conn := c\<rparr>))"

definition traffic0 :: "'k Conn \<Rightarrow> 'k traffic" where
  "traffic0 c = \<lparr>tf_conn = c, tf_sent = [], tf_waiting = [], tf_received = [], tf_callers = (\<lambda>_. Arriving)\<rparr>"

inductive traffic_reach ::
  "EngineConfig \<Rightarrow> (nat \<Rightarrow> RequestData) \<Rightarrow> nat \<Rightarrow> 'k Conn \<Rightarrow> 'k traffic \<Rightarrow> bool"
  for cfg :: EngineConfig and reqs :: "nat \<Rightarrow> RequestData" and n :: nat and c :: "'k Conn" where
  start: "traffic_reach cfg reqs n c (traffic0 c)"
| step: "traffic_reach cfg reqs n c s \<Longrightarrow> traffic_step cfg reqs n s s' \<Longrightarrow> traffic_reach cfg reqs n c s'"

section \<open>Sessions of the callers\<close>

fun session_of :: "caller \<Rightarrow> u32 option" where
  "session_of (Sending sid _) = Some sid"
| "session_of (Awaiting sid) = Some sid"
| "session_of (Draining sid) = Some sid"
| "session_of (Ending sid _) = Some sid"
| "session_of _ = None"

definition holds_lock :: "caller \<Rightarrow> bool" where
  "holds_lock x \<longleftrightarrow> x = Locked \<or> session_of x \<noteq> None"

definition sent_by :: "nat \<Rightarrow> 'k traffic \<Rightarrow> bytes list" where
  "sent_by i s = map snd (filter (\<lambda>x. fst x = i) (tf_sent s))"

text \<open>The ids \<open>A\<close> are in use, after \<open>k\<close> allocations at most.\<close>

definition ids_ok :: "SessionAllocator \<Rightarrow> nat \<Rightarrow> u32 set \<Rightarrow> bool" where
  "ids_ok a k A \<longleftrightarrow> (\<exists>ids. set ids = A \<and> session_inv \<lparr>ss_alloc = a, ss_active = ids, ss_opened = k\<rparr>)"

lemma ids_new: "ids_ok NewSessionAllocator 0 {}"
  using session_inv_init by (auto simp: ids_ok_def sessions_init_def)

lemma ids_allocate:
  assumes "ids_ok a k A" and "Allocate a = (sid, a')" and "Suc k < 2 ^ 31 - 2"
  shows "sid \<notin> A \<and> ids_ok a' (Suc k) (insert sid A)"
proof -
  from assms(1) obtain ids where ids: "set ids = A" "session_inv \<lparr>ss_alloc = a, ss_active = ids, ss_opened = k\<rparr>"
    by (auto simp: ids_ok_def)
  have "session_step \<lparr>ss_alloc = a, ss_active = ids, ss_opened = k\<rparr> Open
      \<lparr>ss_alloc = a', ss_active = sid # ids, ss_opened = Suc k\<rparr>"
    using session_step.allocate [of "\<lparr>ss_alloc = a, ss_active = ids, ss_opened = k\<rparr>" sid a'] assms(2) by simp
  from session_open_inv [OF this ids(2)] assms(3)
  have inv: "session_inv \<lparr>ss_alloc = a', ss_active = sid # ids, ss_opened = Suc k\<rparr>" by simp
  then have "sid \<notin> A" using ids(1) by (simp add: session_inv_def)
  moreover have "ids_ok a' (Suc k) (insert sid A)"
    unfolding ids_ok_def using inv ids(1) by (intro exI [of _ "sid # ids"]) simp
  ultimately show ?thesis by blast
qed

lemma ids_reclaim:
  assumes "ids_ok a k A" and "sid \<in> A"
  shows "ids_ok (Reclaim sid a) k (A - {sid})"
proof -
  from assms(1) obtain ids where ids: "set ids = A" "session_inv \<lparr>ss_alloc = a, ss_active = ids, ss_opened = k\<rparr>"
    by (auto simp: ids_ok_def)
  have "session_step \<lparr>ss_alloc = a, ss_active = ids, ss_opened = k\<rparr> (Finish sid)
      \<lparr>ss_alloc = Reclaim sid a, ss_active = remove1 sid ids, ss_opened = k\<rparr>"
    using session_step.reclaim [of sid "\<lparr>ss_alloc = a, ss_active = ids, ss_opened = k\<rparr>"] assms(2) ids(1) by simp
  from session_finish_inv [OF this ids(2)]
  have "session_inv \<lparr>ss_alloc = Reclaim sid a, ss_active = remove1 sid ids, ss_opened = k\<rparr>" .
  moreover have "set (remove1 sid ids) = A - {sid}" using ids by (auto simp: session_inv_def)
  ultimately show ?thesis unfolding ids_ok_def by blast
qed

section \<open>Invariants\<close>

definition started :: "caller \<Rightarrow> bool" where
  "started x \<longleftrightarrow> x \<noteq> Arriving \<and> x \<noteq> Locked"

text \<open>The sessions of the callers are those the allocator has in use, and no two callers share one.\<close>

definition ids_inv :: "nat \<Rightarrow> 'k traffic \<Rightarrow> bool" where
  "ids_inv n s \<longleftrightarrow>
     ids_ok (cn_sessions (tf_conn s)) (card {i. i < n \<and> started (tf_callers s i)})
       {sid. \<exists>i. session_of (tf_callers s i) = Some sid} \<and>
     (\<forall>i j sid. session_of (tf_callers s i) = Some sid \<longrightarrow> session_of (tf_callers s j) = Some sid \<longrightarrow> i = j)"

text \<open>Steps that change neither the session of a caller nor the allocator.\<close>

lemma ids_inv_same:
  assumes "ids_inv n s" and "cn_sessions (tf_conn s') = cn_sessions (tf_conn s)"
    and "\<And>j. session_of (tf_callers s' j) = session_of (tf_callers s j)"
    and "\<And>j. started (tf_callers s' j) = started (tf_callers s j)"
  shows "ids_inv n s'"
  using assms by (simp add: ids_inv_def)

lemma set_caller_simps [simp]:
  "tf_callers (set_caller i x s) j = (if j = i then x else tf_callers s j)" "tf_conn (set_caller i x s) = tf_conn s"
  "tf_sent (set_caller i x s) = tf_sent s" "tf_waiting (set_caller i x s) = tf_waiting s"
  "tf_received (set_caller i x s) = tf_received s"
  by (simp_all add: set_caller_def)

lemma lock_sessions: "lockFlow c = Some c' \<Longrightarrow> cn_sessions c' = cn_sessions c"
  by (auto simp: lockFlow_def split: if_splits)

lemma ids_inv_step:
  assumes "traffic_step cfg reqs n s s'" and "ids_inv n s" and "n < 2 ^ 31 - 2"
  shows "ids_inv n s'"
  using assms
proof (cases rule: traffic_step.cases)
  case (lock i c)
  then show ?thesis using assms(2) by (elim ids_inv_same) (auto simp: lock_sessions started_def)
next
  case (allocate i sid a)
  let ?S = "{i. i < n \<and> started (tf_callers s i)}" and ?A = "{sid. \<exists>i. session_of (tf_callers s i) = Some sid}"
  have new: "i \<notin> ?S" using allocate by (simp add: started_def)
  have "card (insert i ?S) \<le> card {..<n}" using allocate by (intro card_mono) auto
  with new have "Suc (card ?S) < 2 ^ 31 - 2" using assms(3) by simp
  with ids_allocate [OF _ allocate(4) this] assms(2)
  have ids: "sid \<notin> ?A" "ids_ok a (Suc (card ?S)) (insert sid ?A)" by (auto simp: ids_inv_def)
  have "{j. j < n \<and> started (tf_callers s' j)} = insert i ?S"
    using allocate by (auto simp: started_def)
  with new have "card {j. j < n \<and> started (tf_callers s' j)} = Suc (card ?S)" by simp
  moreover have none: "session_of (tf_callers s i) = None" using allocate by simp
  have "{sid. \<exists>i. session_of (tf_callers s' i) = Some sid} = insert sid ?A"
    using allocate by (auto split: if_splits) (metis none option.distinct(1))
  ultimately show ?thesis using ids assms(2) allocate by (auto simp: ids_inv_def split: if_splits)
next
  case (finish i sid r c)
  let ?A = "{sid. \<exists>i. session_of (tf_callers s i) = Some sid}"
  have "sid \<in> ?A" using finish by (auto intro!: exI [of _ i])
  with ids_reclaim assms(2)
  have "ids_ok (Reclaim sid (cn_sessions (tf_conn s))) (card {i. i < n \<and> started (tf_callers s i)}) (?A - {sid})"
    by (auto simp: ids_inv_def)
  moreover have own: "session_of (tf_callers s i) = Some sid" using finish by simp
  have "{x. \<exists>i. session_of (tf_callers s' i) = Some x} = ?A - {sid}"
    using finish assms(2) by (auto simp: ids_inv_def split: if_splits) (metis own option.inject)+
  moreover have "{j. j < n \<and> started (tf_callers s' j)} = {j. j < n \<and> started (tf_callers s j)}"
    using finish by (auto simp: started_def)
  moreover have "cn_sessions (tf_conn s') = Reclaim sid (cn_sessions (tf_conn s))"
    using finish by (auto simp: EndRequest_def unlockFlow_def split: if_splits)
  ultimately show ?thesis using finish assms(2) by (auto simp: ids_inv_def split: if_splits)
qed (use assms(2) in \<open>elim ids_inv_same; auto simp: started_def split: reaction.split\<close>)+

lemma ids_inv_reach:
  assumes "traffic_reach cfg reqs n c s" and "cn_sessions c = NewSessionAllocator" and "n < 2 ^ 31 - 2"
  shows "ids_inv n s"
  using assms(1)
proof induction
  case start
  then show ?case using assms(2) ids_new by (simp add: ids_inv_def traffic0_def started_def)
next
  case (step s s')
  then show ?case using ids_inv_step assms(3) by blast
qed

text \<open>On a serialised connection the lock is held by the one caller between \<open>lockFlow\<close> and \<open>unlockFlow\<close>.\<close>

definition lock_inv :: "'k Conn \<Rightarrow> 'k traffic \<Rightarrow> bool" where
  "lock_inv c s \<longleftrightarrow> cn_flowSerial (tf_conn s) = cn_flowSerial c \<and>
     (cn_flowSerial c \<longrightarrow> (cn_flowHeld (tf_conn s) \<longleftrightarrow> (\<exists>i. holds_lock (tf_callers s i))) \<and>
       (\<forall>i j. holds_lock (tf_callers s i) \<longrightarrow> holds_lock (tf_callers s j) \<longrightarrow> i = j))"

lemma lock_inv_same:
  assumes "lock_inv c s" and "cn_flowSerial (tf_conn s') = cn_flowSerial (tf_conn s)"
    and "cn_flowHeld (tf_conn s') = cn_flowHeld (tf_conn s)"
    and "\<And>j. holds_lock (tf_callers s' j) = holds_lock (tf_callers s j)"
  shows "lock_inv c s'"
  using assms by (simp add: lock_inv_def)

lemma lock_inv_step:
  assumes "traffic_step cfg reqs n s s'" and "lock_inv c s"
  shows "lock_inv c s'"
  using assms
proof (cases rule: traffic_step.cases)
  case (lock i c')
  then show ?thesis using assms(2)
    by (auto simp: lock_inv_def lockFlow_def holds_lock_def split: if_splits)
next
  case (finish i sid r c')
  have "holds_lock (tf_callers s i)" using finish by (simp add: holds_lock_def)
  then show ?thesis using finish assms(2)
    by (auto simp: lock_inv_def EndRequest_def unlockFlow_def holds_lock_def split: if_splits)
qed (use assms(2) in \<open>elim lock_inv_same; auto simp: holds_lock_def split: reaction.split\<close>)+

lemma lock_inv_reach:
  assumes "traffic_reach cfg reqs n c s" and "\<not> cn_flowHeld c"
  shows "lock_inv c s"
  using assms(1)
proof induction
  case start
  then show ?case using assms(2) by (simp add: lock_inv_def traffic0_def holds_lock_def)
next
  case (step s s')
  then show ?case using lock_inv_step by blast
qed

text \<open>What a caller has sent, and where its result comes from.\<close>

definition result_ok :: "EngineConfig \<Rightarrow> bytes list \<Rightarrow> bytes list \<Rightarrow> bytes list \<Rightarrow> u32 \<Rightarrow> terr + Verdict \<Rightarrow> bool" where
  "result_ok cfg mine all received sid r \<longleftrightarrow> (case r of
       Inl _ \<Rightarrow> \<not> failOpenEnabled cfg
     | Inr v \<Rightarrow> failOpenEnabled cfg \<and> (v = failOpenVerdict 0 \<or> v = failOpenVerdict sid) \<or>
         mine = all \<and> vd_Kind v \<noteq> VerdictInspect \<and> (\<exists>b \<in> set received. own_verdict sid b = Some v))"

fun caller_ok :: "EngineConfig \<Rightarrow> RequestData \<Rightarrow> bytes list \<Rightarrow> bytes list \<Rightarrow> caller \<Rightarrow> bool" where
  "caller_ok cfg req mine received Arriving = (mine = [])"
| "caller_ok cfg req mine received Locked = (mine = [])"
| "caller_ok cfg req mine received (Sending sid fs) = (mine @ fs = request_frames sid req)"
| "caller_ok cfg req mine received (Awaiting sid) = (mine = request_frames sid req)"
| "caller_ok cfg req mine received (Draining sid) = (mine = request_frames sid req)"
| "caller_ok cfg req mine received (Ending sid r) = result_ok cfg mine (request_frames sid req) received sid r"
| "caller_ok cfg req mine received (Returned sid r) = result_ok cfg mine (request_frames sid req) received sid r"

definition frames_inv :: "EngineConfig \<Rightarrow> (nat \<Rightarrow> RequestData) \<Rightarrow> 'k traffic \<Rightarrow> bool" where
  "frames_inv cfg reqs s \<longleftrightarrow> (\<forall>i. caller_ok cfg (reqs i) (sent_by i s) (tf_received s) (tf_callers s i))"

lemma sent_by_simps [simp]:
  "sent_by j (set_caller i x s) = sent_by j s"
  "sent_by j (s\<lparr>tf_conn := c\<rparr>) = sent_by j s" "sent_by j (s\<lparr>tf_waiting := bs\<rparr>) = sent_by j s"
  "sent_by j (s\<lparr>tf_received := bs\<rparr>) = sent_by j s"
  "sent_by j (s\<lparr>tf_sent := tf_sent s @ [(i, f)]\<rparr>) = (if j = i then sent_by j s @ [f] else sent_by j s)"
  by (auto simp: sent_by_def set_caller_def)

lemma result_ok_grows: "result_ok cfg mine all received sid r \<Longrightarrow> result_ok cfg mine all (received @ bs) sid r"
  by (auto simp: result_ok_def split: sum.splits)

lemma result_ok_error: "x = 0 \<or> x = sid \<Longrightarrow> result_ok cfg mine all received sid (on_error cfg x err)"
  by (auto simp: result_ok_def on_error_def)

lemma react_deliver:
  "react sid b = Deliver v \<longleftrightarrow> own_verdict sid b = Some v \<and> vd_Kind v \<noteq> VerdictInspect"
  by (auto simp: react_def split: option.splits)

lemma caller_ok_grows: "caller_ok cfg req mine received x \<Longrightarrow> caller_ok cfg req mine (received @ bs) x"
  by (cases x) (simp_all add: result_ok_grows)

lemma frames_inv_same:
  assumes "frames_inv cfg reqs s" and "\<And>j. j \<noteq> i \<Longrightarrow> tf_callers s' j = tf_callers s j"
    and "\<And>j. j \<noteq> i \<Longrightarrow> sent_by j s' = sent_by j s" and "tf_received s' = tf_received s @ bs"
    and "caller_ok cfg (reqs i) (sent_by i s') (tf_received s') (tf_callers s' i)"
  shows "frames_inv cfg reqs s'"
  unfolding frames_inv_def
proof
  fix j
  show "caller_ok cfg (reqs j) (sent_by j s') (tf_received s') (tf_callers s' j)"
    using assms by (cases "j = i") (simp_all add: frames_inv_def caller_ok_grows)
qed

lemma frames_inv_step:
  assumes "traffic_step cfg reqs n s s'" and "frames_inv cfg reqs s"
  shows "frames_inv cfg reqs s'"
proof -
  have ok: "caller_ok cfg (reqs i) (sent_by i s) (tf_received s) (tf_callers s i)" for i
    using assms(2) by (simp add: frames_inv_def)
  from assms(1) show ?thesis
  proof (cases rule: traffic_step.cases)
    case (lock i c)
    with ok [of i] show ?thesis by (intro frames_inv_same [OF assms(2), of i _ "[]"]) auto
  next
    case (allocate i sid a)
    with ok [of i] show ?thesis by (intro frames_inv_same [OF assms(2), of i _ "[]"]) auto
  next
    case (send i sid f fs)
    with ok [of i] show ?thesis by (intro frames_inv_same [OF assms(2), of i _ "[]"]) auto
  next
    case (signal i sid)
    with ok [of i] show ?thesis by (intro frames_inv_same [OF assms(2), of i _ "[]"]) auto
  next
    case (send_fails i sid fs err)
    then show ?thesis by (intro frames_inv_same [OF assms(2), of i _ "[]"]) (auto intro: result_ok_error)
  next
    case (arrive b)
    then show ?thesis using assms(2) by (simp add: frames_inv_def)
  next
    case (receive i sid b bs)
    with ok [of i] show ?thesis
      by (intro frames_inv_same [OF assms(2), of i _ "[b]"])
        (auto simp: result_ok_def react_deliver split: reaction.split)
  next
    case (drain_next i sid b bs)
    with ok [of i] show ?thesis
      by (intro frames_inv_same [OF assms(2), of i _ "[b]"])
        (auto simp: result_ok_def react_deliver split: reaction.split)
  next
    case (drained i sid)
    with ok [of i] show ?thesis by (intro frames_inv_same [OF assms(2), of i _ "[]"]) auto
  next
    case (wait_ends i sid err)
    then show ?thesis by (intro frames_inv_same [OF assms(2), of i _ "[]"]) (auto intro: result_ok_error)
  next
    case (finish i sid r c)
    with ok [of i] show ?thesis by (intro frames_inv_same [OF assms(2), of i _ "[]"]) auto
  qed
qed

lemma frames_inv_reach:
  assumes "traffic_reach cfg reqs n c s"
  shows "frames_inv cfg reqs s"
  using assms
proof induction
  case start
  then show ?case by (simp add: frames_inv_def traffic0_def sent_by_def)
next
  case (step s s')
  then show ?case using frames_inv_step by blast
qed

section \<open>Runs\<close>

lemma reach_sends:
  assumes "traffic_reach cfg reqs n c s" and "i < n" and "tf_callers s i = Sending sid fs"
  shows "traffic_reach cfg reqs n c (set_caller i (Awaiting sid) (s\<lparr>tf_sent := tf_sent s @ map (Pair i) fs\<rparr>))"
  using assms
proof (induction fs arbitrary: s)
  case Nil
  from traffic_reach.step [OF Nil.prems(1) traffic_step.signal [OF Nil.prems(2,3)]] show ?case by simp
next
  case (Cons f fs)
  from traffic_reach.step [OF Cons.prems(1) traffic_step.send [OF Cons.prems(2,3)]]
  have "traffic_reach cfg reqs n c (set_caller i (Sending sid fs) (s\<lparr>tf_sent := tf_sent s @ [(i, f)]\<rparr>))" .
  from Cons.IH [OF this Cons.prems(2)] show ?case by (simp add: set_caller_def)
qed

text \<open>A caller of a connection that is not serialised opens its session and sends its request.\<close>

lemma reach_request:
  assumes "traffic_reach cfg reqs n c s" and "i < n" and "tf_callers s i = Arriving"
    and "\<not> cn_flowSerial (tf_conn s)" and "Allocate (cn_sessions (tf_conn s)) = (sid, a)"
  shows "traffic_reach cfg reqs n c (set_caller i (Awaiting sid)
    (s\<lparr>tf_conn := (tf_conn s)\<lparr>cn_sessions := a\<rparr>, tf_sent := tf_sent s @ map (Pair i) (request_frames sid (reqs i))\<rparr>))"
proof -
  have "lockFlow (tf_conn s) = Some (tf_conn s)" using assms(4) by (simp add: lockFlow_def)
  from traffic_reach.step [OF assms(1) traffic_step.lock [OF assms(2,3) this]]
  have l: "traffic_reach cfg reqs n c (set_caller i Locked (s\<lparr>tf_conn := tf_conn s\<rparr>))" .
  have "traffic_step cfg reqs n (set_caller i Locked (s\<lparr>tf_conn := tf_conn s\<rparr>))
      (set_caller i (Sending sid (request_frames sid (reqs i)))
        ((set_caller i Locked (s\<lparr>tf_conn := tf_conn s\<rparr>))\<lparr>tf_conn := (tf_conn s)\<lparr>cn_sessions := a\<rparr>\<rparr>))"
    using traffic_step.allocate [OF assms(2), of "set_caller i Locked (s\<lparr>tf_conn := tf_conn s\<rparr>)" sid a cfg reqs] assms(5)
    by simp
  from reach_sends [OF traffic_reach.step [OF l this] assms(2)] show ?thesis
    by (simp add: set_caller_def)
qed

lemma reach_arrives:
  "traffic_reach cfg reqs n c s \<Longrightarrow> traffic_reach cfg reqs n c (s\<lparr>tf_waiting := tf_waiting s @ bs\<rparr>)"
proof (induction bs arbitrary: s)
  case (Cons b bs)
  from Cons.IH [OF traffic_reach.step [OF Cons.prems traffic_step.arrive [of cfg reqs n s b]]] show ?case by simp
qed simp

lemma reach_receives:
  assumes "traffic_reach cfg reqs n c s" and "i < n" and "tf_callers s i = Awaiting sid" and "tf_waiting s = b # bs"
    and "react sid b = x" and "x \<noteq> DrainRing"
  shows "traffic_reach cfg reqs n c (set_caller i (case x of Deliver v \<Rightarrow> Ending sid (Inr v) | _ \<Rightarrow> Awaiting sid)
    (s\<lparr>tf_waiting := bs, tf_received := tf_received s @ [b]\<rparr>))"
  using traffic_reach.step [OF assms(1) traffic_step.receive [OF assms(2-4)]] assms(5,6) by (cases x) auto

lemma reach_finishes:
  assumes "traffic_reach cfg reqs n c s" and "i < n" and "tf_callers s i = Ending sid r" and "\<not> cn_flowSerial (tf_conn s)"
  shows "traffic_reach cfg reqs n c (set_caller i (Returned sid r)
    (s\<lparr>tf_conn := (tf_conn s)\<lparr>cn_sessions := Reclaim sid (cn_sessions (tf_conn s))\<rparr>\<rparr>))"
  by (rule traffic_reach.step [OF assms(1) traffic_step.finish [OF assms(2,3)]])
    (use assms(4) in \<open>simp add: EndRequest_def unlockFlow_def\<close>)

section \<open>Properties\<close>

text \<open>
  C3: Fewer than \<open>2^31 - 2\<close> requests, whose strings fit their length prefixes, served at the same time
  over one connection that starts with a new session allocator and a free flow lock, stay apart,
  however their steps interleave and whatever fails: no two have the same session; on a serialised
  connection at most one is between taking and releasing the flow lock; an error is only returned
  when failing closed; and a verdict that is returned is either the fail-open default, only when
  fail-open is on, or final and comes in a frame received on the connection that names the session
  of the very request for which it is returned, whose frames, and no others, the caller has sent by
  then. Of a caller that gets the default or an error nothing is said about what it has sent.
\<close>

theorem concurrent_requests_isolated:
  assumes "traffic_reach cfg reqs n c s" and "n < 2 ^ 31 - 2"
    and "cn_sessions c = NewSessionAllocator" and "\<not> cn_flowHeld c" and "\<forall>i < n. request_fits (reqs i)"
  shows "(\<forall>i j sid. session_of (tf_callers s i) = Some sid \<longrightarrow> session_of (tf_callers s j) = Some sid \<longrightarrow> i = j) \<and>
    (cn_flowSerial c \<longrightarrow> (\<forall>i j. holds_lock (tf_callers s i) \<longrightarrow> holds_lock (tf_callers s j) \<longrightarrow> i = j)) \<and>
    (\<forall>i < n. \<forall>sid err. tf_callers s i = Returned sid (Inl err) \<longrightarrow> \<not> failOpenEnabled cfg) \<and>
    (\<forall>i < n. \<forall>sid v. tf_callers s i = Returned sid (Inr v) \<longrightarrow>
       failOpenEnabled cfg \<and> (v = failOpenVerdict 0 \<or> v = failOpenVerdict sid) \<or>
       read_request (sent_by i s) = Some (sid, (reqs i)\<lparr>rq_Start := (rq_Start (reqs i))\<lparr>rs_SessionID := sid\<rparr>\<rparr>) \<and>
       vd_SessionID v = sid \<and> vd_Kind v \<noteq> VerdictInspect \<and> (\<exists>b \<in> set (tf_received s). ParseVerdict b = Inr v))"
proof -
  have ids: "ids_inv n s" and lock: "lock_inv c s" and frames: "frames_inv cfg reqs s"
    using ids_inv_reach [OF assms(1,3,2)] lock_inv_reach [OF assms(1,4)] frames_inv_reach [OF assms(1)] by blast+
  have ok: "result_ok cfg (sent_by i s) (request_frames sid (reqs i)) (tf_received s) sid r"
    if "tf_callers s i = Returned sid r" for i sid r
    using frames that by (auto simp: frames_inv_def dest: spec [of _ i])
  have own: "ParseVerdict b = Inr v \<and> vd_SessionID v = sid" if "own_verdict sid b = Some v" for sid b v
    using that by (auto simp: own_verdict_def split: sum.splits if_splits)
  have good: "failOpenEnabled cfg \<and> (v = failOpenVerdict 0 \<or> v = failOpenVerdict sid) \<or>
       read_request (sent_by i s) = Some (sid, (reqs i)\<lparr>rq_Start := (rq_Start (reqs i))\<lparr>rs_SessionID := sid\<rparr>\<rparr>) \<and>
       vd_SessionID v = sid \<and> vd_Kind v \<noteq> VerdictInspect \<and> (\<exists>b \<in> set (tf_received s). ParseVerdict b = Inr v)"
    if "i < n" "tf_callers s i = Returned sid (Inr v)" for i sid v
    using ok [OF that(2)] own assms(5) that(1) read_request_frames [of "reqs i" sid] by (auto simp: result_ok_def)
  have bad: "\<not> failOpenEnabled cfg" if "tf_callers s i = Returned sid (Inl err)" for i sid err
    using ok [OF that] by (simp add: result_ok_def)
  show ?thesis
  proof (intro conjI)
    show "\<forall>i j sid. session_of (tf_callers s i) = Some sid \<longrightarrow> session_of (tf_callers s j) = Some sid \<longrightarrow> i = j"
      using ids by (auto simp: ids_inv_def)
    show "cn_flowSerial c \<longrightarrow> (\<forall>i j. holds_lock (tf_callers s i) \<longrightarrow> holds_lock (tf_callers s j) \<longrightarrow> i = j)"
      using lock by (simp add: lock_inv_def)
  qed (use good bad in blast)+
qed

text \<open>
  C4: On a connection that is not serialised, the in-process or the TCP one, one caller consumes the
  verdict of another: two requests can be in flight, the engine answers both, and the caller of the
  first receives and skips the frame that blocks the second before it gets its own, so the second
  request waits until its time is over and is let through when failing open.
\<close>

theorem verdict_stolen:
  assumes "\<not> cn_flowSerial c" and "cn_sessions c = NewSessionAllocator" and "failOpenEnabled cfg"
    and "own_verdict 3 b = Some v" and "vd_Kind v \<noteq> VerdictInspect"
    and "own_verdict 5 b5 = Some d" and "vd_Kind d = VerdictDrop"
  shows "\<exists>s. traffic_reach cfg reqs 2 c s \<and>
    sent_by 0 s = request_frames 3 (reqs 0) \<and> sent_by 1 s = request_frames 5 (reqs 1) \<and>
    tf_received s = [b5, b] \<and> tf_waiting s = [] \<and>
    tf_callers s 0 = Returned 3 (Inr v) \<and> tf_callers s 1 = Returned 5 (Inr (failOpenVerdict 5))"
proof -
  have other: "own_verdict 3 b5 = None" using assms(6) by (auto simp: own_verdict_def split: sum.splits if_splits)
  define s1 where "s1 = set_caller 0 (Awaiting 3) ((traffic0 c)\<lparr>tf_conn := c\<lparr>cn_sessions := \<lparr>sa_next = 5\<rparr>\<rparr>,
    tf_sent := map (Pair 0) (request_frames 3 (reqs 0))\<rparr>)"
  have r1: "traffic_reach cfg reqs 2 c s1"
    using reach_request [OF traffic_reach.start, of 0 2 c 3 "\<lparr>sa_next = 5\<rparr>" cfg reqs] assms(1,2)
    by (simp add: s1_def traffic0_def NewSessionAllocator_def Allocate_def)
  define s2 where "s2 = set_caller 1 (Awaiting 5) (s1\<lparr>tf_conn := c\<lparr>cn_sessions := \<lparr>sa_next = 7\<rparr>\<rparr>,
    tf_sent := tf_sent s1 @ map (Pair 1) (request_frames 5 (reqs 1))\<rparr>)"
  have r2: "traffic_reach cfg reqs 2 c s2"
    using reach_request [OF r1, of 1 5 "\<lparr>sa_next = 7\<rparr>"] assms(1)
    by (simp add: s1_def s2_def traffic0_def Allocate_def)
  define s3 where "s3 = s2\<lparr>tf_waiting := [b5, b]\<rparr>"
  have r3: "traffic_reach cfg reqs 2 c s3"
    using reach_arrives [OF r2, of "[b5, b]"] by (simp add: s3_def s2_def s1_def traffic0_def)
  define s4 where "s4 = set_caller 0 (Awaiting 3) (s3\<lparr>tf_waiting := [b], tf_received := [b5]\<rparr>)"
  have r4: "traffic_reach cfg reqs 2 c s4"
    using reach_receives [OF r3, of 0 3 b5 "[b]" WaitOn] other
    by (simp add: s4_def s3_def s2_def s1_def traffic0_def react_def)
  define s5 where "s5 = set_caller 0 (Ending 3 (Inr v)) (s4\<lparr>tf_waiting := [], tf_received := [b5, b]\<rparr>)"
  have r5: "traffic_reach cfg reqs 2 c s5"
    using reach_receives [OF r4, of 0 3 b "[]" "Deliver v"] assms(4,5)
    by (simp add: s5_def s4_def react_def)
  define s6 where "s6 = set_caller 1 (Ending 5 (Inr (failOpenVerdict 5))) s5"
  have r6: "traffic_reach cfg reqs 2 c s6"
    using traffic_reach.step [OF r5 traffic_step.wait_ends [where i = 1 and n = 2 and sid = 5 and err = "ErrCtx DeadlineExceeded"]] assms(3)
    by (simp add: s6_def s5_def s4_def s3_def s2_def on_error_def)
  note defs = s6_def s5_def s4_def s3_def s2_def s1_def traffic0_def
  define s7 where "s7 = set_caller 0 (Returned 3 (Inr v)) (s6\<lparr>tf_conn := (tf_conn s6)\<lparr>cn_sessions := Reclaim 3 (cn_sessions (tf_conn s6))\<rparr>\<rparr>)"
  have r7: "traffic_reach cfg reqs 2 c s7"
    unfolding s7_def by (rule reach_finishes [OF r6]) (use assms(1) in \<open>simp_all add: defs\<close>)
  define s8 where "s8 = set_caller 1 (Returned 5 (Inr (failOpenVerdict 5))) (s7\<lparr>tf_conn := (tf_conn s7)\<lparr>cn_sessions := Reclaim 5 (cn_sessions (tf_conn s7))\<rparr>\<rparr>)"
  have r8: "traffic_reach cfg reqs 2 c s8"
    unfolding s8_def by (rule reach_finishes [OF r7]) (use assms(1) in \<open>simp_all add: s7_def defs\<close>)
  show ?thesis
    by (intro exI [of _ s8] conjI r8) (simp_all add: s8_def s7_def defs sent_by_def filter_map comp_def)
qed

section \<open>Witnesses\<close>

text \<open>One request served on a connection of its own, failing closed.\<close>

theorem concurrent_requests_isolated_witness:
  "\<exists>s :: nat traffic. tf_callers s 0 = Returned 3 (Inr (failOpenVerdict 3)) \<and> read_request (sent_by 0 s) =
     Some (3, example_request\<lparr>rq_Start := (rq_Start example_request)\<lparr>rs_SessionID := 3\<rparr>\<rparr>)"
proof -
  let ?c = "example_conn" and ?R = "\<lambda>_ :: nat. example_request"
  have c: "\<not> cn_flowSerial ?c" "cn_sessions ?c = NewSessionAllocator" "\<not> cn_flowHeld ?c"
    by (simp_all add: example_conn_def newConn_def script_net_def)
  define s1 where "s1 = set_caller 0 (Awaiting 3) ((traffic0 ?c)\<lparr>tf_conn := ?c\<lparr>cn_sessions := \<lparr>sa_next = 5\<rparr>\<rparr>,
    tf_sent := map (Pair 0) (request_frames 3 example_request)\<rparr>)"
  have r1: "traffic_reach strict_cfg ?R 1 ?c s1"
    using reach_request [OF traffic_reach.start, of 0 1 ?c 3 "\<lparr>sa_next = 5\<rparr>" strict_cfg ?R] c
    by (simp add: s1_def traffic0_def NewSessionAllocator_def Allocate_def)
  define s2 where "s2 = set_caller 0 (Ending 3 (Inr (failOpenVerdict 3)))
    (s1\<lparr>tf_waiting := [], tf_received := [accept_frame]\<rparr>)"
  have r2: "traffic_reach strict_cfg ?R 1 ?c s2"
    using reach_receives [OF reach_arrives [OF r1, of "[accept_frame]"], of 0 3 accept_frame "[]" "Deliver (failOpenVerdict 3)"]
    by (simp add: s2_def s1_def traffic0_def react_def accepting_frames failOpenVerdict_def go_consts)
  define s3 where "s3 = set_caller 0 (Returned 3 (Inr (failOpenVerdict 3)))
    (s2\<lparr>tf_conn := (tf_conn s2)\<lparr>cn_sessions := Reclaim 3 (cn_sessions (tf_conn s2))\<rparr>\<rparr>)"
  have r3: "traffic_reach strict_cfg ?R 1 ?c s3"
    unfolding s3_def by (rule reach_finishes [OF r2]) (use c in \<open>simp_all add: s2_def s1_def traffic0_def\<close>)
  have closed: "\<not> failOpenEnabled strict_cfg"
    by (simp add: failOpenEnabled_def strict_cfg_def EngineConfig_zero_def)
  have ended: "tf_callers s3 0 = Returned 3 (Inr (failOpenVerdict 3))" by (simp add: s3_def)
  have "\<forall>i<1. \<forall>sid v. tf_callers s3 i = Returned sid (Inr v) \<longrightarrow> failOpenEnabled strict_cfg \<and> (v = failOpenVerdict 0 \<or> v = failOpenVerdict sid) \<or>
      read_request (sent_by i s3) = Some (sid, example_request\<lparr>rq_Start := (rq_Start example_request)\<lparr>rs_SessionID := sid\<rparr>\<rparr>) \<and>
      vd_SessionID v = sid \<and> vd_Kind v \<noteq> VerdictInspect \<and> (\<exists>b \<in> set (tf_received s3). ParseVerdict b = Inr v)"
    using concurrent_requests_isolated [OF r3 _ c(2,3)] example_request_fits by simp
  with closed ended have "read_request (sent_by 0 s3) =
      Some (3, example_request\<lparr>rq_Start := (rq_Start example_request)\<lparr>rs_SessionID := 3\<rparr>\<rparr>)" by auto
  with ended show ?thesis by blast
qed

text \<open>An engine that lets session 3 through and blocks session 5.\<close>

definition drop_frame :: bytes where
  "drop_frame = projr (Verdict_Encode ((failOpenVerdict 5)\<lparr>vd_Kind := VerdictDrop, vd_WebResponse := Some
     \<lparr>wr_Type = WebResponseCodeOnly, wr_StatusCode = 403, wr_Title = '''', wr_Body = '''', wr_UUID = '''',
      wr_RedirectLocation = '''', wr_Headers = []\<rparr>\<rparr>))"

lemma drop_frame_verdict: "map_option vd_Kind (own_verdict 5 drop_frame) = Some VerdictDrop"
  by code_simp

theorem verdict_stolen_witness:
  "\<exists>s. traffic_reach EngineConfig_zero (\<lambda>_. example_request) 2 example_conn s \<and> tf_received s = [drop_frame, accept_frame] \<and>
     tf_callers s 1 = Returned 5 (Inr (failOpenVerdict 5))"
proof -
  obtain d where d: "own_verdict 5 drop_frame = Some d" "vd_Kind d = VerdictDrop"
    using drop_frame_verdict by (cases "own_verdict 5 drop_frame") auto
  have c: "\<not> cn_flowSerial example_conn" "cn_sessions example_conn = NewSessionAllocator" "failOpenEnabled EngineConfig_zero"
      "vd_Kind (failOpenVerdict 3) \<noteq> VerdictInspect"
    by (simp_all add: example_conn_def newConn_def script_net_def failOpenEnabled_def EngineConfig_zero_def
        failOpenVerdict_def go_consts)
  from verdict_stolen [OF c(1-3) accepting_frames(2) c(4) d] show ?thesis by blast
qed

end
