(* ===== verification/Close_Contract.thy ===== *)
theory Close_Contract
  imports Memory Ring_Conn Endpoints
begin

text \<open>
  The \<open>Listener\<close> interface of internal/transport/transport.go as a contract, met by the in-process
  listener and, over a package net that keeps its documentation, by the TCP listener; and what
  closing means across all transports: four kinds of connection (theory Transport has their
  contract) and two kinds of listener.
\<close>

section \<open>Listeners\<close>

text \<open>The operations of a listener; an \<open>Accept\<close> that waits yields \<open>None\<close>.\<close>

datatype listener_call = CallAccept | CallCloseListener

datatype 'c listener_reply = Accepted "(terr + 'c) option" | ClosedListener "terr option"

fun run_listener ::
  "('l \<Rightarrow> 'w \<Rightarrow> (terr + 'c) option \<times> 'w) \<Rightarrow> ('l \<Rightarrow> 'w \<Rightarrow> terr option \<times> 'w) \<Rightarrow>
   'l \<Rightarrow> listener_call list \<Rightarrow> 'w \<Rightarrow> 'c listener_reply list \<times> 'w" where
  "run_listener acceptf closef l [] w = ([], w)"
| "run_listener acceptf closef l (CallAccept # cs) w =
     (let (x, w) = acceptf l w; (rs, w) = run_listener acceptf closef l cs w in (Accepted x # rs, w))"
| "run_listener acceptf closef l (CallCloseListener # cs) w =
     (let (x, w) = closef l w; (rs, w) = run_listener acceptf closef l cs w in (ClosedListener x # rs, w))"

fun closed_listener_reply :: "listener_call \<Rightarrow> 'c listener_reply" where
  "closed_listener_reply CallAccept = Accepted (Some (Inl ErrClosed))"
| "closed_listener_reply CallCloseListener = ClosedListener (Some ErrClosed)"

locale engine_listener =
  fixes is_open :: "'l \<Rightarrow> 'w \<Rightarrow> bool"
    and acceptf :: "'l \<Rightarrow> 'w \<Rightarrow> (terr + 'c) option \<times> 'w"
    and closef :: "'l \<Rightarrow> 'w \<Rightarrow> terr option \<times> 'w"
  assumes accept_closed: "\<not> is_open l w \<Longrightarrow> fst (acceptf l w) = Some (Inl ErrClosed) \<and> \<not> is_open l (snd (acceptf l w))"
    and accept_open: "is_open l w \<Longrightarrow> is_open l (snd (acceptf l w))"
    and close_open: "is_open l w \<Longrightarrow> fst (closef l w) = None \<and> \<not> is_open l (snd (closef l w))"
    and close_closed: "\<not> is_open l w \<Longrightarrow> fst (closef l w) = Some ErrClosed \<and> \<not> is_open l (snd (closef l w))"
begin

lemma listener_calls_closed:
  "\<not> is_open l w \<Longrightarrow> fst (run_listener acceptf closef l cs w) = map closed_listener_reply cs"
proof (induction cs arbitrary: w)
  case (Cons k cs)
  then show ?case
  proof (cases k)
    case CallAccept
    with accept_closed [OF Cons.prems] Cons.IH [of "snd (acceptf l w)"] show ?thesis
      by (auto split: prod.splits)
  next
    case CallCloseListener
    with close_closed [OF Cons.prems] Cons.IH [of "snd (closef l w)"] show ?thesis
      by (auto split: prod.splits)
  qed
qed simp

text \<open>Whatever was accepted before, the first \<open>Close\<close> succeeds and everything after it reports \<open>ErrClosed\<close>.\<close>

lemma listener_closes_once:
  assumes "is_open l w" and "CallCloseListener \<notin> set before"
  shows "\<exists>rs. fst (run_listener acceptf closef l (before @ CallCloseListener # cs) w) =
    rs @ ClosedListener None # map closed_listener_reply cs \<and> length rs = length before"
  using assms
proof (induction before arbitrary: w)
  case Nil
  with close_open [of l w] listener_calls_closed [of l "snd (closef l w)" cs] show ?case
    by (auto split: prod.splits)
next
  case (Cons k before)
  then have k: "k = CallAccept" by (cases k) auto
  with Cons.prems accept_open [of l w] Cons.IH [of "snd (acceptf l w)"] obtain rs where
    "fst (run_listener acceptf closef l (before @ CallCloseListener # cs) (snd (acceptf l w))) =
      rs @ ClosedListener None # map closed_listener_reply cs" "length rs = length before" by auto
  with k show ?case
    by (intro exI [of _ "Accepted (fst (acceptf l w)) # rs"]) (auto split: prod.splits)
qed

end

text \<open>The in-process listener.\<close>

definition mem_listener_open :: "nat \<Rightarrow> mem_world \<Rightarrow> bool" where
  "mem_listener_open l w \<longleftrightarrow> \<not> ml_closed (mw_listener w l)"

interpretation mem_listener: engine_listener mem_listener_open Accept Listener_Close
  by unfold_locales
    (auto simp: mem_listener_open_def Accept_def Listener_Close_def set_listener_def Let_def split: list.split)

text \<open>
  The TCP listener, when the package net does what it documents: a closed listener reports
  \<open>net.ErrClosed\<close>, the first \<open>Close\<close> succeeds, and \<open>Accept\<close> does not close.
\<close>

definition net_closes :: "('l, 'c, 'w) sockets \<Rightarrow> ('l \<Rightarrow> 'w \<Rightarrow> bool) \<Rightarrow> bool" where
  "net_closes so is_open \<longleftrightarrow>
     (\<forall>l w. \<not> is_open l w \<longrightarrow> fst (so_Accept so l w) = Inl NetClosed \<and> \<not> is_open l (snd (so_Accept so l w)) \<and>
        fst (so_Close so l w) = Some NetClosed \<and> \<not> is_open l (snd (so_Close so l w))) \<and>
     (\<forall>l w. is_open l w \<longrightarrow> is_open l (snd (so_Accept so l w)) \<and>
        fst (so_Close so l w) = None \<and> \<not> is_open l (snd (so_Close so l w)))"

lemma socket_Accept_world: "snd (socket_Accept so l w) = snd (so_Accept so l w)"
  by (simp add: socket_Accept_def split: prod.split sum.split)

lemma socket_listener_contract:
  assumes "net_closes so is_open"
  shows "engine_listener is_open (\<lambda>l w. map_prod Some id (socket_Accept so l w)) (socket_Listener_Close so)"
proof
  fix l w
  show "is_open l w \<Longrightarrow> is_open l (snd (map_prod Some id (socket_Accept so l w)))"
    using assms by (simp add: net_closes_def socket_Accept_world)
  show "is_open l w \<Longrightarrow> fst (socket_Listener_Close so l w) = None \<and> \<not> is_open l (snd (socket_Listener_Close so l w))"
    using assms by (auto simp: net_closes_def socket_Listener_Close_def split: prod.splits)
      (metis fst_conv snd_conv)+
  assume "\<not> is_open l w"
  with assms have "fst (so_Accept so l w) = Inl NetClosed" "\<not> is_open l (snd (so_Accept so l w))"
      "fst (so_Close so l w) = Some NetClosed" "\<not> is_open l (snd (so_Close so l w))"
    by (simp_all add: net_closes_def)
  then show "fst (map_prod Some id (socket_Accept so l w)) = Some (Inl ErrClosed) \<and>
        \<not> is_open l (snd (map_prod Some id (socket_Accept so l w)))"
      "fst (socket_Listener_Close so l w) = Some ErrClosed \<and> \<not> is_open l (snd (socket_Listener_Close so l w))"
    by (auto simp: socket_Accept_world) (auto simp: socket_Accept_def socket_Listener_Close_def split: prod.splits)
qed

section \<open>Closing\<close>

text \<open>A closed ring connection checks the size of a payload before it looks whether it is closed.\<close>

fun ring_closed_reply :: "conn_call \<Rightarrow> conn_reply" where
  "ring_closed_reply (CallSend x p) = Sent (Some (Some (if write_fits p then ErrClosed else ErrRing RingTooLarge)))"
| "ring_closed_reply k = closed_reply k"

lemma ring_calls_closed:
  "rc_closed c \<Longrightarrow> fst (run_calls rc_send1 rc_recv1 rc_close1 () cs c) = map ring_closed_reply cs"
proof (induction cs)
  case (Cons k cs)
  then show ?case
    by (cases k) (simp_all add: rc_send1_def rc_recv1_def rc_close1_def RingConn_Send_def RingConn_Close_def
        write_fits_def case_prod_unfold)
qed simp

text \<open>
  C28: Closing is final, on every transport, for calls made one after the other. Once an open connection
  has been closed, every further call on it reports \<open>ErrClosed\<close> whatever its context, with one
  exception: a ring connection reports a payload above the size limit as too large. The first
  \<open>Close\<close> succeeds on the in-process, ring and TCP connections, and on a Unix socket returns what
  closing the socket returns. A listener, the in-process one or a TCP one over a package net that
  keeps its documentation about closing, that is open and has not been closed closes once with
  success after any number of \<open>Accept\<close>s, and every later \<open>Accept\<close> and \<open>Close\<close> reports \<open>ErrClosed\<close>.
\<close>

theorem close_is_final:
  assumes "net_closes so lopen" and "CallCloseListener \<notin> set before"
  shows "(mem_open a mw \<longrightarrow>
      fst (run_calls mem_send Conn_Recv Conn_Close a (CallClose # cs) mw) = Closing None # map closed_reply cs) \<and>
    (\<not> rc_closed rc \<longrightarrow>
      fst (run_calls rc_send1 rc_recv1 rc_close1 () (CallClose # cs) rc) = Closing None # map ring_closed_reply cs) \<and>
    (\<not> sk_closed sk \<longrightarrow>
      fst (run_calls (\<lambda>_ x p c. map_prod Some id (socket_Send (quiet x) p c)) (\<lambda>_ x c. socket_Recv (quiet x) c)
        (\<lambda>_. socket_Close) () (CallClose # cs) sk) = Closing None # map closed_reply cs) \<and>
    (\<not> ux_closed ux \<longrightarrow>
      fst (run_calls (\<lambda>_ x p c. UnixConn_Send x False [Inr (length p)] p c) (\<lambda>_ x c. UnixConn_Recv x False x c)
        (\<lambda>_. UnixConn_Close err) () (CallClose # cs) ux) = Closing (map_option ErrOther err) # map closed_reply cs) \<and>
    (mem_listener_open l mw \<longrightarrow> (\<exists>rs. length rs = length before \<and>
      fst (run_listener Accept Listener_Close l (before @ CallCloseListener # ls) mw) =
        rs @ ClosedListener None # map closed_listener_reply ls)) \<and>
    (lopen k nw \<longrightarrow> (\<exists>rs. length rs = length before \<and>
      fst (run_listener (\<lambda>l w. map_prod Some id (socket_Accept so l w)) (socket_Listener_Close so) k
        (before @ CallCloseListener # ls) nw) = rs @ ClosedListener None # map closed_listener_reply ls))"
proof (intro conjI impI)
  show "fst (run_calls mem_send Conn_Recv Conn_Close a (CallClose # cs) mw) = Closing None # map closed_reply cs"
    if "mem_open a mw" using mem.calls_after_close [OF that] by simp
  show "fst (run_calls rc_send1 rc_recv1 rc_close1 () (CallClose # cs) rc) = Closing None # map ring_closed_reply cs"
    if "\<not> rc_closed rc"
    using ring_calls_closed [of "rc\<lparr>rc_closed := True, rc_comm := False\<rparr>" cs] that
    by (simp add: rc_close1_def RingConn_Close_def case_prod_unfold)
  show "fst (run_calls (\<lambda>_ x p c. map_prod Some id (socket_Send (quiet x) p c)) (\<lambda>_ x c. socket_Recv (quiet x) c)
        (\<lambda>_. socket_Close) () (CallClose # cs) sk) = Closing None # map closed_reply cs"
    if "\<not> sk_closed sk" using socket_conn.calls_after_close [of "()" sk cs] that by (simp add: sk_is_open_def)
  show "fst (run_calls (\<lambda>_ x p c. UnixConn_Send x False [Inr (length p)] p c) (\<lambda>_ x c. UnixConn_Recv x False x c)
        (\<lambda>_. UnixConn_Close err) () (CallClose # cs) ux) = Closing (map_option ErrOther err) # map closed_reply cs"
    if "\<not> ux_closed ux" using unix_conn.calls_after_any_close [of "()" ux cs err] that
    by (simp add: ux_is_open_def UnixConn_Close_def)
  show "\<exists>rs. length rs = length before \<and>
      fst (run_listener Accept Listener_Close l (before @ CallCloseListener # ls) mw) =
        rs @ ClosedListener None # map closed_listener_reply ls"
    if "mem_listener_open l mw" using mem_listener.listener_closes_once [OF that assms(2)] by blast
  show "\<exists>rs. length rs = length before \<and>
      fst (run_listener (\<lambda>l w. map_prod Some id (socket_Accept so l w)) (socket_Listener_Close so) k
        (before @ CallCloseListener # ls) nw) = rs @ ClosedListener None # map closed_listener_reply ls"
    if "lopen k nw"
    using engine_listener.listener_closes_once [OF socket_listener_contract [OF assms(1)] that assms(2)] by blast
qed

text \<open>
  A connection that was dialed in process and not accepted when its listener closes stays open on
  both ends, and nobody can get hold of the end that would answer.
\<close>

lemma pending_dial_orphaned:
  assumes "mem_listener_open l w" and "mem_open a w"
  shows "mem_open a (snd (Listener_Close l w)) \<and>
    Accept l (snd (Listener_Close l w)) = (Some (Inl ErrClosed), snd (Listener_Close l w))"
  using assms by (simp add: mem_listener_open_def mem_open_def Listener_Close_def set_listener_def Accept_def Let_def)

text \<open>A package net with one listener, the world being whether it is open.\<close>

definition closing_net :: "(unit, nat, bool) sockets" where
  "closing_net = \<lparr>so_Listen = (\<lambda>a w. (Inr (), True)), so_Addr = (\<lambda>_. ''127.0.0.1:4242''),
     so_Accept = (\<lambda>_ w. (if w then Inr 0 else Inl NetClosed, w)),
     so_Close = (\<lambda>_ w. (if w then None else Some NetClosed, False)),
     so_Dial = (\<lambda>proto a _ _ w. (Inl (NetFailed ''connection refused''), w))\<rparr>"

theorem close_is_final_witness:
  "\<exists>rs :: nat listener_reply list. length rs = 1 \<and>
     fst (run_listener (\<lambda>l w. map_prod Some id (socket_Accept closing_net l w)) (socket_Listener_Close closing_net) ()
       [CallAccept, CallCloseListener, CallAccept, CallCloseListener] True) =
     rs @ [ClosedListener None, Accepted (Some (Inl ErrClosed)), ClosedListener (Some ErrClosed)]"
proof -
  have "net_closes closing_net (\<lambda>_ w. w)" by (simp add: net_closes_def closing_net_def)
  from close_is_final [OF this, where before = "[CallAccept]" and ls = "[CallAccept, CallCloseListener]" and nw = True]
  show ?thesis by simp
qed

end
