(* ===== verification/Caddyfile_Reads.thy ===== *)
theory Caddyfile_Reads
  imports Caddyfile
begin

text \<open>
  What the parser of the Caddyfile directive reads: a directive written line by line, with nested
  blocks for the engine and the headers, against the settings it writes. The tokens of Caddy's
  dispenser are seen through a view, with one law per use the parser makes of it.
\<close>

section \<open>Tokens on lines\<close>

type_synonym tokens = "(string \<times> nat) list"

definition moved :: "string \<times> nat \<Rightarrow> tokens \<Rightarrow> nat \<Rightarrow> token_state \<Rightarrow> bool" where
  "moved t ts k v \<longleftrightarrow> v = \<lparr>ts_seen = Some t, ts_rest = ts, ts_nesting = k\<rparr>"

definition line_ends :: "nat \<Rightarrow> tokens \<Rightarrow> bool" where
  "line_ends l ts \<longleftrightarrow> (case ts of [] \<Rightarrow> True | (_, l') # _ \<Rightarrow> l' \<noteq> l)"

text \<open>
  The laws: \<open>Next\<close> moves to the next token; \<open>NextArg\<close> moves to the next token of the line unless it is
  an opening brace; \<open>NextBlock n\<close> above nesting \<open>n\<close> moves to the next token, a closing brace at the end
  of a line ending the block; at nesting \<open>n\<close> it enters a block whose brace is on the line, and does
  not enter one that closes at once.
\<close>

locale token_lines =
  fixes d :: "'s dispenser" and view :: "'s \<Rightarrow> token_state"
  assumes Val: "ts_seen (view s) = Some (x, l) \<Longrightarrow> dp_Val d s = x"
    and Next: "ts_rest (view s) = t # ts \<Longrightarrow> \<exists>s'. dp_Next d s = (True, s') \<and> moved t ts (ts_nesting (view s)) (view s')"
    and Next_end: "ts_rest (view s) = [] \<Longrightarrow> \<not> fst (dp_Next d s)"
    and NextArg: "ts_seen (view s) = Some (x, l) \<Longrightarrow> ts_rest (view s) = (y, l) # ts \<Longrightarrow> y \<noteq> ''{'' \<Longrightarrow>
      \<exists>s'. dp_NextArg d s = (True, s') \<and> moved (y, l) ts (ts_nesting (view s)) (view s')"
    and NextBlock_inside: "ts_nesting (view s) > n \<Longrightarrow> ts_rest (view s) = (y, l) # ts \<Longrightarrow> y \<noteq> ''{'' \<Longrightarrow> y \<noteq> ''}'' \<Longrightarrow>
      \<exists>s'. dp_NextBlock d n s = (True, s') \<and> moved (y, l) ts (ts_nesting (view s)) (view s')"
    and NextBlock_closes: "ts_nesting (view s) = Suc n \<Longrightarrow> ts_rest (view s) = (''}'', l) # ts \<Longrightarrow> line_ends l ts \<Longrightarrow>
      \<exists>s'. dp_NextBlock d n s = (False, s') \<and> moved (''}'', l) ts n (view s')"
    and NextBlock_opens: "ts_nesting (view s) \<le> n \<Longrightarrow> ts_seen (view s) = Some (x, l) \<Longrightarrow>
      ts_rest (view s) = (''{'', l) # (y, l') # ts \<Longrightarrow> y \<noteq> ''}'' \<Longrightarrow>
      \<exists>s'. dp_NextBlock d n s = (True, s') \<and> moved (y, l') ts (Suc (ts_nesting (view s))) (view s')"
    and NextBlock_empty: "ts_nesting (view s) \<le> n \<Longrightarrow> ts_seen (view s) = Some (x, l) \<Longrightarrow>
      ts_rest (view s) = (''{'', l) # (''}'', l') # ts \<Longrightarrow>
      \<exists>s'. dp_NextBlock d n s = (False, s') \<and> moved (''}'', l') ts (ts_nesting (view s)) (view s')"

interpretation token_view: token_lines token_dispenser id
  by unfold_locales
    (auto simp: token_dispenser_def tok_NextArg_def tok_NextBlock_def same_line_def moved_def Let_def split: option.splits)

section \<open>Settings\<close>

datatype engine_setting =
    RegistrationSocket string | KeepAlivePath string | VerdictSignalPath string | Transport string
  | FamilyName string | AttachmentType string | LogLevel string
  | WorkerID int | Workers int | KeepAliveIntervalMs int | RegistrationTimeoutMs int
  | ReconnectBackoffMinMs int | ReconnectBackoffMaxMs int | FailOpenTimeoutMs int
  | ReqMaxProcessingMs int | ResMaxProcessingMs int

datatype setting =
    ModeIs string | BodyLimit int | ResponseLimit int | Status int | Title string | Page string
  | FailOpen bool | SkipCompressed bool | EngineIs "engine_setting list" | Headers "(string \<times> string) list"

fun set_engine :: "engine_setting \<Rightarrow> EngineConfig \<Rightarrow> EngineConfig" where
  "set_engine (RegistrationSocket v) c = c\<lparr>ec_RegistrationSocket := v\<rparr>"
| "set_engine (KeepAlivePath v) c = c\<lparr>ec_KeepAlivePath := v\<rparr>"
| "set_engine (VerdictSignalPath v) c = c\<lparr>ec_VerdictSignalPath := v\<rparr>"
| "set_engine (Transport v) c = c\<lparr>ec_Transport := v\<rparr>"
| "set_engine (FamilyName v) c = c\<lparr>ec_FamilyName := v\<rparr>"
| "set_engine (AttachmentType v) c = c\<lparr>ec_AttachmentType := v\<rparr>"
| "set_engine (LogLevel v) c = c\<lparr>ec_LogLevel := v\<rparr>"
| "set_engine (WorkerID n) c = c\<lparr>ec_WorkerID := n\<rparr>"
| "set_engine (Workers n) c = c\<lparr>ec_Workers := n\<rparr>"
| "set_engine (KeepAliveIntervalMs n) c = c\<lparr>ec_KeepAliveIntervalMs := n\<rparr>"
| "set_engine (RegistrationTimeoutMs n) c = c\<lparr>ec_RegistrationTimeoutMs := n\<rparr>"
| "set_engine (ReconnectBackoffMinMs n) c = c\<lparr>ec_ReconnectBackoffMinMs := n\<rparr>"
| "set_engine (ReconnectBackoffMaxMs n) c = c\<lparr>ec_ReconnectBackoffMaxMs := n\<rparr>"
| "set_engine (FailOpenTimeoutMs n) c = c\<lparr>ec_FailOpenTimeoutMs := n\<rparr>"
| "set_engine (ReqMaxProcessingMs n) c = c\<lparr>ec_ReqMaxProcessingMs := n\<rparr>"
| "set_engine (ResMaxProcessingMs n) c = c\<lparr>ec_ResMaxProcessingMs := n\<rparr>"

fun set_handler :: "setting \<Rightarrow> Handler \<Rightarrow> Handler" where
  "set_handler (ModeIs v) h = h\<lparr>hn_Mode := v\<rparr>"
| "set_handler (BodyLimit n) h = h\<lparr>hn_BodyBufferLimit := n\<rparr>"
| "set_handler (ResponseLimit n) h = h\<lparr>hn_ResponseBufferLimit := n\<rparr>"
| "set_handler (Status n) h = h\<lparr>hn_BlockStatusCode := n\<rparr>"
| "set_handler (Title v) h = h\<lparr>hn_BlockPageTitle := v\<rparr>"
| "set_handler (Page v) h = h\<lparr>hn_BlockPageBody := v\<rparr>"
| "set_handler (FailOpen b) h = h\<lparr>hn_FailOpen := Some b\<rparr>"
| "set_handler (SkipCompressed b) h = h\<lparr>hn_SkipCompressedBodyInspection := b\<rparr>"
| "set_handler (EngineIs es) h = h\<lparr>hn_Engine := fold set_engine es (hn_Engine h)\<rparr>"
| "set_handler (Headers kvs) h = h\<lparr>hn_CustomHeaders := hn_CustomHeaders h ++ map_of (rev kvs)\<rparr>"

text \<open>Each setting as it is written: a line of a name and a value, or a block of such lines.\<close>

fun engine_line :: "engine_setting \<Rightarrow> string \<times> string" where
  "engine_line (RegistrationSocket v) = (''registration_socket'', v)"
| "engine_line (KeepAlivePath v) = (''keep_alive_path'', v)"
| "engine_line (VerdictSignalPath v) = (''verdict_signal_path'', v)"
| "engine_line (Transport v) = (''transport'', v)"
| "engine_line (FamilyName v) = (''family_name'', v)"
| "engine_line (AttachmentType v) = (''attachment_type'', v)"
| "engine_line (LogLevel v) = (''log_level'', v)"
| "engine_line (WorkerID n) = (''worker_id'', Itoa n)"
| "engine_line (Workers n) = (''workers'', Itoa n)"
| "engine_line (KeepAliveIntervalMs n) = (''keep_alive_interval_ms'', Itoa n)"
| "engine_line (RegistrationTimeoutMs n) = (''registration_timeout_ms'', Itoa n)"
| "engine_line (ReconnectBackoffMinMs n) = (''reconnect_backoff_min_ms'', Itoa n)"
| "engine_line (ReconnectBackoffMaxMs n) = (''reconnect_backoff_max_ms'', Itoa n)"
| "engine_line (FailOpenTimeoutMs n) = (''fail_open_timeout_ms'', Itoa n)"
| "engine_line (ReqMaxProcessingMs n) = (''req_max_processing_ms'', Itoa n)"
| "engine_line (ResMaxProcessingMs n) = (''res_max_processing_ms'', Itoa n)"

definition bool_text :: "bool \<Rightarrow> string" where
  "bool_text b = (if b then ''true'' else ''false'')"

datatype entry = Line "string \<times> string" | Block string "(string \<times> string) list"

fun written :: "setting \<Rightarrow> entry" where
  "written (ModeIs v) = Line (''mode'', v)"
| "written (BodyLimit n) = Line (''body_buffer_limit'', Itoa n)"
| "written (ResponseLimit n) = Line (''response_buffer_limit'', Itoa n)"
| "written (Status n) = Line (''block_status_code'', Itoa n)"
| "written (Title v) = Line (''block_page_title'', v)"
| "written (Page v) = Line (''block_page_body'', v)"
| "written (FailOpen b) = Line (''fail_open'', bool_text b)"
| "written (SkipCompressed b) = Line (''skip_compressed_body_inspection'', bool_text b)"
| "written (EngineIs es) = Block ''engine'' (map engine_line es)"
| "written (Headers kvs) = Block ''custom_headers'' kvs"

text \<open>The tokens of the lines from line \<open>l\<close> on, the last line of a block being its closing brace.\<close>

fun line_tokens :: "nat \<Rightarrow> (string \<times> string) list \<Rightarrow> tokens" where
  "line_tokens l [] = []"
| "line_tokens l ((k, v) # kvs) = (k, l) # (v, l) # line_tokens (Suc l) kvs"

fun entry_tokens :: "nat \<Rightarrow> entry list \<Rightarrow> tokens" where
  "entry_tokens l [] = [(''}'', l)]"
| "entry_tokens l (Line (k, v) # es) = (k, l) # (v, l) # entry_tokens (Suc l) es"
| "entry_tokens l (Block k kvs # es) =
     (k, l) # (''{'', l) # line_tokens (Suc l) kvs @ (''}'', Suc (l + length kvs)) # entry_tokens (Suc (Suc (l + length kvs))) es"

definition directive_tokens :: "setting list \<Rightarrow> tokens" where
  "directive_tokens sts = (''openappsec'', 1) # (''{'', 1) # entry_tokens 2 (map written sts)"

text \<open>Texts that are no braces, and numbers that an int holds.\<close>

definition word_ok :: "string \<Rightarrow> bool" where
  "word_ok v \<longleftrightarrow> v \<noteq> ''{'' \<and> v \<noteq> ''}''"

definition int_ok :: "int \<Rightarrow> bool" where
  "int_ok n \<longleftrightarrow> 0 \<le> n \<and> n < 2 ^ 63"

fun engine_ok :: "engine_setting \<Rightarrow> bool" where
  "engine_ok (WorkerID n) = int_ok n"
| "engine_ok (Workers n) = int_ok n"
| "engine_ok (KeepAliveIntervalMs n) = int_ok n"
| "engine_ok (RegistrationTimeoutMs n) = int_ok n"
| "engine_ok (ReconnectBackoffMinMs n) = int_ok n"
| "engine_ok (ReconnectBackoffMaxMs n) = int_ok n"
| "engine_ok (FailOpenTimeoutMs n) = int_ok n"
| "engine_ok (ReqMaxProcessingMs n) = int_ok n"
| "engine_ok (ResMaxProcessingMs n) = int_ok n"
| "engine_ok e = word_ok (snd (engine_line e))"

fun setting_ok :: "setting \<Rightarrow> bool" where
  "setting_ok (ModeIs v) = word_ok v"
| "setting_ok (BodyLimit n) = int_ok n"
| "setting_ok (ResponseLimit n) = int_ok n"
| "setting_ok (Status n) = int_ok n"
| "setting_ok (Title v) = word_ok v"
| "setting_ok (Page v) = word_ok v"
| "setting_ok (FailOpen b) = True"
| "setting_ok (SkipCompressed b) = True"
| "setting_ok (EngineIs es) = list_all engine_ok es"
| "setting_ok (Headers kvs) = list_all (\<lambda>(k, v). word_ok k \<and> word_ok v) kvs"

section \<open>Reading them back\<close>

lemma Itoa_word: "int_ok n \<Longrightarrow> word_ok (Itoa n)"
  using Itoa_digits [of n] by (auto simp: int_ok_def word_ok_def digit_def)

lemma Itoa_reads: "int_ok n \<Longrightarrow> ParseInt 64 (Itoa n) = Inr n"
  by (simp add: int_ok_def ParseInt_Itoa)

lemma Itoa_size: "int_ok n \<Longrightarrow> parseSize (Itoa n) = Inr n"
  using parseSize_units [of "''''" 1 "''''" n] by (simp add: int_ok_def)

lemma bool_text_reads: "ParseBool (bool_text b) = Some b" "word_ok (bool_text b)"
  by (simp_all add: bool_text_def ParseBool_def word_ok_def)

lemma engine_line_words:
  "word_ok (fst (engine_line e))" "engine_ok e \<Longrightarrow> word_ok (snd (engine_line e))"
  subgoal by (cases e) (simp_all add: word_ok_def)
  subgoal by (cases e) (simp_all add: Itoa_word)
  done

text \<open>The row of the parser's tables that a setting is read by.\<close>

lemma engine_line_row:
  "engine_ok e \<Longrightarrow> case engine_line e of (x, y) \<Rightarrow>
     (\<exists>f. map_of engine_strings x = Some f \<and> set_engine e c = f y c) \<or>
     (\<exists>f n. map_of engine_strings x = None \<and> map_of engine_ints x = Some f \<and> y = Itoa n \<and> int_ok n \<and> set_engine e c = f n c)"
  by (cases e) (auto simp: engine_strings_def engine_ints_def)

lemma entry_tokens_head: "\<exists>y ts. entry_tokens l es = (y, l) # ts"
  by (cases "(l, es)" rule: entry_tokens.cases) auto

lemma moved_simps:
  "moved t ts k v \<Longrightarrow> ts_seen v = Some t" "moved t ts k v \<Longrightarrow> ts_rest v = ts" "moved t ts k v \<Longrightarrow> ts_nesting v = k"
  by (simp_all add: moved_def)

context token_lines
begin

lemma arg_reads:
  assumes "moved (x, l) ((y, l) # ts) k (view s)" and "word_ok y"
  shows "\<exists>s'. arg d s = (Inr y, s') \<and> moved (y, l) ts k (view s')"
proof -
  from NextArg [OF moved_simps(1,2) [OF assms(1)]] assms obtain s' where
    s': "dp_NextArg d s = (True, s')" "moved (y, l) ts k (view s')" by (auto simp: word_ok_def moved_simps(3))
  with Val [OF moved_simps(1) [OF s'(2)]] show ?thesis by (simp add: arg_def)
qed

lemma intArg_reads:
  assumes "moved (x, l) ((Itoa n, l) # ts) k (view s)" and "int_ok n"
  shows "\<exists>s'. intArg d name s = (Inr n, s') \<and> moved (Itoa n, l) ts k (view s')"
  using arg_reads [OF assms(1) Itoa_word [OF assms(2)]] Itoa_reads [OF assms(2)] by (auto simp: intArg_def)

lemma sizeArg_reads:
  assumes "moved (x, l) ((Itoa n, l) # ts) k (view s)" and "int_ok n"
  shows "\<exists>s'. sizeArg d s = (Inr n, s') \<and> moved (Itoa n, l) ts k (view s')"
  using arg_reads [OF assms(1) Itoa_word [OF assms(2)]] Itoa_size [OF assms(2)] by (auto simp: sizeArg_def)

lemma boolArg_reads:
  assumes "moved (x, l) ((bool_text b, l) # ts) k (view s)"
  shows "\<exists>s'. boolArg d name s = (Inr b, s') \<and> moved (bool_text b, l) ts k (view s')"
  using arg_reads [OF assms bool_text_reads(2)] bool_text_reads(1) [of b] by (auto simp: boolArg_def)

lemma set_arg_reads:
  "\<exists>s'. x = (Inr v, s') \<and> P s' \<Longrightarrow> \<exists>s'. set_arg f c x = (Inr (f v c), s') \<and> P s'"
  by (auto simp: set_arg_def)

lemma engine_option_reads:
  assumes "moved (fst (engine_line e), l) ((snd (engine_line e), l) # ts) k (view s)" and "engine_ok e"
  shows "\<exists>s'. engine_option d c s = (Inr (set_engine e c), s') \<and> moved (snd (engine_line e), l) ts k (view s')"
proof -
  obtain x y where xy: "engine_line e = (x, y)" by (cases "engine_line e")
  have m: "moved (x, l) ((y, l) # ts) k (view s)" using assms(1) xy by simp
  have v: "dp_Val d s = x" using Val [OF moved_simps(1) [OF m]] .
  have row: "(\<exists>f. map_of engine_strings x = Some f \<and> set_engine e c = f y c) \<or>
     (\<exists>f n. map_of engine_strings x = None \<and> map_of engine_ints x = Some f \<and> y = Itoa n \<and> int_ok n \<and> set_engine e c = f n c)"
    using engine_line_row [OF assms(2), of c] xy by simp
  have w: "word_ok y" using engine_line_words(2) [OF assms(2)] xy by simp
  from row show ?thesis
  proof (elim disjE exE conjE)
    fix f assume f: "map_of engine_strings x = Some f" "set_engine e c = f y c"
    show ?thesis using set_arg_reads [OF arg_reads [OF m w], of f c] f xy v by (simp add: engine_option_def)
  next
    fix f n assume f: "map_of engine_strings x = None" "map_of engine_ints x = Some f" "y = Itoa n" "int_ok n"
      "set_engine e c = f n c"
    show ?thesis using set_arg_reads [OF intArg_reads [OF m [unfolded f(3)] f(4), of x], of f c] f xy v
      by (simp add: engine_option_def)
  qed
qed

text \<open>What \<open>NextBlock n\<close> does next: it moves to the first of the tokens \<open>ts\<close>, which may end the block.\<close>

definition enters :: "nat \<Rightarrow> tokens \<Rightarrow> 's \<Rightarrow> bool" where
  "enters n ts s \<longleftrightarrow> (case ts of [] \<Rightarrow> False
     | (y, l) # rest \<Rightarrow>
         if y = ''}'' then \<exists>s'. dp_NextBlock d n s = (False, s') \<and> moved (y, l) rest n (view s')
         else \<exists>s'. dp_NextBlock d n s = (True, s') \<and> moved (y, l) rest (Suc n) (view s'))"

lemma enters_inside:
  assumes "moved t ((y, l) # ts) (Suc n) (view s)" and "y \<noteq> ''{''" and "y = ''}'' \<Longrightarrow> line_ends l ts"
  shows "enters n ((y, l) # ts) s"
  using assms NextBlock_closes [of s n l ts] NextBlock_inside [of n s y l ts]
  by (auto simp: enters_def moved_simps)

lemma enters_open:
  assumes "moved (x, l) ((''{'', l) # (y, l') # ts) n (view s)"
  shows "enters n ((y, l') # ts) s"
  using assms NextBlock_opens [of s n x l y l' ts] NextBlock_empty [of s n x l l' ts]
  by (auto simp: enters_def moved_simps)

lemma enters_lines:
  assumes "moved t (line_tokens l kvs @ (''}'', l') # ts) 2 (view s)" and "list_all (\<lambda>kv. word_ok (fst kv)) kvs" and "line_ends l' ts"
  shows "enters 1 (line_tokens l kvs @ (''}'', l') # ts) s"
proof (cases kvs)
  case Nil
  with assms enters_inside [of t "''}''" l' ts 1 s] show ?thesis by (simp add: numeral_2_eq_2)
next
  case (Cons kv kvs')
  with assms enters_inside [of t "fst kv" l "(snd kv, l) # line_tokens (Suc l) kvs' @ (''}'', l') # ts" 1 s]
  show ?thesis by (cases kv) (auto simp: numeral_2_eq_2 word_ok_def)
qed

lemma enters_lines_open:
  assumes "moved (x, l) ((''{'', l) # line_tokens m kvs @ (''}'', l') # ts) n (view s)"
  shows "enters n (line_tokens m kvs @ (''}'', l') # ts) s"
  using assms by (cases "(m, kvs)" rule: line_tokens.cases) (auto intro: enters_open)

lemma enters_line:
  assumes "enters 1 ((k, l) # ts) s" and "word_ok k"
  shows "\<exists>s'. dp_NextBlock d 1 s = (True, s') \<and> moved (k, l) ts 2 (view s') \<and> dp_Val d s' = k"
  using assms Val by (auto simp: enters_def word_ok_def numeral_2_eq_2 moved_simps(1))

lemma engine_block_reads:
  assumes "enters 1 (line_tokens l (map engine_line es) @ (''}'', l') # ts) s" and "line_ends l' ts"
    and "list_all engine_ok es"
  shows "\<exists>s'. parseEngineBlock d c s = Some (Inr (fold set_engine es c), s') \<and> moved (''}'', l') ts 1 (view s')"
  using assms
proof (induction es arbitrary: l c s)
  case Nil
  then show ?case by (subst parseEngineBlock.simps) (auto simp: enters_def)
next
  case (Cons e es)
  obtain k v where kv: "engine_line e = (k, v)" by (cases "engine_line e")
  let ?rest = "line_tokens (Suc l) (map engine_line es) @ (''}'', l') # ts"
  obtain s1 where s1: "dp_NextBlock d 1 s = (True, s1)" "moved (k, l) ((v, l) # ?rest) 2 (view s1)"
    using enters_line [of k l "(v, l) # ?rest" s] Cons.prems(1) engine_line_words(1) [of e] kv by auto
  obtain s2 where s2: "engine_option d c s1 = (Inr (set_engine e c), s2)" "moved (v, l) ?rest 2 (view s2)"
    using engine_option_reads [of e l ?rest 2 s1 c] s1(2) kv Cons.prems(3) by auto
  have "list_all (\<lambda>kv. word_ok (fst kv)) (map engine_line es)" by (simp add: list_all_iff engine_line_words(1))
  from Cons.IH [OF enters_lines [OF s2(2) this Cons.prems(2)] Cons.prems(2)] Cons.prems(3) s1 s2 show ?case
    by (subst parseEngineBlock.simps) simp
qed

lemma headers_read:
  assumes "enters 1 (line_tokens l kvs @ (''}'', l') # ts) s" and "line_ends l' ts"
    and "list_all (\<lambda>(k, v). word_ok k \<and> word_ok v) kvs"
  shows "\<exists>s'. parseCustomHeaders d m s = Some (Inr (m ++ map_of (rev kvs)), s') \<and> moved (''}'', l') ts 1 (view s')"
  using assms
proof (induction kvs arbitrary: l m s)
  case Nil
  then show ?case by (subst parseCustomHeaders.simps) (auto simp: enters_def)
next
  case (Cons kv kvs)
  obtain k v where kv: "kv = (k, v)" by (cases kv)
  let ?rest = "line_tokens (Suc l) kvs @ (''}'', l') # ts"
  have w: "word_ok k" "word_ok v" using Cons.prems(3) kv by simp_all
  obtain s1 where s1: "dp_NextBlock d 1 s = (True, s1)" "moved (k, l) ((v, l) # ?rest) 2 (view s1)" "dp_Val d s1 = k"
    using enters_line [of k l "(v, l) # ?rest" s] Cons.prems(1) w kv by auto
  obtain s2 where s2: "arg d s1 = (Inr v, s2)" "moved (v, l) ?rest 2 (view s2)"
    using arg_reads [OF s1(2) w(2)] by auto
  have "list_all (\<lambda>kv. word_ok (fst kv)) kvs" using Cons.prems(3) by (auto simp: list_all_iff)
  moreover have "list_all (\<lambda>(k, v). word_ok k \<and> word_ok v) kvs" using Cons.prems(3) by simp
  ultimately obtain s3 where s3: "parseCustomHeaders d (m(k \<mapsto> v)) s2 = Some (Inr (m(k \<mapsto> v) ++ map_of (rev kvs)), s3)"
      "moved (''}'', l') ts 1 (view s3)"
    using Cons.IH [OF enters_lines [OF s2(2) _ Cons.prems(2)] Cons.prems(2), of "m(k \<mapsto> v)"] by blast
  have "m ++ map_of (rev (kv # kvs)) = m(k \<mapsto> v) ++ map_of (rev kvs)"
    by (simp add: kv map_of_append map_add_assoc)
  moreover have "parseCustomHeaders d m s = parseCustomHeaders d (m(k \<mapsto> v)) s2"
    using s1 s2 by (subst parseCustomHeaders.simps) simp
  ultimately show ?case using s3 by simp
qed

text \<open>One entry of the directive, read up to the next.\<close>

definition reads_entry :: "setting \<Rightarrow> Handler \<Rightarrow> tokens \<Rightarrow> 's \<Rightarrow> bool" where
  "reads_entry st h ts s \<longleftrightarrow> (\<exists>t s'. handler_option d h s = Some (Inr (set_handler st h), s') \<and> moved t ts 1 (view s'))"

lemma reads_line:
  assumes "handler_option d h s = Some (set_arg f h x)" and "\<exists>s'. x = (Inr v, s') \<and> moved t ts 1 (view s')"
    and "set_handler st h = f v h"
  shows "reads_entry st h ts s"
proof -
  obtain s' where "set_arg f h x = (Inr (f v h), s')" "moved t ts 1 (view s')"
    using set_arg_reads [OF assms(2), of f h] by blast
  with assms(1,3) show ?thesis unfolding reads_entry_def by (intro exI [of _ t] exI [of _ s']) simp
qed

lemma handler_line_reads:
  assumes "written st = Line (x, y)" and "moved (x, l) ((y, l) # ts) 1 (view s)" and "setting_ok st"
  shows "reads_entry st h ts s"
proof -
  have v: "dp_Val d s = x" using Val [OF moved_simps(1) [OF assms(2)]] .
  note m = assms(2)
  show ?thesis
  proof (cases st)
    case (ModeIs a)
    with assms(1) have xy: "x = ''mode''" "y = a" by simp_all
    from ModeIs assms(3) v show ?thesis
      by (intro reads_line [OF _ arg_reads [OF m [unfolded xy]]]) (simp_all add: handler_option_def xy)
  next
    case (BodyLimit n)
    with assms(1) have xy: "x = ''body_buffer_limit''" "y = Itoa n" by simp_all
    from BodyLimit assms(3) v show ?thesis
      by (intro reads_line [OF _ sizeArg_reads [OF m [unfolded xy]]]) (simp_all add: handler_option_def xy)
  next
    case (ResponseLimit n)
    with assms(1) have xy: "x = ''response_buffer_limit''" "y = Itoa n" by simp_all
    from ResponseLimit assms(3) v show ?thesis
      by (intro reads_line [OF _ sizeArg_reads [OF m [unfolded xy]]]) (simp_all add: handler_option_def xy)
  next
    case (Status n)
    with assms(1) have xy: "x = ''block_status_code''" "y = Itoa n" by simp_all
    from Status assms(3) v show ?thesis
      by (intro reads_line [OF _ intArg_reads [OF m [unfolded xy]]]) (simp_all add: handler_option_def xy)
  next
    case (Title a)
    with assms(1) have xy: "x = ''block_page_title''" "y = a" by simp_all
    from Title assms(3) v show ?thesis
      by (intro reads_line [OF _ arg_reads [OF m [unfolded xy]]]) (simp_all add: handler_option_def xy)
  next
    case (Page a)
    with assms(1) have xy: "x = ''block_page_body''" "y = a" by simp_all
    from Page assms(3) v show ?thesis
      by (intro reads_line [OF _ arg_reads [OF m [unfolded xy]]]) (simp_all add: handler_option_def xy)
  next
    case (FailOpen b)
    with assms(1) have xy: "x = ''fail_open''" "y = bool_text b" by simp_all
    from FailOpen assms(3) v show ?thesis
      by (intro reads_line [OF _ boolArg_reads [OF m [unfolded xy]]]) (simp_all add: handler_option_def xy)
  next
    case (SkipCompressed b)
    with assms(1) have xy: "x = ''skip_compressed_body_inspection''" "y = bool_text b" by simp_all
    from SkipCompressed assms(3) v show ?thesis
      by (intro reads_line [OF _ boolArg_reads [OF m [unfolded xy]]]) (simp_all add: handler_option_def xy)
  qed (use assms in auto)
qed

lemma handler_block_reads:
  assumes "written st = Block x kvs" and "line_ends l' ts" and "setting_ok st"
    and "moved (x, l) ((''{'', l) # line_tokens (Suc l) kvs @ (''}'', l') # ts) 1 (view s)"
  shows "reads_entry st h ts s"
proof -
  have v: "dp_Val d s = x" using Val [OF moved_simps(1) [OF assms(4)]] .
  note e = enters_lines_open [OF assms(4)]
  show ?thesis
  proof (cases st)
    case (EngineIs es)
    with assms(1) have xy: "x = ''engine''" "kvs = map engine_line es" by simp_all
    have "list_all engine_ok es" using assms(3) EngineIs by simp
    from engine_block_reads [OF e [unfolded xy] assms(2) this, of "hn_Engine h"] obtain s' where
      "parseEngineBlock d (hn_Engine h) s = Some (Inr (fold set_engine es (hn_Engine h)), s')"
      "moved (''}'', l') ts 1 (view s')" by blast
    with EngineIs v show ?thesis unfolding reads_entry_def
      by (intro exI [of _ "(''}'', l')"] exI [of _ s']) (simp add: handler_option_def xy set_arg_def)
  next
    case (Headers hs)
    with assms(1) have xy: "x = ''custom_headers''" "kvs = hs" by simp_all
    have "list_all (\<lambda>(k, v). word_ok k \<and> word_ok v) hs" using assms(3) Headers by simp
    from headers_read [OF e [unfolded xy] assms(2) this, of "hn_CustomHeaders h"] obtain s' where
      "parseCustomHeaders d (hn_CustomHeaders h) s = Some (Inr (hn_CustomHeaders h ++ map_of (rev hs)), s')"
      "moved (''}'', l') ts 1 (view s')" by blast
    with Headers v show ?thesis unfolding reads_entry_def
      by (intro exI [of _ "(''}'', l')"] exI [of _ s']) (simp add: handler_option_def xy set_arg_def)
  qed (use assms in auto)
qed

lemma entry_reads:
  assumes "entry_tokens l (written st # es) = (x, l) # ts" and "moved (x, l) ts 1 (view s)" and "setting_ok st"
  shows "\<exists>l'. reads_entry st h (entry_tokens l' es) s"
proof (cases "written st")
  case (Line kv)
  with assms show ?thesis by (cases kv) (auto intro!: handler_line_reads)
next
  case (Block k kvs)
  let ?l = "Suc (Suc (l + length kvs))"
  have "line_ends (Suc (l + length kvs)) (entry_tokens ?l es)"
    using entry_tokens_head [of ?l es] by (auto simp: line_ends_def)
  from handler_block_reads [OF Block this assms(3)] assms Block show ?thesis by auto
qed

lemma entry_name: "\<exists>x ts. entry_tokens l (written st # es) = (x, l) # ts \<and> word_ok x"
  by (cases st) (auto simp: word_ok_def)

lemma enters_entries:
  assumes "moved t (entry_tokens l (map written sts)) 1 (view s)"
  shows "enters 0 (entry_tokens l (map written sts)) s"
proof (cases sts)
  case Nil
  with assms enters_inside [of t "''}''" l "[]" 0 s] show ?thesis by (simp add: line_ends_def)
next
  case (Cons st sts')
  obtain x ts where "entry_tokens l (written st # map written sts') = (x, l) # ts" "word_ok x" using entry_name by blast
  with assms Cons enters_inside [of t x l ts 0 s] show ?thesis by (simp add: word_ok_def)
qed

lemma block_reads:
  assumes "enters 0 (entry_tokens l (map written sts)) s" and "list_all setting_ok sts"
  shows "\<exists>s'. parse_block d h s = Some (Inr (fold set_handler sts h), s') \<and> ts_rest (view s') = []"
  using assms
proof (induction sts arbitrary: l h s)
  case Nil
  then show ?case by (subst parse_block.simps) (auto simp: enters_def moved_simps)
next
  case (Cons st sts)
  obtain x ts where x: "entry_tokens l (written st # map written sts) = (x, l) # ts" "word_ok x" using entry_name by blast
  with Cons.prems(1) obtain s1 where s1: "dp_NextBlock d 0 s = (True, s1)" "moved (x, l) ts 1 (view s1)"
    by (auto simp: enters_def word_ok_def)
  from entry_reads [OF x(1) s1(2), of h] Cons.prems(2) obtain l' t s2 where
    s2: "handler_option d h s1 = Some (Inr (set_handler st h), s2)" "moved t (entry_tokens l' (map written sts)) 1 (view s2)"
    by (auto simp: reads_entry_def)
  from Cons.IH [OF enters_entries [OF s2(2)], of "set_handler st h"] Cons.prems(2) obtain s3 where
    "parse_block d (set_handler st h) s2 = Some (Inr (fold set_handler sts (set_handler st h)), s3)" "ts_rest (view s3) = []"
    by auto
  with s1 s2 show ?case by (subst parse_block.simps) simp
qed

lemma directive_reads:
  assumes "view s = \<lparr>ts_seen = None, ts_rest = directive_tokens sts, ts_nesting = 0\<rparr>" and "list_all setting_ok sts"
  shows "\<exists>s'. parseCaddyfile d s = Some (Inr (Handler_SetDefaults (fold set_handler sts Handler_zero)), s')"
proof -
  let ?ts = "entry_tokens 2 (map written sts)"
  obtain s1 where s1: "dp_Next d s = (True, s1)" "moved (''openappsec'', 1) ((''{'', 1) # ?ts) 0 (view s1)"
    using Next [of s "(''openappsec'', 1)" "(''{'', 1) # ?ts"] assms(1) by (auto simp: directive_tokens_def)
  have "enters 0 ?ts s1"
    using entry_tokens_head [of 2 "map written sts"] s1(2) enters_open by fastforce
  from block_reads [OF this assms(2), of Handler_zero] obtain s2 where
    s2: "parse_block d Handler_zero s1 = Some (Inr (fold set_handler sts Handler_zero), s2)" "ts_rest (view s2) = []" by blast
  obtain s3 where s3: "dp_Next d s2 = (False, s3)" using Next_end [OF s2(2)] by (cases "dp_Next d s2") simp
  have "parse_directives d (fold set_handler sts Handler_zero) s2 = Some (Inr (fold set_handler sts Handler_zero), s3)"
    by (subst parse_directives.simps) (simp add: s3)
  with s1 s2 have "parse_directives d Handler_zero s = Some (Inr (fold set_handler sts Handler_zero), s3)"
    by (subst parse_directives.simps) simp
  then show ?thesis by (simp add: parseCaddyfile_def)
qed

end

section \<open>Property\<close>

text \<open>
  C21: a directive is read back as the settings it writes: for any sequence of options, repeated ones
  included, written one to a line with the engine and the headers as blocks, the parser returns the
  handler that these settings, applied in their order, and then the defaults give.
\<close>

theorem caddyfile_reads_settings:
  assumes "token_lines d view" and "list_all setting_ok sts"
    and "view s = \<lparr>ts_seen = None, ts_rest = directive_tokens sts, ts_nesting = 0\<rparr>"
  shows "\<exists>s'. parseCaddyfile d s = Some (Inr (Handler_SetDefaults (fold set_handler sts Handler_zero)), s')"
  by (rule token_lines.directive_reads [OF assms(1,3,2)])

text \<open>A directive with both blocks, one of them written twice.\<close>

definition example_settings :: "setting list" where
  "example_settings = [ModeIs ''inline'', EngineIs [WorkerID 3, Transport ''memory''], Headers [(''X-WAF'', ''on'')],
     Status 451, EngineIs [WorkerID 4], FailOpen False]"

theorem caddyfile_reads_settings_witness:
  "\<exists>h s'. parseCaddyfile token_dispenser \<lparr>ts_seen = None, ts_rest = directive_tokens example_settings, ts_nesting = 0\<rparr> =
     Some (Inr h, s') \<and> ec_WorkerID (hn_Engine h) = 4 \<and> ec_Transport (hn_Engine h) = ''memory'' \<and> hn_BlockStatusCode h = 451 \<and>
     hn_CustomHeaders h = [''X-WAF'' \<mapsto> ''on'']"
proof -
  have ok: "list_all setting_ok example_settings"
    by (simp add: example_settings_def word_ok_def int_ok_def)
  let ?h = "Handler_SetDefaults (fold set_handler example_settings Handler_zero)"
  obtain s' where "parseCaddyfile token_dispenser
      \<lparr>ts_seen = None, ts_rest = directive_tokens example_settings, ts_nesting = 0\<rparr> = Some (Inr ?h, s')"
    using caddyfile_reads_settings [OF token_view.token_lines_axioms ok] by auto
  moreover have "ec_WorkerID (hn_Engine ?h) = 4" "ec_Transport (hn_Engine ?h) = ''memory''" "hn_BlockStatusCode ?h = 451"
      "hn_CustomHeaders ?h = [''X-WAF'' \<mapsto> ''on'']"
    by (simp_all add: example_settings_def Handler_SetDefaults_def EngineConfig_SetDefaults_def Handler_zero_def
        EngineConfig_zero_def dflt_str_def dflt_int_def dflt_bool_def)
  ultimately show ?thesis by blast
qed

end
