(* ===== verification/Modules.thy ===== *)
theory Modules
  imports Caddyfile
begin

text \<open>
  The registration of the two modules and of the directive with Caddy: \<open>CaddyModule\<close> and \<open>init\<close> of
  internal/app/app.go, internal/handler/module.go and caddyfile.go, the imports of imports.go and the
  command cmd/caddy/main.go. Caddy's registry is a parameter, the record \<open>caddy\<close> of the functions
  the source calls; one that panics yields \<open>None\<close>.
\<close>

section \<open>Modules\<close>

datatype caddy_module = AppModule App | HandlerModule Handler

record module_info =
  mi_ID :: string
  mi_New :: caddy_module

definition App_zero :: App where
  "App_zero = \<lparr>app_Config = EngineConfig_zero, app_pool = False, app_policy = None\<rparr>"

definition App_CaddyModule :: "App \<Rightarrow> module_info" where
  "App_CaddyModule a = \<lparr>mi_ID = ''http.openappsec'', mi_New = AppModule App_zero\<rparr>"

definition Handler_CaddyModule :: "Handler \<Rightarrow> module_info" where
  "Handler_CaddyModule h = \<lparr>mi_ID = ''http.handlers.openappsec'', mi_New = HandlerModule Handler_zero\<rparr>"

section \<open>Registration\<close>

datatype position = Before | After

type_synonym 's directive_parser = "'s dispenser \<Rightarrow> 's \<Rightarrow> ((caddy_err + Handler) \<times> 's) option"

record ('s, 'w) caddy =
  cd_RegisterModule :: "module_info \<Rightarrow> 'w \<Rightarrow> 'w option"
  cd_RegisterHandlerDirective :: "string \<Rightarrow> 's directive_parser \<Rightarrow> 'w \<Rightarrow> 'w option"
  cd_RegisterDirectiveOrder :: "string \<Rightarrow> position \<Rightarrow> string \<Rightarrow> 'w \<Rightarrow> 'w option"

definition app_init :: "('s, 'w) caddy \<Rightarrow> 'w \<Rightarrow> 'w option" where
  "app_init cd = cd_RegisterModule cd (App_CaddyModule App_zero)"

definition directive_init :: "('s, 'w) caddy \<Rightarrow> 'w \<Rightarrow> 'w option" where
  "directive_init cd w =
     Option.bind (cd_RegisterHandlerDirective cd ''openappsec'' parseCaddyfile w)
       (cd_RegisterDirectiveOrder cd ''openappsec'' Before ''reverse_proxy'')"

definition module_init :: "('s, 'w) caddy \<Rightarrow> 'w \<Rightarrow> 'w option" where
  "module_init cd = cd_RegisterModule cd (Handler_CaddyModule Handler_zero)"

text \<open>
  The blank imports: the package app, which the package handler imports too, is initialised first; the
  files of a package are in the order of their names.
\<close>

definition imports_init :: "('s, 'w) caddy \<Rightarrow> 'w \<Rightarrow> 'w option" where
  "imports_init cd w = Option.bind (Option.bind (app_init cd w) (directive_init cd)) (module_init cd)"

definition caddy_main :: "('s, 'w) caddy \<Rightarrow> ('w \<Rightarrow> 'r) \<Rightarrow> 'w \<Rightarrow> 'r option" where
  "caddy_main cd Main w = map_option Main (imports_init cd w)"

section \<open>What is registered\<close>

text \<open>
  What Caddy documents: a module is registered under an id not in use, a directive under a new name,
  and a directive without a position gets one next to a directive that has one.
\<close>

record 's caddy_registry =
  cg_modules :: "string \<rightharpoonup> caddy_module"
  cg_directives :: "string \<rightharpoonup> 's directive_parser"
  cg_order :: "string list"

fun insert_at :: "position \<Rightarrow> 'a \<Rightarrow> 'a \<Rightarrow> 'a list \<Rightarrow> 'a list" where
  "insert_at pos x y [] = []"
| "insert_at pos x y (z # zs) =
     (if z = y then (case pos of Before \<Rightarrow> x # z # zs | After \<Rightarrow> z # x # zs) else z # insert_at pos x y zs)"

definition registers :: "('w \<Rightarrow> 's caddy_registry) \<Rightarrow> ('s, 'w) caddy \<Rightarrow> bool" where
  "registers reg cd \<longleftrightarrow>
     (\<forall>m w. mi_ID m \<noteq> '''' \<and> cg_modules (reg w) (mi_ID m) = None \<longrightarrow>
        (\<exists>w'. cd_RegisterModule cd m w = Some w' \<and>
           reg w' = (reg w)\<lparr>cg_modules := (cg_modules (reg w))(mi_ID m \<mapsto> mi_New m)\<rparr>)) \<and>
     (\<forall>d f w. cg_directives (reg w) d = None \<longrightarrow>
        (\<exists>w'. cd_RegisterHandlerDirective cd d f w = Some w' \<and>
           reg w' = (reg w)\<lparr>cg_directives := (cg_directives (reg w))(d \<mapsto> f)\<rparr>)) \<and>
     (\<forall>d pos d' w. d \<notin> set (cg_order (reg w)) \<and> d' \<in> set (cg_order (reg w)) \<longrightarrow>
        (\<exists>w'. cd_RegisterDirectiveOrder cd d pos d' w = Some w' \<and>
           reg w' = (reg w)\<lparr>cg_order := insert_at pos d d' (cg_order (reg w))\<rparr>))"

text \<open>
  A build that imports the package starts with both modules registered under their ids, each giving
  a module whose settings are unset, and the directive read by \<open>parseCaddyfile\<close> and placed right
  before the reverse proxy.
\<close>

lemma imports_register:
  assumes "registers reg cd" and "cg_modules (reg w) ''http.openappsec'' = None"
    and "cg_modules (reg w) ''http.handlers.openappsec'' = None" and "cg_directives (reg w) ''openappsec'' = None"
    and "''openappsec'' \<notin> set (cg_order (reg w))" and "''reverse_proxy'' \<in> set (cg_order (reg w))"
  shows "\<exists>w'. imports_init cd w = Some w' \<and> reg w' = (reg w)\<lparr>
      cg_modules := (cg_modules (reg w))(''http.openappsec'' \<mapsto> AppModule App_zero,
        ''http.handlers.openappsec'' \<mapsto> HandlerModule Handler_zero),
      cg_directives := (cg_directives (reg w))(''openappsec'' \<mapsto> parseCaddyfile),
      cg_order := insert_at Before ''openappsec'' ''reverse_proxy'' (cg_order (reg w))\<rparr>"
proof -
  have m: "\<exists>w'. cd_RegisterModule cd m w = Some w' \<and>
      reg w' = (reg w)\<lparr>cg_modules := (cg_modules (reg w))(mi_ID m \<mapsto> mi_New m)\<rparr>"
    if "mi_ID m \<noteq> ''''" "cg_modules (reg w) (mi_ID m) = None" for m w
    using assms(1) that by (simp add: registers_def)
  have d: "\<exists>w'. cd_RegisterHandlerDirective cd x f w = Some w' \<and>
      reg w' = (reg w)\<lparr>cg_directives := (cg_directives (reg w))(x \<mapsto> f)\<rparr>" if "cg_directives (reg w) x = None" for x f w
    using assms(1) that by (simp add: registers_def)
  have o': "\<exists>w'. cd_RegisterDirectiveOrder cd x pos y w = Some w' \<and>
      reg w' = (reg w)\<lparr>cg_order := insert_at pos x y (cg_order (reg w))\<rparr>"
    if "x \<notin> set (cg_order (reg w))" "y \<in> set (cg_order (reg w))" for x y pos w
    using assms(1) that by (simp add: registers_def)
  obtain w1 where w1: "app_init cd w = Some w1"
      "reg w1 = (reg w)\<lparr>cg_modules := (cg_modules (reg w))(''http.openappsec'' \<mapsto> AppModule App_zero)\<rparr>"
    using m [of "App_CaddyModule App_zero" w] assms(2) by (auto simp: app_init_def App_CaddyModule_def)
  obtain w2 where w2: "cd_RegisterHandlerDirective cd ''openappsec'' parseCaddyfile w1 = Some w2"
      "reg w2 = (reg w1)\<lparr>cg_directives := (cg_directives (reg w1))(''openappsec'' \<mapsto> parseCaddyfile)\<rparr>"
    using d [of w1 "''openappsec''"] w1(2) assms(4) by auto
  obtain w3 where w3: "cd_RegisterDirectiveOrder cd ''openappsec'' Before ''reverse_proxy'' w2 = Some w3"
      "reg w3 = (reg w2)\<lparr>cg_order := insert_at Before ''openappsec'' ''reverse_proxy'' (cg_order (reg w2))\<rparr>"
    using o' [of "''openappsec''" w2 "''reverse_proxy''" Before] w1(2) w2(2) assms(5,6) by auto
  have "cg_modules (reg w3) ''http.handlers.openappsec'' = None" using w1(2) w2(2) w3(2) assms(3) by simp
  with m [of "Handler_CaddyModule Handler_zero" w3] obtain w4 where w4: "module_init cd w3 = Some w4"
      "reg w4 = (reg w3)\<lparr>cg_modules := (cg_modules (reg w3))(''http.handlers.openappsec'' \<mapsto> HandlerModule Handler_zero)\<rparr>"
    by (auto simp: module_init_def Handler_CaddyModule_def)
  show ?thesis
    using w1 w2 w3 w4 by (intro exI [of _ w4]) (simp add: imports_init_def directive_init_def)
qed

end
