(* ===== verification/Describe.thy ===== *)
theory Describe
  imports Memory Mock_Command
begin

text \<open>
  The descriptions of frames in the mock engine (internal/mock/frame.go), its record of a frame and the
  remaining operations of internal/mock/engine.go. Go's format \<open>%q\<close> is a parameter, the function \<open>q\<close>.
\<close>

section \<open>Descriptions\<close>

definition fmt_d :: "'a::len word \<Rightarrow> string" where
  "fmt_d x = Itoa (uint x)"

definition fmt_v :: "bool \<Rightarrow> string" where
  "fmt_v b = (if b then ''true'' else ''false'')"

definition describeRequest :: "(string \<Rightarrow> string) \<Rightarrow> bytes \<Rightarrow> string option" where
  "describeRequest q b =
     (case ParseRequestStart b of
        Inr rs \<Rightarrow> Some (''REQUEST_START session='' @ fmt_d (rs_SessionID rs) @ '' method='' @ q (rs_Method rs) @
          '' uri='' @ q (rs_UnparsedURI rs) @ '' host='' @ q (rs_Host rs))
      | Inl _ \<Rightarrow>
     (case ParseRequestEnd b of
        Inr re \<Rightarrow> Some ((if re_DataType re = DataTypeResponseEnd then ''RESPONSE_END'' else ''REQUEST_END'') @
          '' session='' @ fmt_d (re_SessionID re))
      | Inl _ \<Rightarrow>
     (case ParseResponseCode b of
        Inr rc \<Rightarrow> Some (''RESPONSE_CODE session='' @ fmt_d (rc_SessionID rc) @ '' code='' @ fmt_d (rc_Code rc))
      | Inl _ \<Rightarrow>
     (case ParseContentLength b of
        Inr cl \<Rightarrow> Some (''CONTENT_LENGTH session='' @ fmt_d (cl_SessionID cl) @ '' length='' @ fmt_d (cl_Length cl))
      | Inl _ \<Rightarrow>
     (case ParseDelayedVerdict b of
        Inr dv \<Rightarrow> Some (''REQUEST_DELAYED_VERDICT session='' @ fmt_d (dv_SessionID dv))
      | Inl _ \<Rightarrow>
     (case ParseHeaderBulk b of
        Inr hb \<Rightarrow> Some ((if hb_DataType hb = DataTypeResponseHeader then ''RESPONSE_HEADER'' else ''REQUEST_HEADER'') @
          '' session='' @ fmt_d (hb_SessionID hb) @ '' last='' @ fmt_v (hb_IsLastPart hb) @
          '' part='' @ fmt_d (hb_BulkPartIndex hb) @ '' headers='' @ Itoa (int (length (hb_Headers hb))))
      | Inl _ \<Rightarrow>
     (case ParseBodyChunk b of
        Inr bc \<Rightarrow> Some ((if bc_DataType bc = DataTypeResponseBody then ''RESPONSE_BODY'' else ''REQUEST_BODY'') @
          '' session='' @ fmt_d (bc_SessionID bc) @ '' last='' @ fmt_v (bc_IsLastChunk bc) @
          '' part='' @ fmt_d (bc_PartCount bc) @ '' bytes='' @ Itoa (int (length (bc_Data bc))))
      | Inl _ \<Rightarrow> None)))))))"

definition classify_desc :: "(string \<Rightarrow> string) \<Rightarrow> bytes \<Rightarrow> nat \<Rightarrow> string" where
  "classify_desc q b phase =
     (case (if 2 \<le> length b \<and> b ! 1 = 0 then describeRequest q b else None) of
        Some d \<Rightarrow> d
      | None \<Rightarrow>
     (case (if phase = 0 then ParseRegistration b else Inl ErrTruncated) of
        Inr reg \<Rightarrow> ''REGISTRATION type='' @ fmt_d (reg_AttachmentType reg) @ '' worker='' @ fmt_d (reg_WorkerID reg) @
          '' workers='' @ fmt_d (reg_WorkersAmount reg) @ '' family='' @ q (reg_FamilyName reg)
      | Inl _ \<Rightarrow>
     (case ParseCommData b of
        Inr cd \<Rightarrow> ''COMM_DATA uid='' @ q (cd_UID cd) @ '' user='' @ fmt_d (cd_UserID cd) @ '' group='' @ fmt_d (cd_GroupID cd) @
          '' target_core='' @ Itoa (sint (cd_TargetCore cd))
      | Inl _ \<Rightarrow>
     (case ParseKeepAlive b of
        Inr ka \<Rightarrow> ''KEEP_ALIVE worker='' @ fmt_d (ka_WorkerID ka) @ '' family='' @ q (ka_FamilyName ka)
      | Inl _ \<Rightarrow> ''UNKNOWN ('' @ Itoa (int (length b)) @ '' bytes)''))))"

definition DescribeFrame :: "(string \<Rightarrow> string) \<Rightarrow> bytes \<Rightarrow> string" where
  "DescribeFrame q b = classify_desc q b 0"

section \<open>Records and operations\<close>

record Frame =
  fr_Hex :: string
  fr_Meaning :: string

text \<open>The frames of the engine's record, with the phase of the connection each came on.\<close>

definition frame_of :: "(string \<Rightarrow> string) \<Rightarrow> bytes \<times> nat \<Rightarrow> Frame" where
  "frame_of q = (\<lambda>(b, phase). \<lparr>fr_Hex = EncodeToString b, fr_Meaning = classify_desc q b phase\<rparr>)"

definition mock_New :: "string \<Rightarrow> mem_world \<Rightarrow> (terr + nat \<times> Engine) \<times> mem_world" where
  "mock_New addr w =
     (case Listen addr w of
        (Inl e, w) \<Rightarrow> (Inl e, w)
      | (Inr l, w) \<Rightarrow> (Inr (l, NewWithListener (ml_addr (mw_listener w l))), w))"

definition Engine_Addr :: "Engine \<Rightarrow> string" where
  "Engine_Addr e = eng_addr e"

definition Engine_Close :: "Engine \<Rightarrow> terr option \<times> nat list \<times> Engine" where
  "Engine_Close e = SetEngineDown e"

section \<open>What a description tells\<close>

text \<open>Exactly the frames the engine takes for those of a session are described as such, under its id.\<close>

lemma describeRequest_iff: "describeRequest q b = None \<longleftrightarrow> parseRequest b = None"
  by (simp add: describeRequest_def parseRequest_def split: sum.split)

lemma describe_parsed:
  "ParseRequestStart b = Inr rs \<Longrightarrow> describeRequest q b = Some (''REQUEST_START session='' @ fmt_d (rs_SessionID rs) @
     '' method='' @ q (rs_Method rs) @ '' uri='' @ q (rs_UnparsedURI rs) @ '' host='' @ q (rs_Host rs))"
  "ParseRequestEnd b = Inr re \<Longrightarrow> re_DataType re = DataTypeRequestEnd \<Longrightarrow>
     describeRequest q b = Some (''REQUEST_END session='' @ fmt_d (re_SessionID re))"
  "ParseHeaderBulk b = Inr hb \<Longrightarrow> hb_DataType hb = DataTypeRequestHeader \<Longrightarrow>
     describeRequest q b = Some (''REQUEST_HEADER session='' @ fmt_d (hb_SessionID hb) @ '' last='' @ fmt_v (hb_IsLastPart hb) @
       '' part='' @ fmt_d (hb_BulkPartIndex hb) @ '' headers='' @ Itoa (int (length (hb_Headers hb))))"
  "ParseBodyChunk b = Inr bc \<Longrightarrow> bc_DataType bc = DataTypeRequestBody \<Longrightarrow>
     describeRequest q b = Some (''REQUEST_BODY session='' @ fmt_d (bc_SessionID bc) @ '' last='' @ fmt_v (bc_IsLastChunk bc) @
       '' part='' @ fmt_d (bc_PartCount bc) @ '' bytes='' @ Itoa (int (length (bc_Data bc))))"
  subgoal by (simp add: describeRequest_def)
  subgoal by (cases "ParseRequestStart b") (auto simp: describeRequest_def go_consts dest!: accepted_types)
  subgoal by (auto simp: describeRequest_def go_consts split: sum.splits dest!: accepted_types)
  subgoal by (auto simp: describeRequest_def go_consts split: sum.splits dest!: accepted_types)
  done

lemma describes_request:
  assumes "describeRequest q b = Some d" and "frame_type b = Some dt"
    and "dt \<in> {DataTypeRequestStart, DataTypeRequestHeader, DataTypeRequestBody, DataTypeRequestEnd}"
  shows "DescribeFrame q b = d"
proof -
  have "unat dt < 256" using assms(3) by (auto simp: go_consts)
  with frame_type_bytes [OF assms(2)] assms(1) show ?thesis by (simp add: DescribeFrame_def classify_desc_def)
qed

text \<open>The dump of a request: its frames in order, each under the session it was sent in.\<close>

lemma request_described:
  assumes "request_fits req"
  shows "map (DescribeFrame q) (request_frames sid req) =
    [''REQUEST_START session='' @ fmt_d sid @ '' method='' @ q (rs_Method (rq_Start req)) @
       '' uri='' @ q (rs_UnparsedURI (rq_Start req)) @ '' host='' @ q (rs_Host (rq_Start req))] @
    (if rq_Headers req \<noteq> [] then [''REQUEST_HEADER session='' @ fmt_d sid @ '' last=true part='' @ fmt_d (0 :: u8) @
       '' headers='' @ Itoa (int (length (rq_Headers req)))] else []) @
    (if rq_Body req \<noteq> [] then [''REQUEST_BODY session='' @ fmt_d sid @ '' last=true part='' @ fmt_d (0 :: u8) @
       '' bytes='' @ Itoa (int (length (rq_Body req)))] else []) @
    [''REQUEST_END session='' @ fmt_d sid]"
proof -
  note own = own_frames [OF assms refl refl refl refl, of sid]
  note types = accepted_types(1) [OF own(1)] parsed_type(1) [OF own(2), simplified] parsed_type(2) [OF own(3), simplified]
    parsed_type(3) [OF own(4), simplified]
  note d = describes_request [OF describe_parsed(1) [OF own(1)] types(1)]
    describes_request [OF describe_parsed(3) [OF own(2)] types(2)]
    describes_request [OF describe_parsed(4) [OF own(3)] types(3)]
    describes_request [OF describe_parsed(2) [OF own(4)] types(4)]
  show ?thesis by (simp add: request_frames_def d fmt_v_def)
qed

text \<open>A frame of none of the kinds is reported with its length.\<close>

lemma unknown_described: "DescribeFrame q [0xde, 0xad, 0xbe, 0xef] = ''UNKNOWN (4 bytes)''"
  unfolding DescribeFrame_def classify_desc_def by code_simp

text \<open>An engine in the memory is found under the address it was created with.\<close>

lemma New_dials:
  assumes "mock_New addr w = (Inr (l, e), w')"
  shows "Engine_Addr e = addr \<and> mw_registry w' addr = Some l \<and> \<not> ml_closed (mw_listener w' l)"
  using assms by (auto simp: mock_New_def Listen_def Engine_Addr_def NewWithListener_def set_listener_def Let_def
      split: if_splits sum.splits)

end
