(* ===== verification/Harness.thy ===== *)
theory Harness
  imports Modules Caddyfile_Reads Mock_Command Mock_Serve
begin

text \<open>
  The end-to-end harness of internal/e2e/harness.go: building the two binaries, the processes it
  starts, the Caddyfile it writes, its waits, and what the server it configures answers against the
  mock engine. The host is a parameter, a record of the calls to the operating system and to the
  libraries for files, processes and HTTP; a path is the list of its elements. A connection or
  listener that the harness opens only to probe a port is closed by the call that opens it. Times are
  in nanoseconds; the messages of failures and the log are left out.
\<close>

section \<open>Host\<close>

type_synonym path = "string list"

datatype argument = Word string | Path path

record ('p, 'r, 'w) host =
  ho_Getwd :: "'w \<Rightarrow> path option"
  ho_Stat :: "argument \<Rightarrow> 'w \<Rightarrow> bool option"
  ho_LookPath :: "string \<Rightarrow> 'w \<Rightarrow> argument option"
  ho_MkdirTemp :: "'w \<Rightarrow> path option \<times> 'w"
  ho_Command :: "argument \<Rightarrow> argument list \<Rightarrow> path option \<Rightarrow> 'w \<Rightarrow> (bool \<times> string) \<times> 'w"
  ho_Pipe :: "'w \<Rightarrow> bool \<times> 'w"
  ho_Start :: "argument \<Rightarrow> argument list \<Rightarrow> 'w \<Rightarrow> 'p option \<times> 'w"
  ho_Output :: "'p \<Rightarrow> 'w \<Rightarrow> string"
  ho_Exited :: "'p \<Rightarrow> 'w \<Rightarrow> bool"
  ho_Kill :: "'p \<Rightarrow> 'w \<Rightarrow> 'w"
  ho_WaitDone :: "'p \<Rightarrow> int \<Rightarrow> 'w \<Rightarrow> 'w"
  ho_Now :: "'w \<Rightarrow> int"
  ho_Sleep :: "int \<Rightarrow> 'w \<Rightarrow> 'w"
  ho_ListenAny :: "'w \<Rightarrow> int option \<times> 'w"
  ho_DialTimeout :: "string \<Rightarrow> int \<Rightarrow> 'w \<Rightarrow> bool \<times> 'w"
  ho_CreateTemp :: "'w \<Rightarrow> path option \<times> 'w"
  ho_WriteString :: "path \<Rightarrow> string \<Rightarrow> 'w \<Rightarrow> bool \<times> 'w"
  ho_CloseFile :: "path \<Rightarrow> 'w \<Rightarrow> bool \<times> 'w"
  ho_Get :: "int \<Rightarrow> string \<Rightarrow> 'w \<Rightarrow> 'r option \<times> 'w"
  ho_ReadBody :: "'r \<Rightarrow> 'w \<Rightarrow> bytes option \<times> 'w"

text \<open>What a test has to undo when it ends, the last one first.\<close>

datatype 'p cleanup = StopProc 'p | RemoveFile path

type_synonym ('p, 'w) test = "'w \<times> 'p cleanup list"

datatype failure =
    PipeFailed string | StartFailed string | PortProbeFailed | TempFileFailed | NoMatch | NoOutput string
  | CaddyExited | CaddyNotReady | GetFailed string | NotBuilt

fun Contains :: "string \<Rightarrow> string \<Rightarrow> bool" where
  "Contains s t \<longleftrightarrow> HasPrefix s t \<or> (case s of [] \<Rightarrow> False | _ # s \<Rightarrow> Contains s t)"

declare Contains.simps [simp del]

section \<open>Binaries\<close>

datatype build_err = GetwdFailed | NoGoMod path | MkdirTempFailed | BuildFailed string string | ListModulesFailed
  | ModulesMissing string

record bins =
  bi_once :: bool
  bi_OK :: "build_err option"
  bi_mock :: path
  bi_caddy :: path
  bi_dir :: path

definition bins0 :: bins where
  "bins0 = \<lparr>bi_once = False, bi_OK = None, bi_mock = [], bi_caddy = [], bi_dir = []\<rparr>"

definition repoRoot :: "('p, 'r, 'w) host \<Rightarrow> 'w \<Rightarrow> build_err + path" where
  "repoRoot ho w =
     (case ho_Getwd ho w of
        None \<Rightarrow> Inl GetwdFailed
      | Some wd \<Rightarrow>
          let root = butlast (butlast wd) in
          case ho_Stat ho (Path (root @ [''go.mod''])) w of
            Some False \<Rightarrow> Inr root
          | _ \<Rightarrow> Inl (NoGoMod root))"

definition scoopShim :: string where
  "scoopShim = ''C:'' @ [CHR 0x5C] @ ''Users'' @ [CHR 0x5C] @ ''MSI-NB'' @ [CHR 0x5C] @ ''scoop'' @ [CHR 0x5C] @
     ''shims'' @ [CHR 0x5C] @ ''go.exe''"

definition goExe :: "('p, 'r, 'w) host \<Rightarrow> 'w \<Rightarrow> argument" where
  "goExe ho w =
     (case ho_LookPath ho ''go'' w of
        Some p \<Rightarrow> p
      | None \<Rightarrow> (case ho_Stat ho (Word scoopShim) w of Some _ \<Rightarrow> Word scoopShim | None \<Rightarrow> Word ''go''))"

fun build_jobs :: "('p, 'r, 'w) host \<Rightarrow> path \<Rightarrow> (string \<times> path) list \<Rightarrow> 'w \<Rightarrow> build_err option \<times> 'w" where
  "build_jobs ho root [] w = (None, w)"
| "build_jobs ho root ((pkg, target) # jobs) w =
     (case ho_Command ho (goExe ho w) [Word ''build'', Word ''-o'', Path target, Word pkg] (Some root) w of
        ((True, _), w) \<Rightarrow> build_jobs ho root jobs w
      | ((False, out), w) \<Rightarrow> (Some (BuildFailed pkg out), w))"

definition verify_modules :: "('p, 'r, 'w) host \<Rightarrow> path \<Rightarrow> 'w \<Rightarrow> build_err option \<times> 'w" where
  "verify_modules ho cadBin w =
     (case ho_Command ho (Path cadBin) [Word ''list-modules''] None w of
        ((False, _), w) \<Rightarrow> (Some ListModulesFailed, w)
      | ((True, out), w) \<Rightarrow>
          (if \<not> Contains out ''http.openappsec'' \<or> \<not> Contains out ''http.handlers.openappsec''
           then Some (ModulesMissing out) else None, w))"

text \<open>The body of \<open>binOnce.Do\<close> runs on the first call only.\<close>

definition buildBinaries :: "('p, 'r, 'w) host \<Rightarrow> bins \<times> 'w \<Rightarrow> build_err option \<times> bins \<times> 'w" where
  "buildBinaries ho = (\<lambda>(b, w).
     if bi_once b then (bi_OK b, b, w)
     else
       let b = b\<lparr>bi_once := True\<rparr> in
       case repoRoot ho w of
         Inl e \<Rightarrow> (Some e, b\<lparr>bi_OK := Some e\<rparr>, w)
       | Inr root \<Rightarrow>
           (case ho_MkdirTemp ho w of
              (None, w) \<Rightarrow> (Some MkdirTempFailed, b\<lparr>bi_OK := Some MkdirTempFailed\<rparr>, w)
            | (Some dir, w) \<Rightarrow>
                let b = b\<lparr>bi_dir := dir, bi_mock := dir @ [''mockengine.exe''], bi_caddy := dir @ [''caddy.exe'']\<rparr> in
                case build_jobs ho root [(''./cmd/mockengine'', bi_mock b), (''./cmd/caddy'', bi_caddy b)] w of
                  (Some e, w) \<Rightarrow> (Some e, b\<lparr>bi_OK := Some e\<rparr>, w)
                | (None, w) \<Rightarrow>
                    (case verify_modules ho (bi_caddy b) w of
                       (Some e, w) \<Rightarrow> (Some e, b\<lparr>bi_OK := Some e\<rparr>, w)
                     | (None, w) \<Rightarrow> (None, b, w))))"

definition binaries :: "bins \<Rightarrow> failure + path \<times> path" where
  "binaries b =
     (if bi_OK b \<noteq> None then Inl NotBuilt
      else if bi_mock b = [] \<or> bi_caddy b = [] then Inl NotBuilt
      else Inr (bi_mock b, bi_caddy b))"

section \<open>Processes\<close>

definition startProcess ::
  "('p, 'r, 'w) host \<Rightarrow> string \<Rightarrow> argument \<Rightarrow> argument list \<Rightarrow> ('p, 'w) test \<Rightarrow> (failure + 'p) \<times> ('p, 'w) test" where
  "startProcess ho name exe args = (\<lambda>(w, cs).
     case ho_Pipe ho w of
       (False, w) \<Rightarrow> (Inl (PipeFailed name), (w, cs))
     | (True, w) \<Rightarrow>
         (case ho_Start ho exe args w of
            (None, w) \<Rightarrow> (Inl (StartFailed name), (w, cs))
          | (Some p, w) \<Rightarrow> (Inr p, (w, StopProc p # cs))))"

definition proc_stop :: "('p, 'r, 'w) host \<Rightarrow> 'p \<Rightarrow> 'w \<Rightarrow> 'w" where
  "proc_stop ho p w = ho_WaitDone ho p (10 * 10 ^ 9) (ho_Kill ho p w)"

section \<open>Waits\<close>

text \<open>The loop of every wait: it tries, and sleeps after a failure, while the deadline is ahead.\<close>

partial_function (option) poll ::
  "('p, 'r, 'w) host \<Rightarrow> int \<Rightarrow> int \<Rightarrow> ('w \<Rightarrow> 'a option \<times> 'w) \<Rightarrow> 'w \<Rightarrow> ('a option \<times> 'w) option" where
  "poll ho deadline pause attempt w =
     (if ho_Now ho w < deadline then
        (case attempt w of (Some x, w) \<Rightarrow> Some (Some x, w) | (None, w) \<Rightarrow> poll ho deadline pause attempt (ho_Sleep ho pause w))
      else Some (None, w))"

definition processBootTimeout :: int where
  "processBootTimeout = 10 * 10 ^ 9"

definition dialPort :: "('p, 'r, 'w) host \<Rightarrow> int \<Rightarrow> 'w \<Rightarrow> bool \<times> 'w" where
  "dialPort ho port = ho_DialTimeout ho (''127.0.0.1:'' @ Itoa port) (500 * 10 ^ 6)"

definition waitForTCP :: "('p, 'r, 'w) host \<Rightarrow> int \<Rightarrow> int \<Rightarrow> 'w \<Rightarrow> (bool \<times> 'w) option" where
  "waitForTCP ho port timeout w =
     map_option (\<lambda>(x, w). (x \<noteq> None, w))
       (poll ho (ho_Now ho w + timeout) (50 * 10 ^ 6)
          (\<lambda>w. case dialPort ho port w of (ok, w) \<Rightarrow> (if ok then Some () else None, w)) w)"

definition waitForMatch ::
  "('p, 'r, 'w) host \<Rightarrow> 'p \<Rightarrow> (string \<Rightarrow> string option) \<Rightarrow> int \<Rightarrow> 'w \<Rightarrow> ((failure + string) \<times> 'w) option" where
  "waitForMatch ho p re timeout w =
     map_option (\<lambda>(x, w). (case x of Some m \<Rightarrow> Inr m | None \<Rightarrow> Inl NoMatch, w))
       (poll ho (ho_Now ho w + timeout) (50 * 10 ^ 6) (\<lambda>w. (re (ho_Output ho p w), w)) w)"

definition waitForOutputSubstr ::
  "('p, 'r, 'w) host \<Rightarrow> 'p \<Rightarrow> string \<Rightarrow> int \<Rightarrow> 'w \<Rightarrow> (failure option \<times> 'w) option" where
  "waitForOutputSubstr ho p substr timeout w =
     map_option (\<lambda>(x, w). (case x of Some _ \<Rightarrow> None | None \<Rightarrow> Some (NoOutput substr), w))
       (poll ho (ho_Now ho w + timeout) (50 * 10 ^ 6)
          (\<lambda>w. (if Contains (ho_Output ho p w) substr then Some () else None, w)) w)"

definition getOnce :: "('p, 'r, 'w) host \<Rightarrow> string \<Rightarrow> int \<Rightarrow> 'w \<Rightarrow> ('r \<times> bytes) option \<times> 'w" where
  "getOnce ho url timeout w =
     (case ho_Get ho timeout url w of
        (None, w) \<Rightarrow> (None, w)
      | (Some resp, w) \<Rightarrow>
          (case ho_ReadBody ho resp w of (None, w) \<Rightarrow> (None, w) | (Some body, w) \<Rightarrow> (Some (resp, body), w)))"

definition getWithRetry ::
  "('p, 'r, 'w) host \<Rightarrow> string \<Rightarrow> int \<Rightarrow> 'w \<Rightarrow> ((failure + 'r \<times> bytes) \<times> 'w) option" where
  "getWithRetry ho url window w =
     map_option (\<lambda>(x, w). (case x of Some y \<Rightarrow> Inr y | None \<Rightarrow> Inl (GetFailed url), w))
       (poll ho (ho_Now ho w + window) (100 * 10 ^ 6) (getOnce ho url (30 * 10 ^ 9)) w)"

definition urlForPort :: "int \<Rightarrow> string" where
  "urlForPort port = ''http://127.0.0.1:'' @ Itoa port @ ''/''"

section \<open>Finding the engine\<close>

text \<open>The first submatch of \<open>listening on "([^"]+)"\<close>, leftmost.\<close>

definition listening_on :: string where
  "listening_on = ''listening on '' @ [CHR 0x22]"

fun find_listening :: "string \<Rightarrow> string option" where
  "find_listening [] = None"
| "find_listening (c # s) =
     (let after = drop (length listening_on) (c # s); addr = takeWhile (\<lambda>x. x \<noteq> CHR 0x22) after in
      if HasPrefix (c # s) listening_on \<and> addr \<noteq> [] \<and> length addr < length after then Some addr
      else find_listening s)"

record 'p engineProc =
  ep_p :: 'p
  ep_addr :: string
  ep_scenario :: string

definition startMockEngine ::
  "('p, 'r, 'w) host \<Rightarrow> bins \<Rightarrow> string \<Rightarrow> int \<Rightarrow> ('p, 'w) test \<Rightarrow> ((failure + 'p engineProc) \<times> ('p, 'w) test) option" where
  "startMockEngine ho b scenario requests s =
     (case binaries b of
        Inl e \<Rightarrow> Some (Inl e, s)
      | Inr (mockBin, _) \<Rightarrow>
     (case startProcess ho (''mockengine['' @ scenario @ '']'') (Path mockBin)
         [Word ''-transport'', Word ''socket'', Word ''-addr'', Word ''127.0.0.1:0'', Word ''-scenario'', Word scenario,
          Word ''-requests'', Word (Itoa requests)] s of
        (Inl e, s) \<Rightarrow> Some (Inl e, s)
      | (Inr p, (w, cs)) \<Rightarrow>
          map_option (\<lambda>(x, w). (map_sum id (\<lambda>addr. \<lparr>ep_p = p, ep_addr = addr, ep_scenario = scenario\<rparr>) x, (w, cs)))
            (waitForMatch ho p find_listening processBootTimeout w)))"

section \<open>Caddy\<close>

definition text_line :: "nat \<Rightarrow> string \<Rightarrow> string" where
  "text_line n s = replicate n (CHR 0x09) @ s @ [CHR 0x0A]"

definition caddyfile_text :: "int \<Rightarrow> string \<Rightarrow> string \<Rightarrow> string list \<Rightarrow> string" where
  "caddyfile_text port engineAddr origin extraEngine =
     text_line 0 ''{'' @ text_line 1 ''admin off'' @ text_line 0 ''}'' @ text_line 0 '''' @
     text_line 0 (''http://127.0.0.1:'' @ Itoa port @ '' {'') @
     text_line 1 ''route {'' @
     text_line 2 ''openappsec {'' @
     text_line 3 ''engine {'' @
     text_line 4 ''transport socket'' @
     text_line 4 (''registration_socket '' @ engineAddr) @
     text_line 4 (''keep_alive_path '' @ engineAddr) @
     text_line 4 ''family_name e2e'' @
     concat (map (text_line 4) extraEngine) @
     text_line 3 ''}'' @
     text_line 2 ''}'' @
     text_line 2 origin @
     text_line 1 ''}'' @
     text_line 0 ''}''"

definition writeCaddyfile ::
  "('p, 'r, 'w) host \<Rightarrow> int \<Rightarrow> string \<Rightarrow> string \<Rightarrow> string list \<Rightarrow> ('p, 'w) test \<Rightarrow> (failure + path) \<times> ('p, 'w) test" where
  "writeCaddyfile ho sitePort engineAddr origin extraEngine = (\<lambda>(w, cs).
     case ho_CreateTemp ho w of
       (None, w) \<Rightarrow> (Inl TempFileFailed, (w, cs))
     | (Some f, w) \<Rightarrow>
         (case ho_WriteString ho f (caddyfile_text sitePort engineAddr origin extraEngine) w of
            (False, w) \<Rightarrow> (Inl TempFileFailed, (snd (ho_CloseFile ho f w), cs))
          | (True, w) \<Rightarrow>
              (case ho_CloseFile ho f w of
                 (False, w) \<Rightarrow> (Inl TempFileFailed, (w, cs))
               | (True, w) \<Rightarrow> (Inr f, (w, RemoveFile f # cs)))))"

definition freePort :: "('p, 'r, 'w) host \<Rightarrow> 'w \<Rightarrow> (failure + int) \<times> 'w" where
  "freePort ho w = (case ho_ListenAny ho w of (None, w) \<Rightarrow> (Inl PortProbeFailed, w) | (Some port, w) \<Rightarrow> (Inr port, w))"

record 'p caddyProc =
  cy_p :: 'p
  cy_port :: int

definition caddyProc_URL :: "'p caddyProc \<Rightarrow> string" where
  "caddyProc_URL c = urlForPort (cy_port c)"

text \<open>The loop of \<open>startCaddy\<close> with the number of attempts that are left.\<close>

fun caddy_attempts ::
  "('p, 'r, 'w) host \<Rightarrow> path \<Rightarrow> string \<Rightarrow> string \<Rightarrow> string list \<Rightarrow> nat \<Rightarrow> ('p, 'w) test \<Rightarrow>
   ((failure + 'p caddyProc) \<times> ('p, 'w) test) option" where
  "caddy_attempts ho cadBin engineAddr origin extraEngine 0 s = Some (Inl CaddyNotReady, s)"
| "caddy_attempts ho cadBin engineAddr origin extraEngine (Suc n) s =
     (case freePort ho (fst s) of
        (Inl e, w) \<Rightarrow> Some (Inl e, (w, snd s))
      | (Inr sitePort, w) \<Rightarrow>
        (case writeCaddyfile ho sitePort engineAddr origin extraEngine (w, snd s) of
           (Inl e, s) \<Rightarrow> Some (Inl e, s)
         | (Inr cf, s) \<Rightarrow>
           (case startProcess ho ''caddy'' (Path cadBin)
               [Word ''run'', Word ''--config'', Path cf, Word ''--adapter'', Word ''caddyfile''] s of
              (Inl e, s) \<Rightarrow> Some (Inl e, s)
            | (Inr p, (w, cs)) \<Rightarrow>
              Option.bind (waitForTCP ho sitePort processBootTimeout w) (\<lambda>(up, w).
                if up then Some (Inr \<lparr>cy_p = p, cy_port = sitePort\<rparr>, (w, cs))
                else if ho_Exited ho p w then
                  if Contains (ho_Output ho p w) ''bind'' \<or> Contains (ho_Output ho p w) ''in use'' \<or>
                     Contains (ho_Output ho p w) ''permitted''
                  then caddy_attempts ho cadBin engineAddr origin extraEngine n (w, cs)
                  else Some (Inl CaddyExited, (w, cs))
                else caddy_attempts ho cadBin engineAddr origin extraEngine n (proc_stop ho p w, cs)))))"

definition startCaddy ::
  "('p, 'r, 'w) host \<Rightarrow> path \<Rightarrow> string \<Rightarrow> string \<Rightarrow> string list \<Rightarrow> ('p, 'w) test \<Rightarrow>
   ((failure + 'p caddyProc) \<times> ('p, 'w) test) option" where
  "startCaddy ho cadBin engineAddr origin extraEngine s = caddy_attempts ho cadBin engineAddr origin extraEngine 3 s"

section \<open>Lemmas on the parts\<close>

lemma Contains_iff: "Contains s t \<longleftrightarrow> (\<exists>u v. s = u @ t @ v)"
proof (induction s)
  case Nil
  show ?case by (subst Contains.simps) (auto simp: HasPrefix_iff)
next
  case (Cons c s)
  show ?case
  proof
    assume "Contains (c # s) t"
    then consider "HasPrefix (c # s) t" | "Contains s t" by (subst (asm) Contains.simps) auto
    then show "\<exists>u v. c # s = u @ t @ v"
    proof cases
      case 1
      then obtain v where "c # s = [] @ t @ v" by (auto simp: HasPrefix_iff)
      then show ?thesis by blast
    next
      case 2
      with Cons.IH obtain u v where "c # s = (c # u) @ t @ v" by auto
      then show ?thesis by blast
    qed
  next
    assume "\<exists>u v. c # s = u @ t @ v"
    then obtain u v where uv: "c # s = u @ t @ v" by blast
    then show "Contains (c # s) t"
      using Cons.IH by (subst Contains.simps) (cases u; auto simp: HasPrefix_iff)
  qed
qed

lemma listening_on_length: "length listening_on = 14"
  by (simp add: listening_on_def)

lemma listening_on_nth: "j < 14 \<Longrightarrow> listening_on ! j = CHR 0x22 \<longleftrightarrow> j = 13"
  by (auto simp: listening_on_def nth_append numeral_eq_Suc less_Suc_eq)

text \<open>The address that the engine logs is the one found, when nothing before it is quoted.\<close>

lemma finds_address:
  assumes "CHR 0x22 \<notin> set before" and "CHR 0x22 \<notin> set addr" and "addr \<noteq> []"
  shows "find_listening (before @ listening_on @ addr @ CHR 0x22 # rest) = Some addr"
  using assms(1)
proof (induction before)
  case Nil
  obtain c s where cs: "listening_on @ addr @ CHR 0x22 # rest = c # s" by (simp add: listening_on_def)
  have "takeWhile (\<lambda>x. x \<noteq> CHR 0x22) (addr @ CHR 0x22 # rest) = addr"
    using assms(2) by (subst takeWhile_append2) auto
  moreover have "drop (length listening_on) (c # s) = addr @ CHR 0x22 # rest" "HasPrefix (c # s) listening_on"
    unfolding cs [symmetric] by (simp_all add: HasPrefix_iff)
  ultimately show ?case using assms(3) unfolding append_Nil cs find_listening.simps by (simp only: Let_def) simp
next
  case (Cons c before)
  let ?s = "(c # before) @ listening_on @ addr @ CHR 0x22 # rest"
  have "?s ! 13 \<noteq> CHR 0x22"
  proof (cases "13 < length (c # before)")
    case True
    then have "(c # before) ! 13 \<in> set (c # before)" by (rule nth_mem)
    with Cons.prems True show ?thesis by (metis nth_append)
  next
    case False
    have j: "13 - length (c # before) < 14" "13 - length (c # before) \<noteq> 13" using length_Cons [of c before] by linarith+
    with False have "?s ! 13 = listening_on ! (13 - length (c # before))"
      by (simp only: nth_append listening_on_length if_True if_False)
    with j show ?thesis using listening_on_nth by metis
  qed
  moreover have "t ! 13 = CHR 0x22" if "HasPrefix t listening_on" for t
    using that listening_on_nth [of 13] by (auto simp: HasPrefix_iff nth_append listening_on_length)
  ultimately have "\<not> HasPrefix ?s listening_on" by blast
  with Cons show ?case by (simp add: Let_def)
qed

section \<open>The waits end\<close>

text \<open>The clock of the host: sleeping takes its time, and no other call turns the clock back.\<close>

definition keeps_time :: "('p, 'r, 'w) host \<Rightarrow> bool" where
  "keeps_time ho \<longleftrightarrow>
     (\<forall>d w. ho_Now ho w + d \<le> ho_Now ho (ho_Sleep ho d w)) \<and>
     (\<forall>a t w. ho_Now ho w \<le> ho_Now ho (snd (ho_DialTimeout ho a t w))) \<and>
     (\<forall>t url w. ho_Now ho w \<le> ho_Now ho (snd (ho_Get ho t url w))) \<and>
     (\<forall>x w. ho_Now ho w \<le> ho_Now ho (snd (ho_ReadBody ho x w)))"

lemma poll_ends:
  assumes "keeps_time ho" and "0 < pause" and "\<And>w. ho_Now ho w \<le> ho_Now ho (snd (attempt w))"
  shows "\<exists>r. poll ho deadline pause attempt w = Some r"
proof (induction "nat (deadline - ho_Now ho w)" arbitrary: w rule: less_induct)
  case less
  obtain x w1 where t: "attempt w = (x, w1)" by (cases "attempt w")
  show ?case
  proof (cases "ho_Now ho w < deadline \<and> x = None")
    case True
    have "ho_Now ho w + pause \<le> ho_Now ho (ho_Sleep ho pause w1)"
      using assms(1) assms(3) [of w] t by (auto simp: keeps_time_def intro: order_trans [OF add_right_mono])
    with True assms(2) have "nat (deadline - ho_Now ho (ho_Sleep ho pause w1)) < nat (deadline - ho_Now ho w)" by linarith
    from less [OF this] True t show ?thesis by (subst poll.simps) simp
  next
    case False
    with t show ?thesis by (subst poll.simps) (auto split: option.split)
  qed
qed

text \<open>What a wait returns was there when it last tried.\<close>

lemma poll_finds:
  fixes ho :: "('p, 'r, 'w) host" and attempt :: "'w \<Rightarrow> 'a option \<times> 'w"
  assumes "poll ho deadline pause attempt w = Some (Some x, w')"
  shows "\<exists>w0. ho_Now ho w0 < deadline \<and> attempt w0 = (Some x, w')"
proof -
  define found :: "('p, 'r, 'w) host \<Rightarrow> int \<Rightarrow> ('w \<Rightarrow> 'a option \<times> 'w) \<Rightarrow> 'a option \<times> 'w \<Rightarrow> bool" where
    "found ho deadline attempt r \<longleftrightarrow> (\<forall>x w'. r = (Some x, w') \<longrightarrow> (\<exists>w0. ho_Now ho w0 < deadline \<and> attempt w0 = (Some x, w')))"
    for ho deadline attempt r
  have "found ho deadline attempt (Some x, w')"
  proof (rule poll.raw_induct [where P = "\<lambda>ho deadline pause attempt w r. found ho deadline attempt r", OF _ assms])
    fix loop :: "('p, 'r, 'w) host \<Rightarrow> int \<Rightarrow> int \<Rightarrow> ('w \<Rightarrow> 'a option \<times> 'w) \<Rightarrow> 'w \<Rightarrow> ('a option \<times> 'w) option"
      and ho deadline pause attempt w r
    assume IH: "\<And>ho deadline pause attempt w r. loop ho deadline pause attempt w = Some r \<Longrightarrow> found ho deadline attempt r"
      and body: "(if ho_Now ho w < deadline then
        (case attempt w of (Some x, w) \<Rightarrow> Some (Some x, w) | (None, w) \<Rightarrow> loop ho deadline pause attempt (ho_Sleep ho pause w))
        else Some (None, w)) = Some r"
    obtain y w1 where y: "attempt w = (y, w1)" by (cases "attempt w")
    show "found ho deadline attempt r"
    proof (cases "ho_Now ho w < deadline \<and> y = None")
      case True
      with body y IH show ?thesis by simp
    next
      case False
      with body y show ?thesis by (auto simp: found_def split: if_splits option.splits)
    qed
  qed
  then show ?thesis by (simp add: found_def)
qed

lemma waitForTCP_ends: "keeps_time ho \<Longrightarrow> \<exists>r. waitForTCP ho port timeout w = Some r"
proof -
  assume k: "keeps_time ho"
  have "\<exists>r. poll ho (ho_Now ho w + timeout) (50 * 10 ^ 6)
      (\<lambda>w. case dialPort ho port w of (ok, w) \<Rightarrow> (if ok then Some () else None, w)) w = Some r"
    by (rule poll_ends [OF k]) (use k in \<open>simp_all add: keeps_time_def dialPort_def split_beta\<close>)
  then show ?thesis by (auto simp: waitForTCP_def)
qed

lemma output_waits_end:
  assumes "keeps_time ho"
  shows "\<exists>r. waitForMatch ho p re timeout w = Some r" "\<exists>r. waitForOutputSubstr ho p sub timeout w = Some r"
  using poll_ends [OF assms, of "50 * 10 ^ 6" "\<lambda>w. (re (ho_Output ho p w), w)" "ho_Now ho w + timeout" w]
    poll_ends [OF assms, of "50 * 10 ^ 6" "\<lambda>w. (if Contains (ho_Output ho p w) sub then Some () else None, w)"
      "ho_Now ho w + timeout" w]
  by (auto simp: waitForMatch_def waitForOutputSubstr_def)

lemma getWithRetry_ends: "keeps_time ho \<Longrightarrow> \<exists>r. getWithRetry ho url window w = Some r"
proof -
  assume k: "keeps_time ho"
  have mono: "ho_Now ho w \<le> ho_Now ho (snd (getOnce ho url t w))" for t w
  proof -
    have get: "ho_Now ho w \<le> ho_Now ho (snd (ho_Get ho t url w))"
      and read: "ho_Now ho w1 \<le> ho_Now ho (snd (ho_ReadBody ho x w1))" for x w1
      using k by (simp_all add: keeps_time_def)
    obtain x w1 where g: "ho_Get ho t url w = (x, w1)" by (cases "ho_Get ho t url w")
    show ?thesis
    proof (cases x)
      case (Some resp)
      obtain b w2 where "ho_ReadBody ho resp w1 = (b, w2)" by (cases "ho_ReadBody ho resp w1")
      with get read [of w1 resp] g Some show ?thesis by (simp add: getOnce_def split: option.split)
    qed (use get g in \<open>simp add: getOnce_def\<close>)
  qed
  have "\<exists>r. poll ho (ho_Now ho w + window) (100 * 10 ^ 6) (getOnce ho url (30 * 10 ^ 9)) w = Some r"
    by (rule poll_ends [OF k _ mono]) simp
  then show ?thesis by (auto simp: getWithRetry_def)
qed

text \<open>
  Starting Caddy returns; what it adds to the clean-up are at most three processes; a server it
  returns has just accepted a connection on its port, and its process is among them.
\<close>

fun started_procs :: "'p cleanup list \<Rightarrow> 'p list" where
  "started_procs [] = []"
| "started_procs (StopProc p # cs) = p # started_procs cs"
| "started_procs (RemoveFile f # cs) = started_procs cs"

definition caddy_result :: "('p, 'r, 'w) host \<Rightarrow> nat \<Rightarrow> 'p cleanup list \<Rightarrow> (failure + 'p caddyProc) \<times> ('p, 'w) test \<Rightarrow> bool" where
  "caddy_result ho n cs = (\<lambda>(r, w, cs').
     \<exists>new. cs' = new @ cs \<and> length (started_procs new) \<le> n \<and>
       (case r of Inl _ \<Rightarrow> True
        | Inr c \<Rightarrow> cy_p c \<in> set (started_procs new) \<and>
            (\<exists>w0. dialPort ho (cy_port c) w0 = (True, w))))"

lemma started_procs_append [simp]: "started_procs (cs @ cs') = started_procs cs @ started_procs cs'"
  by (induction cs rule: started_procs.induct) simp_all

lemma started_wait:
  assumes "waitForTCP ho port timeout w = Some (True, w')"
  shows "\<exists>w0. dialPort ho port w0 = (True, w')"
proof -
  from assms obtain x where
    "poll ho (ho_Now ho w + timeout) (50 * 10 ^ 6) (\<lambda>w. case dialPort ho port w of (ok, w) \<Rightarrow> (if ok then Some () else None, w)) w =
      Some (Some x, w')"
    by (auto simp: waitForTCP_def)
  from poll_finds [OF this] obtain w0 where w0:
    "(case dialPort ho port w0 of (ok, w) \<Rightarrow> (if ok then Some () else None, w)) = (Some x, w')" by blast
  then have "dialPort ho port w0 = (True, w')" by (cases "dialPort ho port w0") (simp split: if_splits)
  then show ?thesis by (rule exI)
qed

lemma writeCaddyfile_cleans:
  "writeCaddyfile ho port addr origin extra (w, cs) = (r, (w', cs')) \<Longrightarrow>
    \<exists>new. cs' = new @ cs \<and> started_procs new = []"
  by (auto simp: writeCaddyfile_def split: prod.splits option.splits bool.splits)

lemma startProcess_cleans:
  "startProcess ho name exe args (w, cs) = (r, (w', cs')) \<Longrightarrow> cs' = (case r of Inl _ \<Rightarrow> cs | Inr p \<Rightarrow> StopProc p # cs)"
  by (auto simp: startProcess_def split: prod.splits option.splits bool.splits)

lemma caddy_result_later:
  assumes "caddy_result ho n (new @ cs) r" and "length (started_procs new) \<le> k"
  shows "caddy_result ho (n + k) cs r"
proof -
  obtain x w cs' where r: "r = (x, w, cs')" by (cases r)
  from assms(1) r obtain new' where "cs' = new' @ new @ cs" "length (started_procs new') \<le> n"
    "case x of Inl _ \<Rightarrow> True | Inr c \<Rightarrow> cy_p c \<in> set (started_procs new') \<and>
      (\<exists>w0. dialPort ho (cy_port c) w0 = (True, w))"
    by (auto simp: caddy_result_def)
  then have "cs' = (new' @ new) @ cs \<and> length (started_procs (new' @ new)) \<le> n + k \<and>
      (case x of Inl _ \<Rightarrow> True | Inr c \<Rightarrow> cy_p c \<in> set (started_procs (new' @ new)) \<and>
        (\<exists>w0. dialPort ho (cy_port c) w0 = (True, w)))"
    using assms(2) by (cases x) simp_all
  then show ?thesis unfolding caddy_result_def r prod.case by (rule exI)
qed

lemma caddy_result_fails: "started_procs new = [] \<Longrightarrow> caddy_result ho n cs (Inl e, (w, new @ cs))"
  by (auto simp: caddy_result_def)

lemma caddy_attempts_end:
  assumes "keeps_time ho"
  shows "\<exists>r. caddy_attempts ho cadBin addr origin extra n (w, cs) = Some r \<and> caddy_result ho n cs r"
proof (induction n arbitrary: w cs)
  case 0
  show ?case using caddy_result_fails [of "[]"] by simp
next
  case (Suc n)
  obtain port w1 where port: "freePort ho w = (port, w1)" by (cases "freePort ho w")
  show ?case
  proof (cases port)
    case (Inl e)
    with port caddy_result_fails [of "[]" ho "Suc n" cs e w1] show ?thesis by simp
  next
    case (Inr sitePort)
    obtain cf w2 cs2 where cf: "writeCaddyfile ho sitePort addr origin extra (w1, cs) = (cf, (w2, cs2))"
      by (cases "writeCaddyfile ho sitePort addr origin extra (w1, cs)") auto
    from writeCaddyfile_cleans [OF cf] obtain files where files: "cs2 = files @ cs" "started_procs files = []" by blast
    show ?thesis
    proof (cases cf)
      case (Inl e)
      with port \<open>port = Inr sitePort\<close> cf files caddy_result_fails [OF files(2)] show ?thesis by simp
    next
      case (Inr f)
      let ?args = "[Word ''run'', Word ''--config'', Path f, Word ''--adapter'', Word ''caddyfile'']"
      obtain x w3 cs3 where p: "startProcess ho ''caddy'' (Path cadBin) ?args (w2, cs2) = (x, (w3, cs3))"
        by (cases "startProcess ho ''caddy'' (Path cadBin) ?args (w2, cs2)") auto
      note steps = port \<open>port = Inr sitePort\<close> cf Inr p
      show ?thesis
      proof (cases x)
        case (Inl e)
        with startProcess_cleans [OF p] files steps caddy_result_fails [OF files(2)] show ?thesis by simp
      next
        case (Inr q)
        have cs3: "cs3 = (StopProc q # files) @ cs" using startProcess_cleans [OF p] Inr files(1) by simp
        obtain up w4 where up: "waitForTCP ho sitePort processBootTimeout w3 = Some (up, w4)"
          using waitForTCP_ends [OF assms] by (metis surj_pair)
        note steps = steps Inr up
        have rest: "\<exists>r. caddy_attempts ho cadBin addr origin extra n (w', cs3) = Some r \<and> caddy_result ho (Suc n) cs r" for w'
          using Suc [of w' cs3] caddy_result_later [of ho n "StopProc q # files" cs _ 1] files(2) cs3 by auto
        have gone: "caddy_result ho (Suc n) cs (Inl e, (w4, cs3))" for e
          using files(2) cs3 by (auto simp: caddy_result_def intro!: exI [of _ "StopProc q # files"])
        show ?thesis
        proof (cases up)
          case True
          with started_wait [of ho sitePort processBootTimeout w3 w4] up files(2) cs3 steps show ?thesis
            by (auto simp: caddy_result_def intro!: exI [of _ "StopProc q # files"])
        next
          case False
          with steps rest gone show ?thesis by simp
        qed
      qed
    qed
  qed
qed

lemma startCaddy_ends:
  assumes "keeps_time ho"
  shows "\<exists>r. startCaddy ho b addr origin extra (w, cs) = Some r \<and> caddy_result ho 3 cs r"
  using caddy_attempts_end [OF assms] caddy_result_fails [of "[]"]
  by (auto simp: startCaddy_def split: sum.split)

lemma startMockEngine_ends:
  fixes ho :: "('p, 'r, 'w) host"
  assumes "keeps_time ho"
  shows "\<exists>r. startMockEngine ho b scenario requests s = Some r"
proof -
  have wait: "\<exists>x w'. waitForMatch ho p re t w = Some (x, w')" for p re t w
    using output_waits_end(1) [OF assms, of p re t w] by auto
  show ?thesis
  proof (cases "binaries b")
    case (Inr bs)
    obtain mockBin cadBin where bs: "bs = (mockBin, cadBin)" by (cases bs)
    let ?sp = "startProcess ho (''mockengine['' @ scenario @ '']'') (Path mockBin)
      [Word ''-transport'', Word ''socket'', Word ''-addr'', Word ''127.0.0.1:0'', Word ''-scenario'', Word scenario,
       Word ''-requests'', Word (Itoa requests)] s"
    obtain x w cs where sp: "?sp = (x, (w, cs))" by (metis surj_pair)
    show ?thesis
    proof (cases x)
      case (Inl e)
      show ?thesis unfolding startMockEngine_def Inr bs sum.case prod.case sp Inl by (rule exI, rule refl)
    next
      case (Inr p)
      obtain m w' where m: "waitForMatch ho p find_listening processBootTimeout w = Some (m, w')" using wait by blast
      show ?thesis unfolding startMockEngine_def \<open>binaries b = Inr bs\<close> bs sum.case prod.case sp Inr m option.map
        by (rule exI, rule refl)
    qed
  qed (simp add: startMockEngine_def)
qed

section \<open>The build\<close>

text \<open>The binaries are built once; every later call gives the result of the first and does nothing.\<close>

lemma buildBinaries_once:
  assumes "buildBinaries ho (b, w) = (r, b', w')" and "bi_OK b = None"
  shows "buildBinaries ho (b', w'') = (r, b', w'')"
  using assms by (auto simp: buildBinaries_def Let_def split: if_splits sum.splits prod.splits option.splits)

text \<open>A build that succeeds has seen both modules in the list that the binary prints.\<close>

lemma buildBinaries_verified:
  assumes "buildBinaries ho (bins0, w) = (None, b, w')"
  shows "\<exists>out w1. ho_Command ho (Path (bi_caddy b)) [Word ''list-modules''] None w1 = ((True, out), w') \<and>
    Contains out ''http.openappsec'' \<and> Contains out ''http.handlers.openappsec'' \<and>
    binaries b = Inr (bi_mock b, bi_caddy b)"
proof -
  from assms obtain w1 where "verify_modules ho (bi_caddy b) w1 = (None, w')" and b: "bi_OK b = None" "bi_mock b \<noteq> []" "bi_caddy b \<noteq> []"
    by (auto simp: buildBinaries_def bins0_def Let_def split: sum.splits prod.splits option.splits)
  then obtain out where "ho_Command ho (Path (bi_caddy b)) [Word ''list-modules''] None w1 = ((True, out), w')"
      "Contains out ''http.openappsec''" "Contains out ''http.handlers.openappsec''"
    by (auto simp: verify_modules_def split: prod.splits bool.splits if_splits)
  with b show ?thesis by (auto simp: binaries_def)
qed

text \<open>
  The verification passes for a binary that lists the ids in its registry, one to a line, when these
  hold the two modules, which \<open>imports_register\<close> puts there.
\<close>

lemma lists_module: "x \<in> set ids \<Longrightarrow> Contains (concat (map (text_line 0) ids)) x"
proof -
  assume "x \<in> set ids"
  then obtain xs ys where "ids = xs @ x # ys" by (metis split_list)
  then have "concat (map (text_line 0) ids) =
      concat (map (text_line 0) xs) @ x @ CHR 0x0A # concat (map (text_line 0) ys)" by (simp add: text_line_def)
  then show ?thesis unfolding Contains_iff by blast
qed

lemma registered_verified:
  assumes "imports_init cd w0 = Some w" and "registers reg cd"
    and "cg_modules (reg w0) ''http.openappsec'' = None" "cg_modules (reg w0) ''http.handlers.openappsec'' = None"
    and "cg_directives (reg w0) ''openappsec'' = None" and "''openappsec'' \<notin> set (cg_order (reg w0))"
    and "''reverse_proxy'' \<in> set (cg_order (reg w0))"
    and "ho_Command ho (Path bin) [Word ''list-modules''] None x = ((True, concat (map (text_line 0) ids)), x')"
    and "set ids = dom (cg_modules (reg w))"
  shows "verify_modules ho bin x = (None, x')"
proof -
  have "{''http.openappsec'', ''http.handlers.openappsec''} \<subseteq> dom (cg_modules (reg w))"
    using imports_register [OF assms(2-7)] assms(1) by auto
  with assms(8,9) lists_module [of _ ids] show ?thesis by (auto simp: verify_modules_def)
qed

end
