(* ===== verification/E2E.thy ===== *)
theory E2E
  imports Harness Handler_Config
begin

text \<open>
  From the Caddyfile that the end-to-end harness writes to the answers of the server: the directive is
  parsed, the handler it gives is provisioned by dialing the mock engine and serves requests under the
  scenario that the engine was started with.
\<close>

section \<open>The text of a directive\<close>

text \<open>The words of each line with its indentation.\<close>

fun entry_words :: "entry \<Rightarrow> (nat \<times> string list) list" where
  "entry_words (Line (k, v)) = [(1, [k, v])]"
| "entry_words (Block k kvs) = (1, [k, ''{'']) # map (\<lambda>(k, v). (2, [k, v])) kvs @ [(1, [''}''])]"

definition directive_words :: "setting list \<Rightarrow> (nat \<times> string list) list" where
  "directive_words sts = (0, [''openappsec'', ''{'']) # concat (map entry_words (map written sts)) @ [(0, [''}''])]"

definition directive_text :: "nat \<Rightarrow> setting list \<Rightarrow> string" where
  "directive_text depth sts = concat (map (\<lambda>(n, ws). text_line (depth + n) (Join ws '' '')) (directive_words sts))"

fun number_words :: "nat \<Rightarrow> (nat \<times> string list) list \<Rightarrow> tokens" where
  "number_words l [] = []"
| "number_words l ((n, ws) # lines) = map (\<lambda>w. (w, l)) ws @ number_words (Suc l) lines"

lemma number_words_append: "number_words l (xs @ ys) = number_words l xs @ number_words (l + length xs) ys"
  by (induction l xs rule: number_words.induct) simp_all

lemma number_block: "number_words l (map (\<lambda>(k, v). (2, [k, v])) kvs) = line_tokens l kvs"
  by (induction l kvs rule: line_tokens.induct) simp_all

lemma number_entries: "number_words l (concat (map entry_words es) @ [(0, [''}''])]) = entry_tokens l es"
proof (induction l es rule: entry_tokens.induct)
  case (3 l k kvs es)
  then show ?case by (simp add: number_words_append number_block)
qed simp_all

text \<open>The tokens of a directive are the words of its text, numbered by line.\<close>

lemma directive_tokens_text: "directive_tokens sts = number_words 1 (directive_words sts)"
  using number_entries [of 2 "map written sts"]
  by (simp add: directive_tokens_def directive_words_def numeral_2_eq_2 del: map_map)

section \<open>The harness's directive\<close>

definition harness_settings :: "string \<Rightarrow> engine_setting list \<Rightarrow> setting list" where
  "harness_settings addr es =
     [EngineIs ([Transport ''socket'', RegistrationSocket addr, KeepAlivePath addr, FamilyName ''e2e''] @ es)]"

definition engine_text :: "engine_setting \<Rightarrow> string" where
  "engine_text e = (case engine_line e of (k, v) \<Rightarrow> k @ '' '' @ v)"

definition caddyfile_head :: "int \<Rightarrow> string" where
  "caddyfile_head port = text_line 0 ''{'' @ text_line 1 ''admin off'' @ text_line 0 ''}'' @ text_line 0 '''' @
     text_line 0 (''http://127.0.0.1:'' @ Itoa port @ '' {'') @ text_line 1 ''route {''"

definition caddyfile_tail :: "string \<Rightarrow> string" where
  "caddyfile_tail origin = text_line 2 origin @ text_line 1 ''}'' @ text_line 0 ''}''"

lemma engine_lines_text:
  "concat (map (\<lambda>(n, ws). text_line (2 + n) (Join ws '' '')) (map (\<lambda>(k, v). (2, [k, v])) (map engine_line es))) =
   concat (map (text_line 4) (map engine_text es))"
  by (induction es) (auto simp: engine_text_def split: prod.split)

lemma caddyfile_holds_directive:
  "caddyfile_text port addr origin (map engine_text es) =
   caddyfile_head port @ directive_text 2 (harness_settings addr es) @ caddyfile_tail origin"
  using engine_lines_text [of es]
  by (simp add: caddyfile_text_def caddyfile_head_def caddyfile_tail_def directive_text_def directive_words_def
      harness_settings_def) (simp add: numeral_2_eq_2 numeral_3_eq_3)

text \<open>The settings of times, which the harness adds for some tests.\<close>

fun timing :: "engine_setting \<Rightarrow> bool" where
  "timing (KeepAliveIntervalMs n) = True"
| "timing (RegistrationTimeoutMs n) = True"
| "timing (ReconnectBackoffMinMs n) = True"
| "timing (ReconnectBackoffMaxMs n) = True"
| "timing (FailOpenTimeoutMs n) = True"
| "timing (ReqMaxProcessingMs n) = True"
| "timing (ResMaxProcessingMs n) = True"
| "timing e = False"

lemma timing_keeps:
  assumes "list_all timing es"
  shows "ec_Transport (fold set_engine es c) = ec_Transport c \<and>
    ec_RegistrationSocket (fold set_engine es c) = ec_RegistrationSocket c \<and>
    ec_FamilyName (fold set_engine es c) = ec_FamilyName c \<and> ec_WorkerID (fold set_engine es c) = ec_WorkerID c \<and>
    ec_FailOpen (fold set_engine es c) = ec_FailOpen c"
  using assms
proof (induction es arbitrary: c)
  case (Cons e es)
  then show ?case by (cases e) simp_all
qed simp

text \<open>The handler that the directive gives, provisioned: \<open>SetDefaults\<close> runs again.\<close>

definition harness_handler :: "string \<Rightarrow> engine_setting list \<Rightarrow> Handler" where
  "harness_handler addr es = Handler_SetDefaults (Handler_SetDefaults (fold set_handler (harness_settings addr es) Handler_zero))"

lemma harness_handler_fields:
  assumes "list_all timing es" and "addr \<noteq> ''''"
  shows "ec_Transport (hn_Engine (harness_handler addr es)) = ''socket''"
    "ec_RegistrationSocket (hn_Engine (harness_handler addr es)) = addr"
    "ec_FamilyName (hn_Engine (harness_handler addr es)) = ''e2e''"
    "ec_WorkerID (hn_Engine (harness_handler addr es)) = 0"
    "failOpenEnabled (hn_Engine (harness_handler addr es))" "hn_Mode (harness_handler addr es) = ModePrevent"
  using assms timing_keeps [OF assms(1)]
  by (simp_all add: harness_handler_def harness_settings_def Handler_SetDefaults_def EngineConfig_SetDefaults_def
      Handler_zero_def EngineConfig_zero_def dflt_str_def dflt_bool_def failOpenEnabled_def DefaultMode_def)

section \<open>Provisioning\<close>

text \<open>A first \<open>Acquire\<close> whose dial succeeds leaves the pool with a ready connection.\<close>

lemma provisioned:
  assumes "ec_RegistrationSocket (hn_Engine (Handler_SetDefaults h)) = addr"
    and "Dial_engine net d cfg w = (Inr k, w')"
  shows "\<exists>p. Handler_Provision net h (GlobalPool cfg d none None) w = Some (None, Handler_SetDefaults h, p, w') \<and>
    pool_ready addr 0 0 p \<and> pl_conns p 0 = newConn net cfg d addr k"
proof -
  have "pl_entries (NewPool cfg d none) addr = None" by (simp add: NewPool_def)
  from dialed_twice [OF this, of net "Some DeadlineExceeded" w] assms(2) show ?thesis
    by (simp add: Handler_Provision_def GlobalPool_def assms(1) NewPool_def pool_ready_def newConn_def)
qed

lemma scenario_engine:
  assumes "configureScenario (NewWithListener addr) scenario requests = Inr e"
  shows "\<not> eng_closed e" "eng_addr e = addr" "eng_conns e = []" "eng_frames e = []"
  using assms
  by (auto simp: configureScenario_def NewWithListener_def SetResponder_def SetFlakyAfter_def SetVerdictsEnabled_def
      split: if_splits)

lemma harness_dials:
  assumes "configureScenario (NewWithListener addr) scenario requests = Inr (mk_engine w)" and "length addr < 256"
    and "list_all timing es" and "addr \<noteq> ''''" and "mk_medium w = TCP" and "\<not> is_err (parseAddr addr)"
  shows "\<exists>k w'. Dial_engine mock_net SocketDialer (hn_Engine (harness_handler addr es)) w = (Inr k, w') \<and>
    mq_replies (mk_conn w' k) = [] \<and> \<not> mq_closed (mk_conn w' k) \<and> only_used (mk_engine w) (mk_engine w') \<and>
    eng_frames (mk_engine w') = [registrationFrame (hn_Engine (harness_handler addr es)), commFrame (hn_Engine (harness_handler addr es))]"
proof -
  let ?cfg = "hn_Engine (harness_handler addr es)"
  note e = scenario_engine [OF assms(1)] and f = harness_handler_fields [OF assms(3,4)]
  have "Itoa (go_int (0 + 1)) = ''1''" by code_simp
  then have id: "UniqueID ?cfg = CHR ''e'' # ''2e_1''" by (simp add: UniqueID_def f)
  obtain k w' where k: "Dial_engine mock_net SocketDialer ?cfg w = (Inr k, w')"
      "mq_replies (mk_conn w' k) = []" "\<not> mq_closed (mk_conn w' k)" and w':
      "mk_engine w' = (mk_engine w)\<lparr>eng_conns := k # eng_conns (mk_engine w),
        eng_frames := eng_frames (mk_engine w) @ [registrationFrame ?cfg, commFrame ?cfg],
        eng_total := eng_total (mk_engine w) + 2\<rparr>"
    using mock_dials [OF _ _ _ _ _ _ id, of SocketDialer w] e f id assms(2,5,6)
    by (auto simp: dials_engine_def mock_reaches_def)
  have "only_used (mk_engine w) (mk_engine w')" unfolding only_used_def w' by (intro exI) (rule refl)
  with k w' e(4) show ?thesis by auto
qed

text \<open>The outcomes of the requests \<open>rs\<close> that a scenario stands for, and the time it takes.\<close>

definition answered_as ::
  "string \<Rightarrow> (string \<Rightarrow> qval option) \<Rightarrow> (bytes \<Rightarrow> bytes) \<Rightarrow> Handler \<Rightarrow> origin \<Rightarrow> request list \<Rightarrow> outcome list \<Rightarrow> int \<Rightarrow> bool" where
  "answered_as scenario pf gz h origin rs os time \<longleftrightarrow>
     (if scenario = ''allow'' then os = map (\<lambda>r. forward pf gz h origin (restored r (body_of r)) fresh_client) rs
      else if scenario = ''block'' then length os = length rs \<and> (\<forall>(err, c) \<in> set os. err = None \<and> cl_status c = Some 403 \<and>
        cl_body c = to_bytes (block_html ''Blocked by mock engine''
          ''This request was blocked by the mock open-appsec engine.''))
      else if scenario = ''inject'' then
        os = map (\<lambda>r. forward pf gz h origin (restored r (body_of r @ to_bytes ''<mock-inject>'')) fresh_client) rs
      else scenario = ''down'' \<and> os = map (\<lambda>r. forward pf gz h origin (restored r (body_of r)) fresh_client) rs \<and>
        time = int (length rs) * verdictBudget (hn_Engine h))"

lemma serve_all_length: "serve_all srv rs w = Some (os, w') \<Longrightarrow> length os = length rs"
proof (induction rs arbitrary: w os w')
  case (Cons r rs)
  then obtain e c w1 os1 where "serve_all srv rs w1 = Some (os1, w')" "os = (e, c) # os1"
    by (auto simp: bind_eq_Some_conv)
  with Cons.IH show ?case by simp
qed simp

lemma provisioned_answers:
  assumes "configureScenario (NewWithListener addr) scenario requests = Inr e0 \<and> only_used e0 (mk_engine w)" and "scenario \<noteq> ''flaky''"
    and "\<not> mq_closed (mk_conn w k)" and "mq_replies (mk_conn w k) = []" and "hn_Mode h = ModePrevent"
    and "failOpenEnabled (hn_Engine h)" and "pool_ready (ec_RegistrationSocket (hn_Engine h)) 0 0 p"
    and "pl_conns p 0 = newConn mock_net cfg d addr' k" and "\<forall>r \<in> set rs. inspectable keys r"
  shows "\<exists>os w'. serve_all (\<lambda>r. ServeHTTP pf gz keys h (Some (policy_acquirer mock_net (hn_Engine h) ctx)) origin r fresh_client) rs (p, w) =
      Some (os, (p, w')) \<and> answered_as scenario pf gz h origin rs os (mk_clock w' - mk_clock w)"
proof -
  have conn: "cn_conn (pl_conns p 0) = k" "\<not> cn_closed (pl_conns p 0)" "\<not> cn_flowSerial (pl_conns p 0)"
    by (simp_all add: assms(8) newConn_def mock_net_def)
  have mode: "hn_Mode h \<noteq> ModeLearn" by (simp add: assms(5) ModePrevent_def ModeLearn_def)
  obtain os w' where run: "serve_all (\<lambda>r. ServeHTTP pf gz keys h (Some (policy_acquirer mock_net (hn_Engine h) ctx)) origin r
      fresh_client) rs (p, w) = Some (os, (p, w'))"
    and which: "scenario \<in> {''allow'', ''block'', ''inject'', ''down''}"
    and allow: "scenario = ''allow'' \<longrightarrow> os = map (\<lambda>r. forward pf gz h origin (restored r (body_of r)) fresh_client) rs"
    and block: "scenario = ''block'' \<and> hn_Mode h \<noteq> ModeLearn \<longrightarrow> (\<forall>(err, c) \<in> set os. err = None \<and> cl_status c = Some 403 \<and>
      cl_body c = to_bytes (block_html ''Blocked by mock engine''
        ''This request was blocked by the mock open-appsec engine.''))"
    and inject: "scenario = ''inject'' \<longrightarrow>
      os = map (\<lambda>r. forward pf gz h origin (restored r (body_of r @ to_bytes ''<mock-inject>'')) fresh_client) rs"
    and down: "scenario = ''down'' \<longrightarrow> os = map (\<lambda>r. forward pf gz h origin (restored r (body_of r)) fresh_client) rs \<and>
      mk_clock w' = mk_clock w + int (length rs) * verdictBudget (hn_Engine h)"
    using scenario_serves [OF assms(1,2) assms(3,4) [folded conn(1)] assms(7) conn(2,3) assms(9,6), of pf gz h ctx origin]
    by (elim exE conjE) (rule that; assumption)
  have "answered_as scenario pf gz h origin rs os (mk_clock w' - mk_clock w)"
  proof (cases "scenario = ''block''")
    case True
    with block [rule_format, OF conjI [OF True mode]] serve_all_length [OF run] show ?thesis
      unfolding answered_as_def by simp
  next
    case False
    with which allow inject down show ?thesis unfolding answered_as_def by (elim insertE) simp_all
  qed
  with run show ?thesis by (intro exI conjI)
qed

section \<open>Property\<close>

text \<open>
  C7: what the end-to-end suite checks of the scenarios allow, block, inject and down (the flaky
  scenario is not covered), for a mock engine that listens over TCP at an address of at most 255 bytes,
  other than a brace, that the socket transport accepts, for every port, added time settings with
  admissible values and
  every sequence of requests whose body can be read and whose strings fit the length prefixes of the
  frames. The file that the harness writes holds the directive of its settings; the parser,
  given the words of that directive as Caddy's tokens, returns a handler whose \<open>Provision\<close> dials the mock
  engine at that address, the engine receiving exactly the two handshake frames; and that handler then
  answers all of the requests, one after the other: forwarded as they were (allow, and down, where
  each takes the verdict budget), blocked with status 403 and the engine's page (block), or forwarded
  with the tag appended to the request's body (inject).
\<close>

theorem e2e_outcomes:
  assumes "token_lines d view" and "view s = \<lparr>ts_seen = None, ts_rest = number_words 1 (directive_words (harness_settings addr es)),
      ts_nesting = 0\<rparr>"
    and "word_ok addr" and "addr \<noteq> ''''" and "length addr < 256" and "list_all engine_ok es" and "list_all timing es"
    and "configureScenario (NewWithListener addr) scenario requests = Inr (mk_engine w)" and "scenario \<noteq> ''flaky''"
    and "\<forall>r \<in> set rs. inspectable keys r" and "mk_medium w = TCP" and "\<not> is_err (parseAddr addr)"
  shows "caddyfile_text port addr respond (map engine_text es) =
      caddyfile_head port @ directive_text 2 (harness_settings addr es) @ caddyfile_tail respond \<and>
    (\<exists>h s' h' p w1 os w2. parseCaddyfile d s = Some (Inr h, s') \<and>
      Handler_Provision mock_net h (GlobalPool (hn_Engine h') (NewDialer (hn_Engine h')) none None) w = Some (None, h', p, w1) \<and>
      eng_frames (mk_engine w1) = [registrationFrame (hn_Engine h'), commFrame (hn_Engine h')] \<and>
      serve_all (\<lambda>r. ServeHTTP pf gz keys h' (Some (policy_acquirer mock_net (hn_Engine h') ctx)) origin r fresh_client) rs (p, w1) =
        Some (os, (p, w2)) \<and> answered_as scenario pf gz h' origin rs os (mk_clock w2 - mk_clock w1))"
proof (intro conjI caddyfile_holds_directive)
  let ?h = "Handler_SetDefaults (fold set_handler (harness_settings addr es) Handler_zero)"
  let ?h' = "harness_handler addr es"
  note f = harness_handler_fields [OF assms(7,4)]
  have ok: "list_all setting_ok (harness_settings addr es)" using assms(3,6) by (simp add: harness_settings_def word_ok_def)
  obtain s' where s': "parseCaddyfile d s = Some (Inr ?h, s')"
    using token_lines.directive_reads [OF assms(1) _ ok] assms(2) directive_tokens_text by metis
  have dialer: "NewDialer (hn_Engine ?h') = SocketDialer"
    by (simp add: NewDialer_def f TransportMemory_def TransportSocket_def)
  obtain k w1 where dial: "Dial_engine mock_net SocketDialer (hn_Engine ?h') w = (Inr k, w1)"
      and idle: "\<not> mq_closed (mk_conn w1 k)" "mq_replies (mk_conn w1 k) = []"
      and used: "only_used (mk_engine w) (mk_engine w1)"
      and hs: "eng_frames (mk_engine w1) = [registrationFrame (hn_Engine ?h'), commFrame (hn_Engine ?h')]"
    using harness_dials [OF assms(8,5,7,4,11,12)] by blast
  from provisioned [OF _ dial, of ?h addr none] f(2) obtain p where
    p: "Handler_Provision mock_net ?h (GlobalPool (hn_Engine ?h') SocketDialer none None) w = Some (None, ?h', p, w1)"
      "pool_ready (ec_RegistrationSocket (hn_Engine ?h')) 0 0 p"
      "pl_conns p 0 = newConn mock_net (hn_Engine ?h') SocketDialer addr k" by (auto simp: harness_handler_def)
  from provisioned_answers [OF conjI [OF assms(8) used] assms(9) idle f(6,5) p(2,3) assms(10)] s' p(1) [folded dialer] hs
  show "\<exists>h s' h' p w1 os w2. parseCaddyfile d s = Some (Inr h, s') \<and>
      Handler_Provision mock_net h (GlobalPool (hn_Engine h') (NewDialer (hn_Engine h')) none None) w = Some (None, h', p, w1) \<and>
      eng_frames (mk_engine w1) = [registrationFrame (hn_Engine h'), commFrame (hn_Engine h')] \<and>
      serve_all (\<lambda>r. ServeHTTP pf gz keys h' (Some (policy_acquirer mock_net (hn_Engine h') ctx)) origin r fresh_client) rs (p, w1) =
        Some (os, (p, w2)) \<and> answered_as scenario pf gz h' origin rs os (mk_clock w2 - mk_clock w1)" by blast
qed

definition e2e_addr :: string where
  "e2e_addr = ''tcp://127.0.0.1:4321''"

definition e2e_timing :: "engine_setting list" where
  "e2e_timing = [FailOpenTimeoutMs 500, ReqMaxProcessingMs 300]"

definition e2e_tokens :: token_state where
  "e2e_tokens = \<lparr>ts_seen = None, ts_rest = number_words 1 (directive_words (harness_settings e2e_addr e2e_timing)),
     ts_nesting = 0\<rparr>"

definition e2e_world :: mock_world where
  "e2e_world = mock0\<lparr>mk_engine := SetVerdictsEnabled False (NewWithListener e2e_addr)\<rparr>"

theorem e2e_outcomes_witness:
  "\<exists>h s' h' p w1 os w2. parseCaddyfile token_dispenser e2e_tokens = Some (Inr h, s') \<and>
    Handler_Provision mock_net h (GlobalPool (hn_Engine h') (NewDialer (hn_Engine h')) (\<lambda>_. example_conn) None) e2e_world =
      Some (None, h', p, w1) \<and>
    serve_all (\<lambda>r. ServeHTTP (\<lambda>_. None) (\<lambda>b. b) (\<lambda>_. []) h' (Some (policy_acquirer mock_net (hn_Engine h') None))
        page_origin r fresh_client) [example_post] (p, w1) = Some (os, (p, w2)) \<and>
    os = [forward (\<lambda>_. None) (\<lambda>b. b) h' page_origin (restored example_post [1, 2]) fresh_client]"
proof -
  have view: "id e2e_tokens = \<lparr>ts_seen = None, ts_rest = number_words 1 (directive_words
      (harness_settings e2e_addr e2e_timing)), ts_nesting = 0\<rparr>" by (simp add: e2e_tokens_def)
  have addr: "word_ok e2e_addr" "e2e_addr \<noteq> ''''" "length e2e_addr < 256"
      "list_all engine_ok e2e_timing" "list_all timing e2e_timing"
    by (simp_all add: e2e_addr_def e2e_timing_def word_ok_def int_ok_def)
  have eng: "configureScenario (NewWithListener e2e_addr) ''down'' 0 = Inr (mk_engine e2e_world)" "''down'' \<noteq> ''flaky''"
    by (simp_all add: configureScenario_def e2e_world_def)
  have reach: "mk_medium e2e_world = TCP" "\<not> is_err (parseAddr e2e_addr)"
    by (simp add: e2e_world_def mock0_def) (simp add: e2e_addr_def parseAddr_def HasPrefix_def TrimPrefix_def)
  have body: "body_of example_post = [1, 2]" by (simp add: body_of_def example_post_def)
  have reqs: "\<forall>r \<in> set [example_post]. inspectable (\<lambda>_. []) r"
    using example_readable example_post_fits by (simp add: inspectable_def body)
  note e2e = e2e_outcomes [where d = token_dispenser and view = id and s = e2e_tokens and addr = e2e_addr and es = e2e_timing
      and scenario = "''down''" and requests = 0 and w = e2e_world and rs = "[example_post]" and keys = "\<lambda>_. []"
      and none = "\<lambda>_. example_conn" and pf = "\<lambda>_. None" and gz = "\<lambda>b. b" and ctx = None and origin = page_origin,
      OF token_view.token_lines_axioms view addr eng reqs reach, THEN conjunct2]
  show ?thesis using e2e by (simp add: answered_as_def body) blast
qed

end
