(* ===== verification/Spec2Isabelle.thy ===== *)
theory Spec2Isabelle
  imports Protocol Memory Ring_Conn Socket Body Config Handshake App_Conn Pool Policy Response Handler
    Caddyfile Mock Middleware Open_Ring Ring_Net Endpoints
    Mock_Command Mock_Serve Handler_Config Keep_Alive Concurrent Close_Contract Caddyfile_Reads
    Modules Describe Harness E2E
begin

text \<open>
  Verification of the open-appsec attachment for Caddy: an HTTP middleware, written in Go, that
  sends every request to a security engine on the same machine and enforces the verdict.

  The program and its parts. A request enters \<open>ServeHTTP\<close> (internal/handler), which buffers its
  body and asks the fail-open policy (internal/app/policy.go) for a verdict. The policy takes the
  shared connection to the engine from a pool (pool.go), which dials it on first use: a dialer
  connects a transport and runs the registration handshake (dialer.go, handshake.go). The
  connection (conn.go) sends the request as a transaction of frames under a session id
  (internal/protocol) and the policy waits for the verdict frame of that session. Three transports
  carry frames: an in-process one (internal/transport/memory), a TCP one (.../socket), and, in
  production, two shared-memory ring queues with a Unix socket that carries signals and echoes
  (.../linux). The verdict lets the request through, changes it, or blocks it; a response that is
  let through passes a buffering writer (internal/handler/response.go, internal/body). The
  configuration comes from JSON or a Caddyfile (internal/config, caddyfile.go). A scriptable engine
  (internal/mock) stands in for the real one; an end-to-end harness (internal/e2e) runs a Caddy with the
  module against it.

  Theories, bottom up.
  Prelude: Go integers as words, errors as sums, little-endian bytes, the theorem collections.
  Consts: internal/protocol/const.go.
  Wire (frame.go): writer and reader of the fragments; the locales \<open>codec\<close>, \<open>message_codec\<close>,
  \<open>normal_codec\<close> and \<open>prefix_codec\<close> state what encoder and parser of a message owe each other.
  Frames (handshake.go, request.go, simple.go) and Verdict (verdict.go, verdict_parse.go): every
  message as a record with \<open>Encode\<close> and \<open>Parse\<close>, each an interpretation of such a contract.
  Session (session.go): the id allocator and the histories of its calls.
  Protocol: the properties of the protocol as a whole.
  Queue: the locale \<open>fifo\<close> of a message queue. Transport (transport.go): the errors and the locales
  \<open>closing_conn\<close>, what closing a connection does, and \<open>engine_conn\<close>, where the first \<open>Close\<close> succeeds.
  Ring (linux/ring.go): every operation of the queue on the bytes of the mapped file. Ring_Cells
  and Ring_Fifo refine it in two steps, bytes to numbered cells and cells to a list of messages;
  Ring_Queue joins them (\<open>ring_rel\<close>), interprets \<open>fifo\<close> for messages of one segment of either size and
  states the properties.
  Ring_Conn (linux/ring_linux.go), Socket (socket/*.go, linux/unix_linux.go) and Memory
  (memory/*.go): the connections, each an interpretation of \<open>engine_conn\<close>, or of \<open>closing_conn\<close>
  for the Unix socket, whose first \<open>Close\<close> hands on the error of the socket; the notification
  protocol of the in-process \<open>Recv\<close> and the teardown of a socket call are step relations. Open_Ring
  (\<open>OpenRing\<close>, \<open>openRingQueue\<close>, \<open>ringQueue.close\<close>) opens, checks and maps the two queue files over a
  record of system calls, Endpoints (socket/socket.go, listener.go, linux/unix_linux.go) listens and
  dials over a record of socket calls.
  Go_Strings: the parts of strings and strconv in use. Body (internal/body), Config
  (internal/config).
  Handshake (app/handshake.go, dialer*.go): the transports as a record \<open>net\<close> of operations on a
  world, the two handshake phases and the dialers. App_Conn (conn.go, keepalive.go): sessions,
  the flow lock, redialing, the frames of a request and of a response, the keep-alive loop, whose
  whole life is in Keep_Alive.
  Pool (pool.go): \<open>Acquire\<close>, \<open>Release\<close> and \<open>Close\<close>, and any interleaving of users as a step
  relation with its invariant. Policy (policy.go, app.go): the two verdict calls with their
  deferred calls, the wait, and the application module.
  Http: header maps and the response writer of net/http. Response (handler/response.go), Handler
  (handler.go, body.go), Handler_Config (the handler's settings against internal/config, the options
  nothing reads, handlers that share a connection), Caddyfile (caddyfile.go). Middleware: handler, policy, connection and
  frames together, from the request to what the engine reads and back. Mock (internal/mock): the
  classification of frames, the scripted engine, and that engine as a \<open>net\<close> for the policy, reached
  only over the medium and at the address of its listener;
  Mock_Serve: its accept and serve loops, its counters, and the dialers against it; Mock_Command
  (cmd/mockengine): the scenarios, each followed through handler, policy and connection, and the
  dump of frames; Describe: the descriptions of frames. Ring_Net: the opened rings as a \<open>net\<close>, so that a request is followed from
  \<open>ServeHTTP\<close> down to the segments of the shared memory.
  Concurrent: any number of verdict calls at the same time over one connection, as a step relation.
  Close_Contract: the interface of listeners (the locale \<open>engine_listener\<close>) and what closing means on
  every transport. Caddyfile_Reads: the laws of Caddy's dispenser (the locale \<open>token_lines\<close>) and the
  settings as a data type, with what the parser makes of a directive that writes them. Modules: the
  registration with Caddy (\<open>CaddyModule\<close>, \<open>init\<close>, imports.go, cmd/caddy). Harness (internal/e2e): the
  build, the processes, the Caddyfile and the waits of the end-to-end suite; E2E: from that Caddyfile
  through parser, provisioning and handshake to the answers of the server.

  What the lemmas show. Codec lemmas: parsing inverts encoding on well-formed messages, accepts
  nothing else, and rejects truncated frames. Refinement lemmas: the ring, read through
  \<open>ring_rel\<close>, is a queue; push and pop are append and removal at the head. Invariants: ids in
  flight differ, a shared connection stays open while it is held, every path of a verdict call
  gives back its reference, session and lock, and a connection it dialed itself is closed. Tracing lemmas (\<open>wiretap\<close>, \<open>rx_tap\<close>): what the engine
  receives is the request, and a verdict the policy returns is one it was sent. Equivalence: a
  request let through is answered as without the middleware, and the handler's settings are those of
  internal/config. Composition: over the opened rings a transaction is queued frame by frame or
  fails for its size; against the mock engine a dial completes and each scenario has its outcome for
  every sequence of requests, down from the text of the Caddyfile. Concurrency: interleaved verdict
  calls keep ids, lock and frames apart, and on a connection without the lock one can consume the
  verdict of another. Closing: after \<open>Close\<close> every operation of every connection and listener
  reports \<open>ErrClosed\<close>, but for a ring's send of a payload above its limit. Termination: waiting for a verdict, parsing a directive and the waits of the
  harness end under stated laws of the engine, of the token dispenser and of the clock. Some
  properties establish what the code does where a comment or its purpose says otherwise; their
  text says so. The text before a property names the cases it covers and those it leaves out: among
  these are requests whose body cannot be read (forwarded uninspected), messages of several
  segments (they can overwrite unread ones), the flaky scenario, and, for the pool, a release by
  somebody who holds nothing.

  Bounds and recursion. Bytes, frame fields and ring positions keep their width. Go's int is an
  integer; arithmetic that can overflow goes through \<open>go_int\<close>. Loops that may not end (\<open>await\<close>,
  \<open>AwaitVerdict\<close>, the loops of the Caddyfile parser) are partial functions into \<open>option\<close>, \<open>None\<close>
  standing for a call that does not return; there is no fuel. A call that polls is given the
  list of its polling periods with what others do meanwhile, and blocks when the list ends.

  Parameters of the model: the operations of the network (\<open>net\<close>), the next handler, the token
  dispenser of Caddy, the gzip and deflate formats, and the sign of a quality value. The
  interpretation of a law about a parameter on a concrete instance is in the theory that states it.

  Not modelled: what the system calls that open, map and dial files and sockets do, which stand as
  records of operations (\<open>sys\<close>, \<open>sockets\<close>, \<open>net\<close>, \<open>host\<close>) with their results as data; Caddy itself, whose
  registry and dispenser are parameters, and the lexer that makes tokens of a file; logging, but for
  the dump of frames, which is the purpose of its loop; flags and signals of the commands; the format
  \<open>%q\<close>, a parameter of the descriptions of frames; the messages of failures in the harness and the
  goroutine that collects the output of a process, which is the function giving that output.
  Goroutines are modelled where they share state with a caller, as step relations
  or as what others do during a call; the lock of a critical section is the atomicity of a step.
\<close>

end
